(* ===== verification/Prelude.thy ===== *)
theory Prelude
  imports Main "HOL-Library.Word"
begin

section \<open>Prelude: machine types, faults, byte buffers\<close>

text \<open>
  What every component shares: the fixed-width integers of the sources, the ways
  a C++ operation can go wrong (\<open>fault\<close>), results that are a fault or a value
  (\<open>'a res\<close>), and byte buffers with bounds-checked reads and writes.

  A buffer is the list of the bytes a pointer may legally reach. An access outside
  it is undefined behaviour in C++ and the fault \<open>Out_Of_Bounds\<close> here, so a theorem
  that an operation returns \<open>Inr\<close> says in particular that it stays inside its
  buffers. Byte offsets and byte counts of objects in memory (\<open>uint64_t\<close>, \<open>size_t\<close>)
  are \<open>nat\<close>; where a narrower type truncates or wraps, the value is a word.
\<close>

unbundle bit_operations_syntax

type_synonym u8 = "8 word"
type_synonym u16 = "16 word"
type_synonym u32 = "32 word"
type_synonym u64 = "64 word"

subsection \<open>Faults and results\<close>

datatype fault =
    Out_Of_Bounds     \<comment> \<open>access outside the buffer (undefined behaviour)\<close>
  | Out_Of_Range      \<comment> \<open>\<open>std::out_of_range\<close> thrown by \<open>vector::at\<close>\<close>
  | Inactive_Member   \<comment> \<open>read of a union member that is not active\<close>
  | Bad_Pointer       \<comment> \<open>access through a null or dangling pointer\<close>
  | Bad_Shift         \<comment> \<open>shift by the width of the type or more\<close>
  | Empty_Container   \<comment> \<open>\<open>front\<close>, \<open>back\<close> or \<open>pop\<close> of an empty container\<close>
  | Div_By_Zero       \<comment> \<open>integer division by zero\<close>
  | Not_Locked        \<comment> \<open>\<open>unlock\<close> of a mutex that is not held\<close>
  | Bad_Alloc         \<comment> \<open>\<open>std::bad_alloc\<close> thrown by \<open>new\<close>\<close>
  | Int_Overflow      \<comment> \<open>a signed value that does not fit its type\<close>
  | Bad_Length        \<comment> \<open>an array of variable length with no elements\<close>

type_synonym 'a res = "fault + 'a"

definition rbind :: "'a res \<Rightarrow> ('a \<Rightarrow> 'b res) \<Rightarrow> 'b res" where
  "rbind m f = (case m of Inl e \<Rightarrow> Inl e | Inr x \<Rightarrow> f x)"

lemma rbind_Inr [simp]: "rbind (Inr x) f = f x"
  by (simp add: rbind_def)

lemma rbind_Inl [simp]: "rbind (Inl e) f = Inl e"
  by (simp add: rbind_def)

lemma rbind_eq_Inr: "rbind m f = Inr y \<longleftrightarrow> (\<exists>x. m = Inr x \<and> f x = Inr y)"
  by (cases m) auto

lemma rbind_assoc: "rbind (rbind m f) g = rbind m (\<lambda>x. rbind (f x) g)"
  by (cases m) auto

lemma rbind_cong [fundef_cong]:
  "m = m' \<Longrightarrow> (\<And>x. m' = Inr x \<Longrightarrow> f x = f' x) \<Longrightarrow> rbind m f = rbind m' f'"
  by (cases m') auto

definition of_option :: "fault \<Rightarrow> 'a option \<Rightarrow> 'a res" where
  "of_option e m = (case m of None \<Rightarrow> Inl e | Some x \<Rightarrow> Inr x)"

lemma of_option_simps [simp]: "of_option e None = Inl e" "of_option e (Some x) = Inr x"
  by (simp_all add: of_option_def)

text \<open>\<open>vector::at\<close>, which checks its index.\<close>

definition vec_at :: "'a list \<Rightarrow> nat \<Rightarrow> 'a res" where
  "vec_at xs i = (if i < length xs then Inr (xs ! i) else Inl Out_Of_Range)"

lemma vec_at_Inr [simp]: "i < length xs \<Longrightarrow> vec_at xs i = Inr (xs ! i)"
  by (simp add: vec_at_def)

lemma vec_at_eq_Inr: "vec_at xs i = Inr x \<longleftrightarrow> i < length xs \<and> xs ! i = x"
  by (auto simp: vec_at_def)

text \<open>\<open>vector::back\<close>, undefined on an empty vector.\<close>

definition vec_back :: "'a list \<Rightarrow> 'a res" where
  "vec_back xs = (if xs = [] then Inl Empty_Container else Inr (last xs))"

lemma vec_back_snoc [simp]: "vec_back (xs @ [x]) = Inr x"
  by (simp add: vec_back_def)

text \<open>The exit status of a program; one parser returns it where it means a \<open>bool\<close>.\<close>

definition EXIT_SUCCESS :: int where "EXIT_SUCCESS = 0"

definition EXIT_FAILURE :: int where "EXIT_FAILURE = 1"

text \<open>The results of a group of threads, or the fault of the first that has one.\<close>

primrec run_all :: "('a \<Rightarrow> 'b res) \<Rightarrow> 'a list \<Rightarrow> 'b list res" where
  "run_all f [] = Inr []"
| "run_all f (x # xs) = rbind (f x) (\<lambda>y. rbind (run_all f xs) (\<lambda>ys. Inr (y # ys)))"

lemma run_all_Inr: "(\<And>x. x \<in> set xs \<Longrightarrow> f x = Inr (g x)) \<Longrightarrow> run_all f xs = Inr (map g xs)"
  by (induction xs) simp_all

lemma run_all_length: "run_all f xs = Inr ys \<Longrightarrow> length ys = length xs"
  by (induction xs arbitrary: ys) (auto simp: rbind_eq_Inr)

subsection \<open>Byte buffers\<close>

named_theorems buf_simps \<open>reading and writing at the seam of concatenated buffers\<close>

definition rd8 :: "u8 list \<Rightarrow> nat \<Rightarrow> u8 res" where
  "rd8 buf p = (if p < length buf then Inr (buf ! p) else Inl Out_Of_Bounds)"

definition rd_bytes :: "u8 list \<Rightarrow> nat \<Rightarrow> nat \<Rightarrow> u8 list res" where
  "rd_bytes buf p n =
     (if p + n \<le> length buf then Inr (take n (drop p buf)) else Inl Out_Of_Bounds)"

definition wr_bytes :: "u8 list \<Rightarrow> nat \<Rightarrow> u8 list \<Rightarrow> u8 list res" where
  "wr_bytes buf p xs =
     (if p + length xs \<le> length buf
      then Inr (take p buf @ xs @ drop (p + length xs) buf) else Inl Out_Of_Bounds)"

lemma rd8_Inr [simp]: "p < length buf \<Longrightarrow> rd8 buf p = Inr (buf ! p)"
  by (simp add: rd8_def)

lemma rd8_eq_Inr: "rd8 buf p = Inr b \<longleftrightarrow> p < length buf \<and> buf ! p = b"
  by (auto simp: rd8_def)

lemma rd8_append [buf_simps]: "i < length xs \<Longrightarrow> rd8 (pre @ xs @ post) (length pre + i) = Inr (xs ! i)"
  by (simp add: rd8_def nth_append)

lemma rd8_append_0 [buf_simps]: "0 < length xs \<Longrightarrow> rd8 (pre @ xs @ post) (length pre) = Inr (xs ! 0)"
  using rd8_append [of 0 xs pre post] by simp

lemma rd_bytes_append [buf_simps]:
  "n = length xs \<Longrightarrow> rd_bytes (pre @ xs @ post) (length pre) n = Inr xs"
  by (simp add: rd_bytes_def)

lemma rd_bytes_eq_Inr:
  "rd_bytes buf p n = Inr xs \<longleftrightarrow> p + n \<le> length buf \<and> xs = take n (drop p buf)"
  by (auto simp: rd_bytes_def)

lemma rd_bytes_length: "rd_bytes buf p n = Inr xs \<Longrightarrow> length xs = n"
  by (auto simp: rd_bytes_eq_Inr)

text \<open>Writing where earlier writes ended: the buffer is what was written, then the rest.\<close>

lemma wr_bytes_append [buf_simps]:
  assumes "length mid = length xs" and "p = length pre"
  shows "wr_bytes (pre @ mid @ post) p xs = Inr (pre @ xs @ post)"
  using assms by (simp add: wr_bytes_def)

lemma wr_bytes_split:
  assumes "length pre = p" and "length xs \<le> length rest"
  shows "wr_bytes (pre @ rest) p xs = Inr ((pre @ xs) @ drop (length xs) rest)"
  using assms by (simp add: wr_bytes_def)

lemma wr_bytes_length: "wr_bytes buf p xs = Inr buf' \<Longrightarrow> length buf' = length buf"
  by (auto simp: wr_bytes_def split: if_splits)

subsection \<open>Words\<close>

named_theorems word_nat \<open>word operations read as arithmetic on naturals\<close>

lemma unat_u8_less [simp]: "unat (b :: u8) < 256"
  using unsigned_less [of b, where 'a = nat] by simp

lemma unat_u32_less: "unat (x :: u32) < 4294967296"
  using unsigned_less [of x, where 'a = nat] by simp

lemma unat_or_disjoint:
  fixes x y :: "'a::len word"
  assumes "x AND y = 0"
  shows "unat (x OR y) = unat x + unat y"
proof -
  have "unat x AND unat y = 0"
    using assms by (simp flip: unsigned_and_eq)
  then show ?thesis
    by (simp add: unsigned_or_eq disjunctive_add_eq_or)
qed

lemma bit_u8_less: "bit (b :: u8) n \<Longrightarrow> n < 8"
  using bit_imp_le_length [of b n] by simp

text \<open>Two bytes are equal when their eight bits are; a small byte has no high bits.\<close>

lemma u8_eqI:
  assumes "bit a 0 = bit b 0" "bit a 1 = bit b 1" "bit a 2 = bit b 2" "bit a 3 = bit b 3"
    "bit a 4 = bit b 4" "bit a 5 = bit b 5" "bit a 6 = bit b 6" "bit a 7 = bit b 7"
  shows "a = (b :: u8)"
proof (rule bit_word_eqI)
  fix n assume "n < LENGTH(8)"
  then have "n \<in> {0, 1, 2, 3, 4, 5, 6, 7}" by auto
  then show "bit a n = bit b n" using assms by auto
qed

lemma word_small_take_bit:
  assumes "unat (x :: 'a::len word) < 2 ^ n"
  shows "take_bit n x = x"
proof -
  have "unat (take_bit n x) = unat x"
    using assms by (simp add: unsigned_take_bit_eq take_bit_nat_eq_self)
  then show ?thesis by (simp only: unsigned_word_eqI)
qed

lemma word_high_bit:
  assumes "unat (x :: 'a::len word) < 2 ^ k" and "k \<le> n"
  shows "\<not> bit x n"
  using word_small_take_bit [OF assms(1)] assms(2) by (metis bit_take_bit_iff not_le)

subsection \<open>Latencies\<close>

text \<open>How many measurements of a NAL unit type there are, and their sum.\<close>

definition total_of :: "u8 \<Rightarrow> (nat \<times> u8) list \<Rightarrow> nat \<times> nat" where
  "total_of ty ms = (length (filter (\<lambda>m. snd m = ty) ms), sum_list (map fst (filter (\<lambda>m. snd m = ty) ms)))"

lemma total_of_simps:
  "total_of ty [] = (0, 0)"
  "total_of ty (ms @ [(d, k)]) = (if k = ty then (fst (total_of ty ms) + 1, snd (total_of ty ms) + d) else total_of ty ms)"
  by (simp_all add: total_of_def)

end
