(* ===== verification/Bytes.thy ===== *)
theory Bytes
  imports Prelude
begin

section \<open>Byte order: size fields of the V3C sample stream\<close>

text \<open>
  \<open>combineBytes\<close> (three overloads) and \<open>convert_size_big_endian\<close> of
  \<open>uvgrtp/v3c_util.cc\<close>. The interface \<open>size_codec\<close> says what the rest of the
  development needs of a size field: a fixed width, and that a size written big-endian is
  read back. It is interpreted on the code's definitions for the three widths the
  code accepts.
\<close>

subsection \<open>The code\<close>

definition combineBytes4 :: "u8 \<Rightarrow> u8 \<Rightarrow> u8 \<Rightarrow> u8 \<Rightarrow> u32" where
  "combineBytes4 byte1 byte2 byte3 byte4 =
     push_bit 24 (ucast byte1) OR push_bit 16 (ucast byte2) OR
     push_bit 8 (ucast byte3) OR ucast byte4"

definition combineBytes3 :: "u8 \<Rightarrow> u8 \<Rightarrow> u8 \<Rightarrow> u32" where
  "combineBytes3 byte1 byte2 byte3 =
     push_bit 16 (ucast byte1) OR push_bit 8 (ucast byte2) OR ucast byte3"

definition combineBytes2 :: "u8 \<Rightarrow> u8 \<Rightarrow> u32" where
  "combineBytes2 byte1 byte2 = push_bit 8 (ucast byte1) OR ucast byte2"

text \<open>
  The loop \<open>for (i = 0; i < output_size; ++i) out[output_size - i - 1] = in >> (8 * i)\<close>.
  Shifting a 32-bit value by 32 or more is undefined, so a field wider than four bytes
  is a fault.
\<close>

function convert_size_loop :: "u32 \<Rightarrow> u8 list \<Rightarrow> nat \<Rightarrow> nat \<Rightarrow> u8 list res" where
  "convert_size_loop inp out output_size i =
     (if i < output_size then
        if 32 \<le> 8 * i then Inl Bad_Shift
        else rbind (wr_bytes out (output_size - i - 1) [ucast (drop_bit (8 * i) inp)])
               (\<lambda>out'. convert_size_loop inp out' output_size (i + 1))
      else Inr out)"
  by pat_completeness auto
termination
  by (relation "measure (\<lambda>(inp, out, n, i). n - i)") auto

declare convert_size_loop.simps [simp del]

definition convert_size_big_endian :: "u32 \<Rightarrow> u8 list \<Rightarrow> nat \<Rightarrow> u8 list res" where
  "convert_size_big_endian inp out output_size = convert_size_loop inp out output_size 0"

subsection \<open>Big-endian byte strings\<close>

text \<open>The specification: the \<open>n\<close> low bytes of a word, the most significant first.\<close>

definition be_bytes :: "nat \<Rightarrow> u32 \<Rightarrow> u8 list" where
  "be_bytes n x = map (\<lambda>k. ucast (drop_bit (8 * k) x)) (rev [0..<n])"

lemma length_be_bytes [simp]: "length (be_bytes n x) = n"
  by (simp add: be_bytes_def)

lemma be_bytes_Suc: "be_bytes (Suc n) x = ucast (drop_bit (8 * n) x) # be_bytes n x"
  by (simp add: be_bytes_def)

lemma be_bytes_simps [simp]:
  "be_bytes 0 x = []"
  "be_bytes (Suc 0) x = [ucast x]"
  "be_bytes 2 x = [ucast (drop_bit 8 x), ucast x]"
  "be_bytes 3 x = [ucast (drop_bit 16 x), ucast (drop_bit 8 x), ucast x]"
  "be_bytes 4 x = [ucast (drop_bit 24 x), ucast (drop_bit 16 x), ucast (drop_bit 8 x), ucast x]"
  by (simp_all add: be_bytes_def numeral_eq_Suc upt_rec)

text \<open>After \<open>i\<close> rounds the last \<open>i\<close> bytes of the output are written.\<close>

lemma convert_size_loop_eq:
  assumes "i \<le> n" and "n \<le> 4" and "length pre = n - i"
  shows "convert_size_loop x (pre @ be_bytes i x) n i = Inr (be_bytes n x)"
  using assms
proof (induction "n - i" arbitrary: i pre)
  case 0
  then show ?case by (simp add: convert_size_loop.simps)
next
  case (Suc d)
  then obtain pre' b where pre: "pre = pre' @ [b]"
    by (cases pre rule: rev_cases) auto
  have len: "length pre' = n - i - 1" using Suc.prems pre by simp
  have "wr_bytes (pre' @ [b] @ be_bytes i x) (n - i - 1) [ucast (drop_bit (8 * i) x)]
      = Inr (pre' @ [ucast (drop_bit (8 * i) x)] @ be_bytes i x)"
    by (rule wr_bytes_append) (simp_all add: len)
  then have wr: "wr_bytes (pre @ be_bytes i x) (n - i - 1) [ucast (drop_bit (8 * i) x)]
      = Inr (pre' @ be_bytes (Suc i) x)"
    by (simp add: pre be_bytes_Suc)
  have "convert_size_loop x (pre' @ be_bytes (Suc i) x) n (Suc i) = Inr (be_bytes n x)"
    using Suc.hyps Suc.prems len by (intro Suc.hyps(1)) auto
  moreover have "i < n" "\<not> 32 \<le> 8 * i" using Suc.hyps Suc.prems by auto
  ultimately show ?case
    using wr by (subst convert_size_loop.simps) simp
qed

lemma convert_size_big_endian_eq:
  "n \<le> 4 \<Longrightarrow> length out = n \<Longrightarrow> convert_size_big_endian x out n = Inr (be_bytes n x)"
  using convert_size_loop_eq [of 0 n out x] by (simp add: convert_size_big_endian_def)

subsection \<open>Reading back what was written\<close>

lemma combineBytes2_be: "combineBytes2 (ucast (drop_bit 8 x)) (ucast x) = take_bit 16 x"
  by (rule bit_word_eqI) (auto simp: combineBytes2_def bit_simps)

lemma combineBytes3_be:
  "combineBytes3 (ucast (drop_bit 16 x)) (ucast (drop_bit 8 x)) (ucast x) = take_bit 24 x"
proof (rule bit_word_eqI)
  fix n assume "n < LENGTH(32)"
  then consider "n < 8" | "8 \<le> n" "n < 16" | "16 \<le> n" "n < 32" by fastforce
  then show "bit (combineBytes3 (ucast (drop_bit 16 x)) (ucast (drop_bit 8 x)) (ucast x)) n
      = bit (take_bit 24 x) n"
    by cases (auto simp: combineBytes3_def bit_simps)
qed

lemma combineBytes4_be:
  "combineBytes4 (ucast (drop_bit 24 x)) (ucast (drop_bit 16 x)) (ucast (drop_bit 8 x)) (ucast x) = x"
proof (rule bit_word_eqI)
  fix n assume "n < LENGTH(32)"
  then consider "n < 8" | "8 \<le> n" "n < 16" | "16 \<le> n" "n < 24" | "24 \<le> n" "n < 32"
    by fastforce
  then show "bit (combineBytes4 (ucast (drop_bit 24 x)) (ucast (drop_bit 16 x))
      (ucast (drop_bit 8 x)) (ucast x)) n = bit x n"
    by cases (auto simp: combineBytes4_def bit_simps)
qed

text \<open>The value of a size field as a number.\<close>

lemma unat_ucast_u8: "unat (ucast (b :: u8) :: u32) = unat b"
  by (simp add: unsigned_ucast_eq take_bit_nat_eq_self less_trans [OF unat_u8_less])

lemma unat_push_ucast:
  assumes "n \<le> 24"
  shows "unat (push_bit n (ucast (b :: u8)) :: u32) = unat b * 2 ^ n"
proof -
  have "unat b * 2 ^ n < 2 ^ 8 * 2 ^ n" by simp
  also have "\<dots> \<le> (2 :: nat) ^ 32"
    using power_increasing [of "8 + n" 32 "2 :: nat"] assms by (simp add: power_add)
  finally show ?thesis
    unfolding unsigned_push_bit_eq unat_ucast_u8
    by (simp add: push_bit_eq_mult take_bit_nat_eq_self)
qed

lemma combineBytes_disjoint:
  "push_bit 8 (ucast (a :: u8)) AND ucast (d :: u8) = (0 :: u32)"
  "push_bit 16 (ucast a) AND (push_bit 8 (ucast b) OR ucast d) = (0 :: u32)"
  "push_bit 24 (ucast a) AND (push_bit 16 (ucast b) OR push_bit 8 (ucast c) OR ucast d) = (0 :: u32)"
  for b c :: u8
  by (auto simp: bit_simps intro!: bit_word_eqI dest!: bit_u8_less)

lemmas combineBytes_unat = unat_or_disjoint combineBytes_disjoint unat_push_ucast unat_ucast_u8

lemma combineBytes2_value: "unat (combineBytes2 a b) = unat a * 256 + unat b"
  by (simp add: combineBytes2_def combineBytes_unat)

lemma combineBytes3_value:
  "unat (combineBytes3 a b c) = unat a * 65536 + unat b * 256 + unat c"
  by (simp add: combineBytes3_def combineBytes_unat or.assoc)

lemma combineBytes4_value:
  "unat (combineBytes4 a b c d) = unat a * 16777216 + unat b * 65536 + unat c * 256 + unat d"
  by (simp add: combineBytes4_def combineBytes_unat or.assoc)

subsection \<open>The interface: a size field of fixed width\<close>

text \<open>
  A reader yields \<open>None\<close> where the code gives up with an error value. \<open>rd_fits\<close> is what
  makes a reader safe: it never returns a size taken from outside the buffer.
\<close>

locale size_codec =
  fixes w :: nat
    and enc :: "u32 \<Rightarrow> u8 list"
    and rd :: "u8 list \<Rightarrow> nat \<Rightarrow> u32 option res"
  assumes w_pos: "0 < w"
    and enc_length: "length (enc x) = w"
    and rd_enc: "unat x < 256 ^ w \<Longrightarrow> rd (pre @ enc x @ post) (length pre) = Inr (Some x)"
    and rd_fits: "rd buf p = Inr (Some x) \<Longrightarrow> p + w \<le> length buf"

text \<open>
  A size-prefixed stream: every payload behind its size, and where a reader that starts
  at offset \<open>p\<close> finds the payloads.
\<close>

definition frames :: "(u32 \<Rightarrow> u8 list) \<Rightarrow> u8 list list \<Rightarrow> u8 list" where
  "frames enc ps = concat (map (\<lambda>x. enc (word_of_nat (length x)) @ x) ps)"

fun spans :: "nat \<Rightarrow> nat \<Rightarrow> u8 list list \<Rightarrow> (nat \<times> nat) list" where
  "spans w p [] = []"
| "spans w p (x # xs) = (p + w, length x) # spans w (p + w + length x) xs"

text \<open>
  Spans that lie one behind the other from \<open>p\<close> to \<open>q\<close>, each behind a size field of \<open>w\<close>
  bytes: what a sound walk of any input produces.
\<close>

fun tiled :: "nat \<Rightarrow> nat \<Rightarrow> nat \<Rightarrow> (nat \<times> nat) list \<Rightarrow> bool" where
  "tiled w p q [] = (p = q)"
| "tiled w p q ((l, n) # xs) = (l = p + w \<and> tiled w (l + n) q xs)"

lemma frames_simps [simp]:
  "frames enc [] = []"
  "frames enc (x # xs) = enc (word_of_nat (length x)) @ x @ frames enc xs"
  by (simp_all add: frames_def)

lemma tiled_append: "tiled w p r (xs @ ys) \<longleftrightarrow> (\<exists>q. tiled w p q xs \<and> tiled w q r ys)"
  by (induction w p r xs rule: tiled.induct) auto

lemma tiled_end: "tiled w p q xs \<Longrightarrow> q = p + (\<Sum>(l, n) \<leftarrow> xs. w + n)"
  by (induction w p q xs rule: tiled.induct) auto

lemma tiled_spans: "tiled w p (p + length xs * w + length (concat xs)) (spans w p xs)"
proof (induction w p xs rule: spans.induct)
  case (2 w p x xs)
  then show ?case by (simp add: algebra_simps)
qed simp

lemma length_spans [simp]: "length (spans w p xs) = length xs"
  by (induction w p xs rule: spans.induct) auto

lemma spans_nth: "i < length xs \<Longrightarrow> snd (spans w p xs ! i) = length (xs ! i)"
  by (induction w p xs arbitrary: i rule: spans.induct) (auto simp: nth_Cons split: nat.splits)

text \<open>Each span of an encoded stream holds its payload.\<close>

lemma spans_content:
  assumes "\<And>x. length (enc x) = w" and "i < length xs"
  shows "(case spans w (length pre) xs ! i of
            (l, n) \<Rightarrow> take n (drop l (pre @ frames enc xs @ post)) = xs ! i)"
  using assms(2)
proof (induction xs arbitrary: pre i)
  case (Cons x xs)
  show ?case
  proof (cases i)
    case 0
    then show ?thesis by (simp add: assms(1))
  next
    case (Suc j)
    have "(case spans w (length (pre @ enc (word_of_nat (length x)) @ x)) xs ! j of
            (l, n) \<Rightarrow> take n (drop l ((pre @ enc (word_of_nat (length x)) @ x) @ frames enc xs @ post)) = xs ! j)"
      using Suc Cons.prems by (intro Cons.IH) simp
    then show ?thesis by (simp add: Suc assms(1) add.assoc)
  qed
qed simp

text \<open>
  The walk over such a stream: a loop that reads a size, records the span and jumps over
  the payload until it reaches the end offset. \<open>walk_unfold\<close> is the loop equation its
  provider promises; \<open>item\<close> is what the provider stores for a span.
\<close>

locale size_prefixed = size_codec +
  fixes item :: "nat \<Rightarrow> nat \<Rightarrow> 'i"
    and walk :: "u8 list \<Rightarrow> nat \<Rightarrow> nat \<Rightarrow> 'i list \<Rightarrow> 'i list option res"
  assumes walk_unfold:
    "walk buf p e acc =
       (if e \<le> p then Inr (Some acc)
        else rbind (rd buf p) (\<lambda>r. case r of None \<Rightarrow> Inr None
               | Some n \<Rightarrow> walk buf (p + w + unat n) e (acc @ [item (p + w) (unat n)])))"
begin

lemma walk_done: "e \<le> p \<Longrightarrow> walk buf p e acc = Inr (Some acc)"
  by (subst walk_unfold) simp

lemma walk_step:
  "p < e \<Longrightarrow> rd buf p = Inr (Some n) \<Longrightarrow>
   walk buf p e acc = walk buf (p + w + unat n) e (acc @ [item (p + w) (unat n)])"
  by (subst walk_unfold) simp

text \<open>Completeness: an encoded stream is walked span by span.\<close>

lemma walk_frames:
  assumes "\<forall>x \<in> set xs. length x < 256 ^ w \<and> length x < 2 ^ 32"
    and "e = length pre + length (frames enc xs)"
  shows "walk (pre @ frames enc xs @ post) (length pre) e acc
       = Inr (Some (acc @ map (\<lambda>(l, n). item l n) (spans w (length pre) xs)))"
  using assms
proof (induction xs arbitrary: pre acc)
  case Nil
  then show ?case by (simp add: walk_done)
next
  case (Cons x xs)
  let ?sz = "word_of_nat (length x) :: u32"
  have sz: "unat ?sz = length x"
    using Cons.prems(1) by (simp add: unat_of_nat take_bit_nat_eq_self unsigned_of_nat)
  have rd: "rd (pre @ enc ?sz @ x @ frames enc xs @ post) (length pre) = Inr (Some ?sz)"
    using rd_enc [of ?sz pre "x @ frames enc xs @ post"] Cons.prems(1) by (simp add: sz)
  have "length pre < e"
    using w_pos by (simp add: Cons.prems(2) enc_length)
  moreover have "walk ((pre @ enc ?sz @ x) @ frames enc xs @ post) (length (pre @ enc ?sz @ x)) e
        (acc @ [item (length pre + w) (length x)])
      = Inr (Some ((acc @ [item (length pre + w) (length x)])
          @ map (\<lambda>(l, n). item l n) (spans w (length (pre @ enc ?sz @ x)) xs)))"
    using Cons.prems by (intro Cons.IH) (simp_all add: enc_length)
  ultimately show ?case
    using rd by (simp add: walk_step sz enc_length add.assoc)
qed

text \<open>
  Soundness on any input: a walk that succeeds has found spans that tile the stream from
  its start to an end at or behind \<open>e\<close>, and every size field was inside the buffer.
\<close>

lemma walk_tiled:
  assumes "walk buf p e acc = Inr (Some r)"
  shows "\<exists>xs q. r = acc @ map (\<lambda>(l, n). item l n) xs \<and> tiled w p q xs \<and> e \<le> max p q
      \<and> (\<forall>(l, n) \<in> set xs. l \<le> length buf \<and> n < 2 ^ 32)"
  using assms
proof (induction "e - p" arbitrary: p acc rule: less_induct)
  case less
  show ?case
  proof (cases "e \<le> p")
    case True
    with less.prems have "r = acc" by (simp add: walk_done)
    with True show ?thesis by (intro exI [of _ "[]"]) auto
  next
    case False
    with less.prems obtain n where rd: "rd buf p = Inr (Some n)"
      and rest: "walk buf (p + w + unat n) e (acc @ [item (p + w) (unat n)]) = Inr (Some r)"
      by (subst (asm) walk_unfold) (auto simp: rbind_eq_Inr split: option.splits)
    have "e - (p + w + unat n) < e - p" using False w_pos by auto
    from less.hyps [OF this rest] obtain xs q where
      "r = (acc @ [item (p + w) (unat n)]) @ map (\<lambda>(l, n). item l n) xs"
      "tiled w (p + w + unat n) q xs" "e \<le> max (p + w + unat n) q"
      "\<forall>(l, n) \<in> set xs. l \<le> length buf \<and> n < 2 ^ 32"
      by blast
    moreover have "p + w + unat n \<le> q"
      using tiled_end [OF calculation(2)] by simp
    ultimately show ?thesis
      using rd_fits [OF rd] unat_u32_less [of n]
      by (intro exI [of _ "(p + w, unat n) # xs"] exI [of _ q]) auto
  qed
qed

end

subsection \<open>Numbers in memory, little-endian\<close>

text \<open>The bytes of an unsigned integer on the (little-endian) machines the benchmark runs on.\<close>

fun le_bytes :: "nat \<Rightarrow> nat \<Rightarrow> u8 list" where
  "le_bytes 0 x = []"
| "le_bytes (Suc n) x = word_of_nat x # le_bytes n (x div 256)"

fun of_le :: "u8 list \<Rightarrow> nat" where
  "of_le [] = 0"
| "of_le (b # bs) = unat b + 256 * of_le bs"

lemma length_le_bytes [simp]: "length (le_bytes n x) = n"
  by (induction n x rule: le_bytes.induct) auto

lemma of_le_bytes: "of_le (le_bytes n x) = x mod 256 ^ n"
proof (induction n x rule: le_bytes.induct)
  case (2 n x)
  have "unat (word_of_nat x :: u8) = x mod 256"
    by (simp add: unsigned_of_nat take_bit_eq_mod)
  then show ?case using 2 by (simp add: mod_mult2_eq)
qed simp

lemma of_le_u64: "of_le (le_bytes 8 (unat (x :: u64))) = unat x"
  using unsigned_less [of x, where 'a = nat] by (simp add: of_le_bytes)

lemma of_le_less: "of_le bs < 256 ^ length bs"
proof (induction bs)
  case (Cons b bs)
  have "256 * (of_le bs + 1) \<le> 256 * 256 ^ length bs"
    using Cons by (intro mult_le_mono) simp_all
  then show ?case using unat_u8_less [of b] by (simp del: unat_u8_less)
qed simp

end
