(* ===== verification/V3C_Types.thy ===== *)
theory V3C_Types
  imports Bytes
begin

section \<open>V3C: the data of \<open>uvgrtp/v3c_util.hh\<close>\<close>

text \<open>
  The enum, the structs and the tagged union of the header file, field by field.
  \<open>V3C_UNIT_TYPE\<close> is an enum; a unit header stores its code in a byte, which
  may also hold a code with no enumerator.
\<close>

datatype V3C_UNIT_TYPE = V3C_VPS | V3C_AD | V3C_OVD | V3C_GVD | V3C_AVD | V3C_PVD | V3C_CAD

fun unit_code :: "V3C_UNIT_TYPE \<Rightarrow> u8" where
  "unit_code V3C_VPS = 0"
| "unit_code V3C_AD = 1"
| "unit_code V3C_OVD = 2"
| "unit_code V3C_GVD = 3"
| "unit_code V3C_AVD = 4"
| "unit_code V3C_PVD = 5"
| "unit_code V3C_CAD = 6"

lemma unit_code_inj [simp]: "unit_code a = unit_code b \<longleftrightarrow> a = b"
  by (cases a; cases b) simp_all

lemma unit_code_less: "unat (unit_code t) < 7"
  by (cases t) simp_all

text \<open>Enumerators compare as their codes do.\<close>

instantiation V3C_UNIT_TYPE :: linorder
begin

definition less_eq_V3C_UNIT_TYPE :: "V3C_UNIT_TYPE \<Rightarrow> V3C_UNIT_TYPE \<Rightarrow> bool" where
  "less_eq_V3C_UNIT_TYPE a b \<longleftrightarrow> unit_code a \<le> unit_code b"

definition less_V3C_UNIT_TYPE :: "V3C_UNIT_TYPE \<Rightarrow> V3C_UNIT_TYPE \<Rightarrow> bool" where
  "less_V3C_UNIT_TYPE a b \<longleftrightarrow> unit_code a < unit_code b"

instance
proof
  fix a b c :: V3C_UNIT_TYPE
  show "a < b \<longleftrightarrow> a \<le> b \<and> \<not> b \<le> a" "a \<le> a" "a \<le> b \<or> b \<le> a"
    by (auto simp: less_eq_V3C_UNIT_TYPE_def less_V3C_UNIT_TYPE_def order.strict_iff_order)
  show "a \<le> b \<Longrightarrow> b \<le> c \<Longrightarrow> a \<le> c"
    by (auto simp: less_eq_V3C_UNIT_TYPE_def)
  show "a \<le> b \<Longrightarrow> b \<le> a \<Longrightarrow> a = b"
    by (auto simp: less_eq_V3C_UNIT_TYPE_def dest: antisym)
qed

end

subsection \<open>Constants\<close>

definition V3C_HDR_LEN :: nat where "V3C_HDR_LEN = 4"

definition ATLAS_NAL_SIZE_PRECISION :: nat where "ATLAS_NAL_SIZE_PRECISION = 2"

definition VIDEO_NAL_SIZE_PRECISION :: nat where "VIDEO_NAL_SIZE_PRECISION = 4"

definition V3C_SIZE_PRECISION :: nat where "V3C_SIZE_PRECISION = 3"

lemmas v3c_constants = V3C_HDR_LEN_def ATLAS_NAL_SIZE_PRECISION_def
  VIDEO_NAL_SIZE_PRECISION_def V3C_SIZE_PRECISION_def

subsection \<open>Unit headers\<close>

record vuh_ad =
  ad_vuh_v3c_parameter_set_id :: u8
  ad_vuh_atlas_id :: u8

record vuh_ovd =
  ovd_vuh_v3c_parameter_set_id :: u8
  ovd_vuh_atlas_id :: u8

record vuh_gvd =
  gvd_vuh_v3c_parameter_set_id :: u8
  gvd_vuh_atlas_id :: u8
  gvd_vuh_map_index :: u8
  gvd_vuh_auxiliary_video_flag :: bool

record vuh_avd =
  avd_vuh_v3c_parameter_set_id :: u8
  avd_vuh_atlas_id :: u8
  avd_vuh_attribute_index :: u8
  avd_vuh_attribute_partition_index :: u8
  avd_vuh_map_index :: u8
  avd_vuh_auxiliary_video_flag :: bool

record vuh_pvd =
  pvd_vuh_v3c_parameter_set_id :: u8
  pvd_vuh_atlas_id :: u8

record vuh_cad =
  cad_vuh_v3c_parameter_set_id :: u8

text \<open>The anonymous union of \<open>v3c_unit_header\<close>, with the member that is active.\<close>

datatype vuh_union =
    Ad vuh_ad
  | Ovd vuh_ovd
  | Gvd vuh_gvd
  | Avd vuh_avd
  | Pvd vuh_pvd
  | Cad vuh_cad

record v3c_unit_header =
  vuh_unit_type :: u8
  vuh :: vuh_union

text \<open>
  The code reads some fields through a member that is not the active one
  (\<open>header.ad.vuh_v3c_parameter_set_id\<close> whatever the unit type). C++ allows it for the
  initial fields the two structs share: the parameter set id is shared by all six, the
  atlas id by all but \<open>vuh_cad\<close>, and the third byte of \<open>vuh_gvd\<close> with that of
  \<open>vuh_avd\<close>. Any other such read is a fault.
\<close>

fun union_parameter_set_id :: "vuh_union \<Rightarrow> u8" where
  "union_parameter_set_id (Ad h) = ad_vuh_v3c_parameter_set_id h"
| "union_parameter_set_id (Ovd h) = ovd_vuh_v3c_parameter_set_id h"
| "union_parameter_set_id (Gvd h) = gvd_vuh_v3c_parameter_set_id h"
| "union_parameter_set_id (Avd h) = avd_vuh_v3c_parameter_set_id h"
| "union_parameter_set_id (Pvd h) = pvd_vuh_v3c_parameter_set_id h"
| "union_parameter_set_id (Cad h) = cad_vuh_v3c_parameter_set_id h"

fun union_atlas_id :: "vuh_union \<Rightarrow> u8 res" where
  "union_atlas_id (Ad h) = Inr (ad_vuh_atlas_id h)"
| "union_atlas_id (Ovd h) = Inr (ovd_vuh_atlas_id h)"
| "union_atlas_id (Gvd h) = Inr (gvd_vuh_atlas_id h)"
| "union_atlas_id (Avd h) = Inr (avd_vuh_atlas_id h)"
| "union_atlas_id (Pvd h) = Inr (pvd_vuh_atlas_id h)"
| "union_atlas_id (Cad h) = Inl Inactive_Member"

fun union_gvd_map_index :: "vuh_union \<Rightarrow> u8 res" where
  "union_gvd_map_index (Gvd h) = Inr (gvd_vuh_map_index h)"
| "union_gvd_map_index (Avd h) = Inr (avd_vuh_attribute_index h)"
| "union_gvd_map_index _ = Inl Inactive_Member"

fun union_gvd_aux_flag :: "vuh_union \<Rightarrow> bool res" where
  "union_gvd_aux_flag (Gvd h) = Inr (gvd_vuh_auxiliary_video_flag h)"
| "union_gvd_aux_flag _ = Inl Inactive_Member"

fun union_avd :: "vuh_union \<Rightarrow> vuh_avd res" where
  "union_avd (Avd h) = Inr h"
| "union_avd _ = Inl Inactive_Member"

text \<open>\<open>v3c_unit_header hdr = {}\<close>: type 0 and the first member, zeroed.\<close>

definition empty_header :: v3c_unit_header where
  "empty_header = \<lparr>vuh_unit_type = 0,
     vuh = Ad \<lparr>ad_vuh_v3c_parameter_set_id = 0, ad_vuh_atlas_id = 0\<rparr>\<rparr>"

subsection \<open>NAL units, V3C units, the file map\<close>

text \<open>A pointer to a heap buffer; \<open>nullptr\<close> is 0.\<close>

type_synonym pointer = nat

abbreviation (input) nullptr :: pointer where "nullptr \<equiv> 0"

record nal_info =
  nal_location :: nat
  nal_size :: nat
  nal_buf :: pointer

record v3c_unit_info =
  ui_header :: v3c_unit_header
  ui_nal_infos :: "nal_info list"
  ui_ptr :: nat
  ui_ready :: bool

record v3c_file_map =
  vps_units :: "v3c_unit_info list"
  ad_units :: "v3c_unit_info list"
  ovd_units :: "v3c_unit_info list"
  gvd_units :: "v3c_unit_info list"
  avd_units :: "v3c_unit_info list"
  pvd_units :: "v3c_unit_info list"
  cad_units :: "v3c_unit_info list"

definition empty_map :: v3c_file_map where
  "empty_map = \<lparr>vps_units = [], ad_units = [], ovd_units = [], gvd_units = [],
     avd_units = [], pvd_units = [], cad_units = []\<rparr>"

text \<open>\<open>v3c_unit_info unit = { hdr, {} }\<close> and \<open>{ hdr, {}, 0, false }\<close>.\<close>

definition new_unit :: "v3c_unit_header \<Rightarrow> v3c_unit_info" where
  "new_unit hdr = \<lparr>ui_header = hdr, ui_nal_infos = [], ui_ptr = 0, ui_ready = False\<rparr>"

end
