(* ===== verification/Hooks.thy ===== *)
theory Hooks
  imports Prelude
begin

section \<open>Receive hooks\<close>

text \<open>
  The interface of a callback that a media library calls once per received frame. A hook
  updates the state of the program; its contract is an invariant it keeps and an abstract
  view of the state (what has been received, how much of it, when) that it updates by
  \<open>upd\<close>. What holds after one frame then holds after any run of frames.
\<close>

primrec run_hook :: "('f \<Rightarrow> 's \<Rightarrow> 's res) \<Rightarrow> 'f list \<Rightarrow> 's \<Rightarrow> 's res" where
  "run_hook hook [] s = Inr s"
| "run_hook hook (f # fs) s = rbind (hook f s) (run_hook hook fs)"

lemma run_hook_append:
  "run_hook hook (fs @ gs) s = rbind (run_hook hook fs s) (run_hook hook gs)"
  by (induction fs arbitrary: s) (auto simp: rbind_def split: sum.splits)

locale frame_hook =
  fixes hook :: "'f \<Rightarrow> 's \<Rightarrow> 's res"
    and inv :: "'s \<Rightarrow> bool"
    and ok :: "'f \<Rightarrow> bool"
    and view :: "'s \<Rightarrow> 'a"
    and upd :: "'f \<Rightarrow> 'a \<Rightarrow> 'a"
  assumes hook_step: "inv s \<Longrightarrow> ok f \<Longrightarrow> \<exists>s'. hook f s = Inr s' \<and> inv s' \<and> view s' = upd f (view s)"
begin

lemma run_ok:
  assumes "inv s" and "\<forall>f \<in> set fs. ok f"
  shows "\<exists>s'. run_hook hook fs s = Inr s' \<and> inv s' \<and> view s' = fold upd fs (view s)"
  using assms
proof (induction fs arbitrary: s)
  case Nil
  then show ?case by simp
next
  case (Cons f fs)
  obtain s1 where s1: "hook f s = Inr s1" "inv s1" "view s1 = upd f (view s)"
    using hook_step [OF Cons.prems(1), of f] Cons.prems(2) by auto
  obtain s' where "run_hook hook fs s1 = Inr s'" "inv s'" "view s' = fold upd fs (view s1)"
    using Cons.IH [OF s1(2)] Cons.prems(2) by auto
  then show ?case using s1 by auto
qed

lemma run_inv: "inv s \<Longrightarrow> \<forall>f \<in> set fs. ok f \<Longrightarrow> run_hook hook fs s = Inr s' \<Longrightarrow> inv s'"
  using run_ok by fastforce

lemma run_view:
  "inv s \<Longrightarrow> \<forall>f \<in> set fs. ok f \<Longrightarrow> run_hook hook fs s = Inr s' \<Longrightarrow> view s' = fold upd fs (view s)"
  using run_ok by fastforce

lemma run_total: "inv s \<Longrightarrow> \<forall>f \<in> set fs. ok f \<Longrightarrow> \<exists>s'. run_hook hook fs s = Inr s'"
  using run_ok by blast

end

end
