(* ===== verification/V3C_Receive.thy ===== *)
theory V3C_Receive
  imports V3C_Types Hooks
begin

section \<open>Collecting received NAL units into V3C units\<close>

text \<open>
  \<open>init_mmap\<close>, \<open>copy_rtp_payload\<close>, \<open>is_gop_ready\<close> and \<open>get_gop_size\<close> of
  \<open>uvgrtp/v3c_util.cc\<close>: the receiving end copies each RTP payload into a heap buffer and
  appends it to the last unit of its stream, opening a new unit when the last one is full.

  The heap maps the address of a live buffer to its bytes. The specification of a stream
  is the list of the payloads received so far, in order; \<open>payloads\<close> is the abstraction
  function.
\<close>

subsection \<open>The heap\<close>

record heap =
  h_next :: pointer
  h_cells :: "pointer \<rightharpoonup> u8 list"

definition heap_empty :: heap where
  "heap_empty = \<lparr>h_next = 1, h_cells = Map.empty\<rparr>"

definition heap_ok :: "heap \<Rightarrow> bool" where
  "heap_ok h \<longleftrightarrow> 0 < h_next h \<and> (\<forall>p \<in> dom (h_cells h). 0 < p \<and> p < h_next h)"

definition heap_alloc :: "u8 list \<Rightarrow> heap \<Rightarrow> pointer \<times> heap" where
  "heap_alloc bytes h =
     (h_next h, \<lparr>h_next = h_next h + 1, h_cells = (h_cells h)(h_next h \<mapsto> bytes)\<rparr>)"

text \<open>Reading \<open>n\<close> bytes from a pointer; \<open>delete[]\<close>, which ignores \<open>nullptr\<close>.\<close>

definition heap_load :: "heap \<Rightarrow> pointer \<Rightarrow> nat \<Rightarrow> u8 list res" where
  "heap_load h p n = rbind (of_option Bad_Pointer (h_cells h p)) (\<lambda>bytes. rd_bytes bytes 0 n)"

definition heap_free :: "pointer \<Rightarrow> heap \<Rightarrow> heap res" where
  "heap_free p h =
     (if p = nullptr then Inr h
      else rbind (of_option Bad_Pointer (h_cells h p)) (\<lambda>_. Inr (h\<lparr>h_cells := (h_cells h)(p := None)\<rparr>)))"

lemma heap_ok_empty [simp]: "heap_ok heap_empty"
  by (simp add: heap_ok_def heap_empty_def)

lemma heap_ok_alloc: "heap_ok h \<Longrightarrow> heap_alloc bytes h = (p, h') \<Longrightarrow> heap_ok h'"
  by (auto simp: heap_ok_def heap_alloc_def less_Suc_eq)

lemma heap_ok_fresh: "heap_ok h \<Longrightarrow> h_cells h (h_next h) = None"
  by (fastforce simp: heap_ok_def)

subsection \<open>The code\<close>

definition init_mmap :: v3c_file_map where
  "init_mmap =
     (let zero_ad = \<lparr>ad_vuh_v3c_parameter_set_id = 0, ad_vuh_atlas_id = 0\<rparr>;
          mmap = empty_map;
          hdr = \<lparr>vuh_unit_type = unit_code V3C_AD, vuh = Ad zero_ad\<rparr>;
          mmap = mmap\<lparr>ad_units := ad_units mmap @ [new_unit hdr]\<rparr>;
          hdr = \<lparr>vuh_unit_type = unit_code V3C_OVD,
                 vuh = Ovd \<lparr>ovd_vuh_v3c_parameter_set_id = 0, ovd_vuh_atlas_id = 0\<rparr>\<rparr>;
          mmap = mmap\<lparr>ovd_units := ovd_units mmap @ [new_unit hdr]\<rparr>;
          hdr = \<lparr>vuh_unit_type = unit_code V3C_GVD,
                 vuh = Gvd \<lparr>gvd_vuh_v3c_parameter_set_id = 0, gvd_vuh_atlas_id = 0,
                            gvd_vuh_map_index = 0, gvd_vuh_auxiliary_video_flag = False\<rparr>\<rparr>;
          mmap = mmap\<lparr>gvd_units := gvd_units mmap @ [new_unit hdr]\<rparr>;
          hdr = \<lparr>vuh_unit_type = unit_code V3C_AVD,
                 vuh = Avd \<lparr>avd_vuh_v3c_parameter_set_id = 0, avd_vuh_atlas_id = 0,
                            avd_vuh_attribute_index = 0, avd_vuh_attribute_partition_index = 0,
                            avd_vuh_map_index = 0, avd_vuh_auxiliary_video_flag = False\<rparr>\<rparr>;
          mmap = mmap\<lparr>avd_units := avd_units mmap @ [new_unit hdr]\<rparr>
      in mmap)"

text \<open>
  The unit that \<open>copy_rtp_payload\<close> opens when the last one is full: the type of the last
  one, and the number of units, cut to a byte, as its parameter set id.
\<close>

definition next_unit :: "u8 \<Rightarrow> nat \<Rightarrow> v3c_unit_info" where
  "next_unit t n =
     (let hdr = empty_header\<lparr>vuh_unit_type := t\<rparr>; id = word_of_nat n in
      new_unit
       (if t = unit_code V3C_AD then
          hdr\<lparr>vuh := Ad \<lparr>ad_vuh_v3c_parameter_set_id = id, ad_vuh_atlas_id = 0\<rparr>\<rparr>
        else if t = unit_code V3C_OVD then
          hdr\<lparr>vuh := Ovd \<lparr>ovd_vuh_v3c_parameter_set_id = id, ovd_vuh_atlas_id = 0\<rparr>\<rparr>
        else if t = unit_code V3C_GVD then
          hdr\<lparr>vuh := Gvd \<lparr>gvd_vuh_v3c_parameter_set_id = id, gvd_vuh_atlas_id = 0,
                             gvd_vuh_map_index = 0, gvd_vuh_auxiliary_video_flag = False\<rparr>\<rparr>
        else if t = unit_code V3C_AVD then
          hdr\<lparr>vuh := Avd \<lparr>avd_vuh_v3c_parameter_set_id = id, avd_vuh_atlas_id = 0,
                             avd_vuh_attribute_index = 0, avd_vuh_attribute_partition_index = 0,
                             avd_vuh_map_index = 0, avd_vuh_auxiliary_video_flag = False\<rparr>\<rparr>
        else hdr))"

text \<open>The frame is its payload: \<open>payload_len\<close> is the length of the list.\<close>

definition copy_rtp_payload ::
  "nat \<Rightarrow> u8 list \<Rightarrow> v3c_unit_info list \<times> heap \<Rightarrow> (v3c_unit_info list \<times> heap) res" where
  "copy_rtp_payload max_size payload = (\<lambda>(units, h).
     rbind (vec_back units) (\<lambda>back.
       let units = (if length (ui_nal_infos back) = max_size
                    then units @ [next_unit (vuh_unit_type (ui_header back)) (length units)]
                    else units);
           back = last units;
           (back, h) =
             (if length (ui_nal_infos back) \<le> max_size then
                (let (cbuf, h) = heap_alloc payload h;
                     nalu = \<lparr>nal_location = ui_ptr back, nal_size = length payload, nal_buf = cbuf\<rparr>
                 in (back\<lparr>ui_nal_infos := ui_nal_infos back @ [nalu],
                          ui_ptr := ui_ptr back + length payload\<rparr>, h))
              else (back, h));
           back = (if length (ui_nal_infos back) = max_size then back\<lparr>ui_ready := True\<rparr> else back)
       in Inr (butlast units @ [back], h)))"

definition is_gop_ready :: "nat \<Rightarrow> v3c_file_map \<Rightarrow> bool" where
  "is_gop_ready index mmap \<longleftrightarrow>
     (if length (vps_units mmap) < index + 1 then False
      else if length (ad_units mmap) < index + 1 \<or> \<not> ui_ready (ad_units mmap ! index) then False
      else if length (ovd_units mmap) < index + 1 \<or> \<not> ui_ready (ovd_units mmap ! index) then False
      else if length (gvd_units mmap) < index + 1 \<or> \<not> ui_ready (gvd_units mmap ! index) then False
      else if length (avd_units mmap) < index + 1 \<or> \<not> ui_ready (avd_units mmap ! index) then False
      else True)"

definition get_gop_size :: "bool \<Rightarrow> nat \<Rightarrow> v3c_file_map \<Rightarrow> nat res" where
  "get_gop_size hdr_byte index mmap =
     (let gop_size = (if hdr_byte then 1 else 0) in
      rbind (vec_at (vps_units mmap) index) (\<lambda>vps.
      rbind (vec_at (ui_nal_infos vps) 0) (\<lambda>vps0.
      let vps_size = V3C_SIZE_PRECISION + nal_size vps0 in
      rbind (vec_at (ad_units mmap) index) (\<lambda>ad.
      let ad_size = V3C_SIZE_PRECISION + 4 + 1 + ui_ptr ad
                      + length (ui_nal_infos ad) * ATLAS_NAL_SIZE_PRECISION in
      rbind (vec_at (ovd_units mmap) index) (\<lambda>ovd.
      let ovd_size = V3C_SIZE_PRECISION + 4 + ui_ptr ovd
                      + length (ui_nal_infos ovd) * VIDEO_NAL_SIZE_PRECISION in
      rbind (vec_at (gvd_units mmap) index) (\<lambda>gvd.
      let gvd_size = V3C_SIZE_PRECISION + 4 + ui_ptr gvd
                      + length (ui_nal_infos gvd) * VIDEO_NAL_SIZE_PRECISION in
      rbind (vec_at (avd_units mmap) index) (\<lambda>avd.
      let avd_size = V3C_SIZE_PRECISION + 4 + ui_ptr avd
                      + length (ui_nal_infos avd) * VIDEO_NAL_SIZE_PRECISION in
      Inr (gop_size + (vps_size + ad_size + ovd_size + gvd_size + avd_size)))))))))"

subsection \<open>The invariant of a stream of units\<close>

text \<open>
  A unit holds the payloads \<open>ns\<close>: the entries lie one behind the other, each points to a
  live buffer with the payload, and \<open>ui_ptr\<close> is their total size.
\<close>

fun nals_hold :: "heap \<Rightarrow> nat \<Rightarrow> nal_info list \<Rightarrow> u8 list list \<Rightarrow> bool" where
  "nals_hold h l [] [] \<longleftrightarrow> True"
| "nals_hold h l (i # is) (x # xs) \<longleftrightarrow> nal_location i = l \<and> nal_size i = length x \<and>
     h_cells h (nal_buf i) = Some x \<and> nals_hold h (l + length x) is xs"
| "nals_hold h l _ _ \<longleftrightarrow> False"

definition unit_holds :: "heap \<Rightarrow> v3c_unit_info \<Rightarrow> u8 list list \<Rightarrow> bool" where
  "unit_holds h u ns \<longleftrightarrow> nals_hold h 0 (ui_nal_infos u) ns \<and> ui_ptr u = length (concat ns)"

definition unit_pointers :: "v3c_unit_info \<Rightarrow> pointer list" where
  "unit_pointers u = map nal_buf (ui_nal_infos u)"

definition stream_pointers :: "v3c_unit_info list \<Rightarrow> pointer list" where
  "stream_pointers units = concat (map unit_pointers units)"

text \<open>The payloads of a stream, read through the heap.\<close>

definition payloads :: "heap \<Rightarrow> v3c_unit_info list \<Rightarrow> u8 list list" where
  "payloads h units = map (\<lambda>p. the (h_cells h p)) (concat (map unit_pointers units))"

definition stream_ok :: "nat \<Rightarrow> u8 \<Rightarrow> heap \<Rightarrow> v3c_unit_info list \<Rightarrow> bool" where
  "stream_ok n t h units \<longleftrightarrow> units \<noteq> [] \<and> heap_ok h
     \<and> map ui_header units = map (\<lambda>i. ui_header (next_unit t i)) [0..<length units]
     \<and> (\<forall>u \<in> set units. (\<exists>ns. unit_holds h u ns)
          \<and> length (ui_nal_infos u) \<le> n \<and> (ui_ready u \<longleftrightarrow> length (ui_nal_infos u) = n))
     \<and> (\<forall>u \<in> set (butlast units). length (ui_nal_infos u) = n)
     \<and> distinct (concat (map unit_pointers units))"

lemma nals_hold_length: "nals_hold h l is xs \<Longrightarrow> length is = length xs"
  by (induction h l "is" xs rule: nals_hold.induct) auto

lemma nals_hold_append:
  "nals_hold h l is xs \<Longrightarrow> nals_hold h l (is @ js) (xs @ ys) \<longleftrightarrow> nals_hold h (l + length (concat xs)) js ys"
  by (induction h l "is" xs rule: nals_hold.induct) (auto simp: add.assoc)

lemma nals_hold_cells:
  "nals_hold h l is xs \<Longrightarrow> map (\<lambda>i. h_cells h (nal_buf i)) is = map Some xs"
  by (induction h l "is" xs rule: nals_hold.induct) auto

lemma nals_hold_mono:
  assumes "nals_hold h l is xs" and "\<And>i. i \<in> set is \<Longrightarrow> h_cells h' (nal_buf i) = h_cells h (nal_buf i)"
  shows "nals_hold h' l is xs"
  using assms by (induction h l "is" xs rule: nals_hold.induct) auto

lemma unit_holds_payloads: "unit_holds h u ns \<Longrightarrow> payloads h [u] = ns"
proof -
  assume "unit_holds h u ns"
  then have "map (\<lambda>i. h_cells h (nal_buf i)) (ui_nal_infos u) = map Some ns"
    by (auto simp: unit_holds_def nals_hold_cells)
  then have "map (the \<circ> (\<lambda>i. h_cells h (nal_buf i))) (ui_nal_infos u) = map (the \<circ> Some) ns"
    by (metis map_map)
  then show "payloads h [u] = ns"
    by (simp add: payloads_def unit_pointers_def o_def)
qed

lemma payloads_append: "payloads h (us @ vs) = payloads h us @ payloads h vs"
  by (simp add: payloads_def)

lemma unit_holds_live: "unit_holds h u ns \<Longrightarrow> p \<in> set (unit_pointers u) \<Longrightarrow> h_cells h p \<noteq> None"
proof -
  assume "unit_holds h u ns" and p: "p \<in> set (unit_pointers u)"
  then have "map (\<lambda>i. h_cells h (nal_buf i)) (ui_nal_infos u) = map Some ns"
    by (auto simp: unit_holds_def nals_hold_cells)
  then have "set (map (\<lambda>i. h_cells h (nal_buf i)) (ui_nal_infos u)) = set (map Some ns)" by simp
  then show "h_cells h p \<noteq> None"
    using p by (auto simp: unit_pointers_def)
qed

text \<open>Allocating keeps what the stream holds.\<close>

lemma unit_holds_alloc:
  assumes "heap_ok h" and "heap_alloc x h = (p, h')" and "unit_holds h u ns"
  shows "unit_holds h' u ns"
proof -
  have "h_cells h' (nal_buf i) = h_cells h (nal_buf i)" if "i \<in> set (ui_nal_infos u)" for i
    using unit_holds_live [OF assms(3), of "nal_buf i"] that assms(1,2) heap_ok_fresh [of h]
    by (auto simp: heap_alloc_def unit_pointers_def)
  then show ?thesis
    using assms(3) by (auto simp: unit_holds_def intro: nals_hold_mono)
qed

lemma payloads_alloc:
  assumes "heap_ok h" and "heap_alloc x h = (p, h')"
    and "\<forall>u \<in> set us. \<exists>ns. unit_holds h u ns"
  shows "payloads h' us = payloads h us"
proof -
  have "h_cells h' q = h_cells h q" if "u \<in> set us" "q \<in> set (unit_pointers u)" for u q
    using unit_holds_live [of h u _ q] that assms heap_ok_fresh [of h]
    by (fastforce simp: heap_alloc_def)
  then show ?thesis by (auto simp: payloads_def)
qed

subsection \<open>One frame\<close>

lemma next_unit_simps [simp]:
  "ui_nal_infos (next_unit t n) = []" "ui_ptr (next_unit t n) = 0" "ui_ready (next_unit t n) = False"
  "vuh_unit_type (ui_header (next_unit t n)) = t"
  by (simp_all add: next_unit_def new_unit_def Let_def empty_header_def)

text \<open>What the call does to a stream, with the branches resolved under the invariant.\<close>

definition open_units :: "nat \<Rightarrow> v3c_unit_info list \<Rightarrow> v3c_unit_info list" where
  "open_units n units =
     (if length (ui_nal_infos (last units)) = n
      then units @ [next_unit (vuh_unit_type (ui_header (last units))) (length units)] else units)"

definition add_nal :: "nat \<Rightarrow> nat \<Rightarrow> pointer \<Rightarrow> v3c_unit_info \<Rightarrow> v3c_unit_info" where
  "add_nal n len p u = u\<lparr>ui_nal_infos := ui_nal_infos u @
       [\<lparr>nal_location = ui_ptr u, nal_size = len, nal_buf = p\<rparr>],
     ui_ptr := ui_ptr u + len, ui_ready := (Suc (length (ui_nal_infos u)) = n)\<rparr>"

lemma stream_header:
  assumes "stream_ok n t h units" and "k < length units"
  shows "ui_header (units ! k) = ui_header (next_unit t k)"
proof -
  have "map ui_header units ! k = map (\<lambda>i. ui_header (next_unit t i)) [0..<length units] ! k"
    using assms(1) by (simp only: stream_ok_def)
  then show ?thesis using assms(2) by simp
qed

lemma stream_type: "stream_ok n t h units \<Longrightarrow> vuh_unit_type (ui_header (last units)) = t"
  using stream_header [of n t h units "length units - 1"]
  by (auto simp: last_conv_nth stream_ok_def)

lemma open_units_ok:
  assumes "0 < n" and "stream_ok n t h units"
  shows "stream_ok n t h (open_units n units)" "payloads h (open_units n units) = payloads h units"
    "length (ui_nal_infos (last (open_units n units))) < n"
proof -
  have "unit_holds h (next_unit t' m) []" for t' m
    by (simp add: unit_holds_def)
  moreover have "unit_pointers (next_unit t' m) = []" for t' m
    by (simp add: unit_pointers_def)
  moreover have "units \<noteq> []" "last units \<in> set units"
    using assms(2) by (auto simp: stream_ok_def)
  moreover have "\<forall>u \<in> set units. u \<in> set (butlast units) \<or> u = last units"
    using calculation(3) by (metis append_butlast_last_id in_set_conv_decomp_last
        rotate1.simps(2) set_ConsD set_rotate1)
  ultimately show "stream_ok n t h (open_units n units)"
    "payloads h (open_units n units) = payloads h units"
    "length (ui_nal_infos (last (open_units n units))) < n"
    using assms stream_type [OF assms(2)] by (auto simp: stream_ok_def open_units_def payloads_def)
qed

lemma copy_rtp_payload_eq:
  assumes "0 < n" and "stream_ok n t h units"
  shows "copy_rtp_payload n x (units, h) =
    (let us = open_units n units; (p, h') = heap_alloc x h
     in Inr (butlast us @ [add_nal n (length x) p (last us)], h'))"
proof -
  have b: "vec_back units = Inr (last units)"
    using assms(2) by (simp add: vec_back_def stream_ok_def)
  have l: "length (ui_nal_infos (last (open_units n units))) < n"
    using open_units_ok(3) [OF assms] .
  have r: "\<not> ui_ready (last (open_units n units))"
    using open_units_ok(1) [OF assms] l by (auto simp: stream_ok_def)
  show ?thesis
    unfolding copy_rtp_payload_def prod.case b rbind_Inr open_units_def [symmetric] Let_def
    using l r by (auto simp: add_nal_def split: prod.splits)
qed

lemma copy_rtp_payload_step:
  assumes n: "0 < n" and ok: "stream_ok n t h units"
  shows "\<exists>units' h'. copy_rtp_payload n x (units, h) = Inr (units', h')
    \<and> stream_ok n t h' units' \<and> payloads h' units' = payloads h units @ [x]
    \<and> (\<forall>p y. h_cells h p = Some y \<longrightarrow> h_cells h' p = Some y)
    \<and> (\<exists>p. stream_pointers units' = stream_pointers units @ [p] \<and> h_cells h p = None)"
proof -
  define us where "us = open_units n units"
  define u where "u = last us"
  obtain p h' where al: "heap_alloc x h = (p, h')" by fastforce
  note us = open_units_ok [OF n ok, folded us_def]
  have us_u: "us = butlast us @ [u]" and hok: "heap_ok h"
    using us(1) by (auto simp: u_def stream_ok_def)
  have "u \<in> set us" using us(1) by (auto simp: u_def stream_ok_def)
  then obtain ns where ns: "unit_holds h u ns"
    using us(1) unfolding stream_ok_def by blast
  let ?u = "add_nal n (length x) p u"
  have p: "h_cells h' p = Some x" "h_cells h p = None" "heap_ok h'"
    using al hok heap_ok_fresh [of h] heap_ok_alloc by (auto simp: heap_alloc_def)
  have u': "unit_holds h' ?u (ns @ [x])"
    using unit_holds_alloc [OF hok al ns] p(1)
    by (auto simp: unit_holds_def add_nal_def nals_hold_append)
  have ptrs: "concat (map unit_pointers (butlast us @ [?u])) = concat (map unit_pointers us) @ [p]"
    by (subst (2) us_u) (simp add: unit_pointers_def add_nal_def)
  have "stream_pointers us = stream_pointers units"
    by (simp add: us_def open_units_def stream_pointers_def unit_pointers_def)
  then have ptrs': "stream_pointers (butlast us @ [?u]) = stream_pointers units @ [p]"
    using ptrs by (simp add: stream_pointers_def)
  have held: "\<forall>v \<in> set us. \<exists>ns. unit_holds h v ns" using us(1) by (simp add: stream_ok_def)
  have live: "\<forall>v \<in> set us. p \<notin> set (unit_pointers v)"
    using held p(2) unit_holds_live by metis
  have "stream_ok n t h' (butlast us @ [?u])"
    unfolding stream_ok_def ptrs
  proof (intro conjI ballI)
    fix v assume v: "v \<in> set (butlast us @ [?u])"
    then consider "v \<in> set us" | "v = ?u" by (auto dest: in_set_butlastD)
    then show "\<exists>ns. unit_holds h' v ns"
      "length (ui_nal_infos v) \<le> n" "ui_ready v \<longleftrightarrow> length (ui_nal_infos v) = n"
      using us u' held unit_holds_alloc [OF hok al]
      by (cases; force simp: stream_ok_def add_nal_def u_def)+
  next
    have "map ui_header (butlast us @ [?u]) = map ui_header us"
      by (subst (2) us_u) (simp add: add_nal_def)
    moreover have "length (butlast us @ [?u]) = length us"
      by (subst (2) us_u) simp
    ultimately show "map ui_header (butlast us @ [?u])
        = map (\<lambda>i. ui_header (next_unit t i)) [0..<length (butlast us @ [?u])]"
      using us(1) by (simp only: stream_ok_def)
  next
    fix v assume "v \<in> set (butlast (butlast us @ [?u]))"
    then show "length (ui_nal_infos v) = n" using us(1) by (simp add: stream_ok_def)
  next
    show "distinct (concat (map unit_pointers us) @ [p])"
      using us(1) live by (auto simp: stream_ok_def)
  qed (use p in simp_all)
  moreover have "payloads h' (butlast us @ [?u]) = payloads h units @ [x]"
  proof -
    have "payloads h' (butlast us @ [?u]) = payloads h' us @ [x]"
      using p(1) unfolding payloads_def ptrs by simp
    then show ?thesis
      using payloads_alloc [OF hok al held] us(2) by simp
  qed
  moreover have "\<forall>q y. h_cells h q = Some y \<longrightarrow> h_cells h' q = Some y"
    using al p(2) by (auto simp: heap_alloc_def)
  ultimately show ?thesis
    using copy_rtp_payload_eq [OF n ok, of x] al ptrs' p(2) by (auto simp: us_def u_def Let_def)
qed

text \<open>One stream on its own: the hook appends the frame to what the stream holds.\<close>

interpretation copy: frame_hook
  "copy_rtp_payload (Suc n)" "\<lambda>(units, h). stream_ok (Suc n) t h units" "\<lambda>_. True"
  "\<lambda>(units, h). payloads h units" "\<lambda>x xs. xs @ [x]"
  for n t
proof
  fix s x
  show "(case s of (units, h) \<Rightarrow> stream_ok (Suc n) t h units) \<Longrightarrow> True \<Longrightarrow>
    \<exists>s'. copy_rtp_payload (Suc n) x s = Inr s' \<and> (case s' of (units, h) \<Rightarrow> stream_ok (Suc n) t h units)
      \<and> (case s' of (units, h) \<Rightarrow> payloads h units) = (case s of (units, h) \<Rightarrow> payloads h units) @ [x]"
    using copy_rtp_payload_step [of "Suc n" t] by (cases s) fastforce
qed

lemma fold_snoc: "fold (\<lambda>x xs. xs @ [x]) fs xs = xs @ fs"
  by (induction fs arbitrary: xs) auto

text \<open>
  The invariant fixes the shape: units but the last hold \<open>n\<close> payloads each, so the \<open>k\<close>-th unit
  holds payloads \<open>k * n\<close> onwards.
\<close>

lemma stream_ok_nth:
  assumes "stream_ok n t h units" and "k < length units"
  shows "payloads h [units ! k] = take n (drop (k * n) (payloads h units))"
proof -
  have full: "length (unit_pointers u) = n" if "u \<in> set (take k units)" for u
  proof -
    have "u \<in> set (butlast units)"
      using subsetD [OF set_take_subset_set_take [of k "length units - 1" units] that] assms(2)
      by (auto simp: butlast_conv_take)
    then show ?thesis using assms(1) by (simp add: stream_ok_def unit_pointers_def)
  qed
  have split: "payloads h units = payloads h (take k units) @ payloads h [units ! k] @ payloads h (drop (Suc k) units)"
    using id_take_nth_drop [OF assms(2)] by (metis append_Cons append_Nil payloads_append)
  have "length (concat (map unit_pointers us)) = length us * n"
    if "\<forall>u \<in> set us. length (unit_pointers u) = n" for us
    using that by (induction us) auto
  then have front: "length (payloads h (take k units)) = k * n"
    using full assms(2) by (simp add: payloads_def)
  have len: "length (unit_pointers (units ! k)) \<le> n"
    using assms by (simp add: stream_ok_def unit_pointers_def)
  show ?thesis
  proof (cases "Suc k = length units")
    case True
    then show ?thesis using split front len by (simp add: payloads_def)
  next
    case False
    then have "Suc k < length units" using assms(2) by simp
    then have "units ! k \<in> set (butlast units)"
      by (metis Suc_lessD Suc_less_eq diff_Suc_1 length_butlast less_imp_Suc_add nth_butlast nth_mem
          plus_1_eq_Suc)
    then have "length (payloads h [units ! k]) = n"
      using assms(1) by (simp add: stream_ok_def payloads_def unit_pointers_def)
    then show ?thesis using split front by simp
  qed
qed

end
