(* ===== verification/V3C_Header.thy ===== *)
theory V3C_Header
  imports V3C_Types
begin

section \<open>V3C unit headers: parsing and writing\<close>

text \<open>
  \<open>parse_v3c_header\<close> of \<open>uvgrtp/v3c_util.cc\<close> and the four header bytes that
  \<open>create_v3c_unit\<close> builds, with the exact range of headers on which the two agree.
\<close>

subsection \<open>The code\<close>

text \<open>The bit expressions that take a field out of the header bytes.\<close>

definition read_unit_type :: "u8 \<Rightarrow> u8" where
  "read_unit_type b0 = drop_bit 3 (b0 AND 0b11111000)"

definition read_parameter_set_id :: "u8 \<Rightarrow> u8 \<Rightarrow> u8" where
  "read_parameter_set_id b0 b1 = push_bit 1 (b0 AND 0b111) OR drop_bit 7 (b1 AND 0b10000000)"

definition read_atlas_id :: "u8 \<Rightarrow> u8" where
  "read_atlas_id b1 = drop_bit 1 (b1 AND 0b01111110)"

definition read_gvd_map_index :: "u8 \<Rightarrow> u8 \<Rightarrow> u8" where
  "read_gvd_map_index b1 b2 = push_bit 3 (b1 AND 0b1) OR drop_bit 5 (b2 AND 0b11100000)"

definition read_gvd_auxiliary_video_flag :: "u8 \<Rightarrow> bool" where
  "read_gvd_auxiliary_video_flag b2 \<longleftrightarrow> drop_bit 4 (b2 AND 0b00010000) \<noteq> 0"

definition read_avd_attribute_index :: "u8 \<Rightarrow> u8 \<Rightarrow> u8" where
  "read_avd_attribute_index b1 b2 = push_bit 6 (b1 AND 0b1) OR drop_bit 2 (b2 AND 0b11111100)"

definition read_avd_attribute_partition_index :: "u8 \<Rightarrow> u8 \<Rightarrow> u8" where
  "read_avd_attribute_partition_index b2 b3 = (b2 AND 0b11) OR drop_bit 5 (b3 AND 0b11100000)"

definition read_avd_map_index :: "u8 \<Rightarrow> u8" where
  "read_avd_map_index b3 = drop_bit 1 (b3 AND 0b00011110)"

definition read_avd_auxiliary_video_flag :: "u8 \<Rightarrow> bool" where
  "read_avd_auxiliary_video_flag b3 \<longleftrightarrow> b3 AND 0b1 \<noteq> 0"

definition parse_v3c_header :: "v3c_unit_header \<Rightarrow> u8 list \<Rightarrow> nat \<Rightarrow> v3c_unit_header res" where
  "parse_v3c_header hdr buf ptr =
     rbind (rd8 buf ptr) (\<lambda>b0.
     let t = read_unit_type b0; hdr = hdr\<lparr>vuh_unit_type := t\<rparr> in
     rbind (if t = unit_code V3C_AVD \<or> t = unit_code V3C_GVD \<or> t = unit_code V3C_OVD \<or>
               t = unit_code V3C_AD \<or> t = unit_code V3C_CAD \<or> t = unit_code V3C_PVD
            then rbind (rd8 buf (ptr + 1)) (\<lambda>b1. Inr (read_parameter_set_id b0 b1))
            else Inr 0) (\<lambda>parameter_set_id.
     rbind (if t = unit_code V3C_AVD \<or> t = unit_code V3C_GVD \<or> t = unit_code V3C_OVD \<or>
               t = unit_code V3C_AD \<or> t = unit_code V3C_PVD
            then rbind (rd8 buf (ptr + 1)) (\<lambda>b1. Inr (read_atlas_id b1))
            else Inr 0) (\<lambda>atlas_id.
     if t = unit_code V3C_VPS then Inr hdr
     else if t = unit_code V3C_AD then
       Inr (hdr\<lparr>vuh := Ad \<lparr>ad_vuh_v3c_parameter_set_id = parameter_set_id,
                          ad_vuh_atlas_id = atlas_id\<rparr>\<rparr>)
     else if t = unit_code V3C_OVD then
       Inr (hdr\<lparr>vuh := Ovd \<lparr>ovd_vuh_v3c_parameter_set_id = parameter_set_id,
                           ovd_vuh_atlas_id = atlas_id\<rparr>\<rparr>)
     else if t = unit_code V3C_GVD then
       rbind (rd8 buf (ptr + 1)) (\<lambda>b1. rbind (rd8 buf (ptr + 2)) (\<lambda>b2.
       Inr (hdr\<lparr>vuh := Gvd \<lparr>gvd_vuh_v3c_parameter_set_id = parameter_set_id,
                           gvd_vuh_atlas_id = atlas_id,
                           gvd_vuh_map_index = read_gvd_map_index b1 b2,
                           gvd_vuh_auxiliary_video_flag = read_gvd_auxiliary_video_flag b2\<rparr>\<rparr>)))
     else if t = unit_code V3C_AVD then
       rbind (rd8 buf (ptr + 1)) (\<lambda>b1. rbind (rd8 buf (ptr + 2)) (\<lambda>b2.
       rbind (rd8 buf (ptr + 3)) (\<lambda>b3.
       Inr (hdr\<lparr>vuh := Avd \<lparr>avd_vuh_v3c_parameter_set_id = parameter_set_id,
                           avd_vuh_atlas_id = atlas_id,
                           avd_vuh_attribute_index = read_avd_attribute_index b1 b2,
                           avd_vuh_attribute_partition_index = read_avd_attribute_partition_index b2 b3,
                           avd_vuh_map_index = read_avd_map_index b3,
                           avd_vuh_auxiliary_video_flag = read_avd_auxiliary_video_flag b3\<rparr>\<rparr>))))
     else if t = unit_code V3C_PVD then
       Inr (hdr\<lparr>vuh := Pvd \<lparr>pvd_vuh_v3c_parameter_set_id = parameter_set_id,
                           pvd_vuh_atlas_id = atlas_id\<rparr>\<rparr>)
     else if t = unit_code V3C_CAD then
       Inr (hdr\<lparr>vuh := Cad \<lparr>cad_vuh_v3c_parameter_set_id = parameter_set_id\<rparr>\<rparr>)
     else Inr hdr)))"

text \<open>
  The header part of \<open>create_v3c_unit\<close>: four bytes, zero where the unit type has no
  field. Assignments to a byte keep its low eight bits.
\<close>

definition put_header_0 :: "u8 \<Rightarrow> u8 \<Rightarrow> u8" where
  "put_header_0 v3c_type param_set_id = push_bit 3 v3c_type OR drop_bit 1 (param_set_id AND 0b1110)"

definition put_header_1 :: "u8 \<Rightarrow> u8" where
  "put_header_1 param_set_id = push_bit 7 (param_set_id AND 0b1)"

definition put_atlas_id :: "u8 \<Rightarrow> u8 \<Rightarrow> u8" where
  "put_atlas_id h1 atlas_id = h1 OR push_bit 1 (atlas_id AND 0b111111)"

definition put_gvd_1 :: "u8 \<Rightarrow> u8 \<Rightarrow> u8" where
  "put_gvd_1 h1 map_index = h1 OR drop_bit 3 (map_index AND 0b1000)"

definition put_gvd_2 :: "u8 \<Rightarrow> bool \<Rightarrow> u8" where
  "put_gvd_2 map_index auxiliary_video_flag =
     push_bit 5 (map_index AND 0b111) OR push_bit 4 (of_bool auxiliary_video_flag)"

definition put_avd_1 :: "u8 \<Rightarrow> u8 \<Rightarrow> u8" where
  "put_avd_1 h1 attribute_index = h1 OR drop_bit 7 (attribute_index AND 0b1000000)"

definition put_avd_2 :: "u8 \<Rightarrow> u8 \<Rightarrow> u8" where
  "put_avd_2 attribute_index attribute_partition_index =
     push_bit 2 (attribute_index AND 0b111111) OR drop_bit 3 (attribute_partition_index AND 0b11000)"

definition put_avd_3 :: "u8 \<Rightarrow> u8 \<Rightarrow> bool \<Rightarrow> u8" where
  "put_avd_3 attribute_partition_index map_index auxiliary_video_flag =
     push_bit 5 (attribute_partition_index AND 0b111) OR push_bit 1 map_index
       OR of_bool auxiliary_video_flag"

definition v3c_header_bytes :: "v3c_unit_header \<Rightarrow> u8 list res" where
  "v3c_header_bytes h =
     (let t = vuh_unit_type h; psid = union_parameter_set_id (vuh h);
          h0 = put_header_0 t psid; h1 = put_header_1 psid in
     rbind (if t \<noteq> unit_code V3C_CAD
            then rbind (union_atlas_id (vuh h)) (\<lambda>atlas_id. Inr (put_atlas_id h1 atlas_id))
            else Inr h1) (\<lambda>h1.
     rbind (if t = unit_code V3C_GVD
            then rbind (union_gvd_map_index (vuh h)) (\<lambda>map_index.
                 rbind (union_gvd_aux_flag (vuh h)) (\<lambda>auxiliary_video_flag.
                 Inr (put_gvd_1 h1 map_index, put_gvd_2 map_index auxiliary_video_flag)))
            else Inr (h1, 0)) (\<lambda>(h1, h2).
     if t = unit_code V3C_AVD
     then rbind (union_avd (vuh h)) (\<lambda>a.
            Inr [h0,
                 put_avd_1 h1 (avd_vuh_attribute_index a),
                 put_avd_2 (avd_vuh_attribute_index a) (avd_vuh_attribute_partition_index a),
                 put_avd_3 (avd_vuh_attribute_partition_index a) (avd_vuh_map_index a)
                   (avd_vuh_auxiliary_video_flag a)])
     else Inr [h0, h1, h2, 0])))"

lemma length_v3c_header_bytes: "v3c_header_bytes h = Inr bs \<Longrightarrow> length bs = 4"
  by (auto simp: v3c_header_bytes_def Let_def rbind_eq_Inr split: if_splits prod.splits)

subsection \<open>Well-formed headers\<close>

text \<open>
  The active member is the one of the unit type, and every field fits the bits the V3C
  header has for it: 4 for the parameter set id, 6 for the atlas id, 4 for map indices,
  7 for the attribute index and 5 for the attribute partition index.
\<close>

fun union_ok :: "V3C_UNIT_TYPE \<Rightarrow> vuh_union \<Rightarrow> bool" where
  "union_ok V3C_AD (Ad h) \<longleftrightarrow> unat (ad_vuh_v3c_parameter_set_id h) < 16 \<and> unat (ad_vuh_atlas_id h) < 64"
| "union_ok V3C_OVD (Ovd h) \<longleftrightarrow> unat (ovd_vuh_v3c_parameter_set_id h) < 16 \<and> unat (ovd_vuh_atlas_id h) < 64"
| "union_ok V3C_GVD (Gvd h) \<longleftrightarrow> unat (gvd_vuh_v3c_parameter_set_id h) < 16 \<and> unat (gvd_vuh_atlas_id h) < 64
     \<and> unat (gvd_vuh_map_index h) < 16"
| "union_ok V3C_AVD (Avd h) \<longleftrightarrow> unat (avd_vuh_v3c_parameter_set_id h) < 16 \<and> unat (avd_vuh_atlas_id h) < 64
     \<and> unat (avd_vuh_attribute_index h) < 128 \<and> unat (avd_vuh_attribute_partition_index h) < 32
     \<and> unat (avd_vuh_map_index h) < 16"
| "union_ok V3C_PVD (Pvd h) \<longleftrightarrow> unat (pvd_vuh_v3c_parameter_set_id h) < 16 \<and> unat (pvd_vuh_atlas_id h) < 64"
| "union_ok V3C_CAD (Cad h) \<longleftrightarrow> unat (cad_vuh_v3c_parameter_set_id h) < 16"
| "union_ok _ _ \<longleftrightarrow> False"

definition header_ok :: "V3C_UNIT_TYPE \<Rightarrow> v3c_unit_header \<Rightarrow> bool" where
  "header_ok t h \<longleftrightarrow> vuh_unit_type h = unit_code t \<and> union_ok t (vuh h)"

text \<open>
  What the code makes of an attribute header: the top bit of the attribute index is lost
  when it is written, and the two pieces of the partition index are read into the same
  bits.
\<close>

fun lossy_union :: "vuh_union \<Rightarrow> vuh_union" where
  "lossy_union (Avd h) = Avd (h\<lparr>
     avd_vuh_attribute_index := avd_vuh_attribute_index h AND 0b111111,
     avd_vuh_attribute_partition_index :=
       drop_bit 3 (avd_vuh_attribute_partition_index h) OR (avd_vuh_attribute_partition_index h AND 0b111)\<rparr>)"
| "lossy_union u = u"

subsection \<open>Reading back what was written\<close>

text \<open>The bits a field in range does not have.\<close>

lemma field_bits:
  fixes x :: u8
  shows "unat x < 8 \<Longrightarrow> 3 \<le> n \<Longrightarrow> \<not> bit x n" "unat x < 16 \<Longrightarrow> 4 \<le> n \<Longrightarrow> \<not> bit x n"
    "unat x < 32 \<Longrightarrow> 5 \<le> n \<Longrightarrow> \<not> bit x n" "unat x < 64 \<Longrightarrow> 6 \<le> n \<Longrightarrow> \<not> bit x n"
    "unat x < 128 \<Longrightarrow> 7 \<le> n \<Longrightarrow> \<not> bit x n"
  using word_high_bit [of x 3 n] word_high_bit [of x 4 n] word_high_bit [of x 5 n]
    word_high_bit [of x 6 n] word_high_bit [of x 7 n] by simp_all

lemma u8_neq_0: "(x :: u8) \<noteq> 0 \<longleftrightarrow> bit x 0 \<or> bit x 1 \<or> bit x 2 \<or> bit x 3 \<or> bit x 4 \<or> bit x 5 \<or> bit x 6 \<or> bit x 7"
  using u8_eqI [of x 0] by auto

lemmas put_defs = put_header_0_def put_header_1_def put_atlas_id_def put_gvd_1_def put_gvd_2_def
  put_avd_1_def put_avd_2_def put_avd_3_def

lemmas read_defs = read_unit_type_def read_parameter_set_id_def read_atlas_id_def
  read_gvd_map_index_def read_gvd_auxiliary_video_flag_def read_avd_attribute_index_def
  read_avd_attribute_partition_index_def read_avd_map_index_def read_avd_auxiliary_video_flag_def

text \<open>Field by field, bit by bit.\<close>

named_theorems header_fields \<open>reading a field from the bytes it was written to\<close>

lemma read_unit_type [header_fields]:
  "read_unit_type (put_header_0 (unit_code t) p) = unit_code t"
  unfolding put_defs read_defs
  by (cases t; rule u8_eqI) (simp_all add: bit_simps del: push_bit_Suc flip: numeral_2_eq_2)

lemma read_parameter_set_id [header_fields]:
  assumes "unat p < 16"
  shows "read_parameter_set_id (put_header_0 t p) (put_header_1 p) = p"
    "read_parameter_set_id (put_header_0 t p) (put_atlas_id (put_header_1 p) a) = p"
    "read_parameter_set_id (put_header_0 t p) (put_gvd_1 (put_atlas_id (put_header_1 p) a) m) = p"
    "read_parameter_set_id (put_header_0 t p) (put_avd_1 (put_atlas_id (put_header_1 p) a) m) = p"
  unfolding put_defs read_defs
  by (rule u8_eqI;
      use assms in \<open>simp add: bit_simps field_bits del: push_bit_Suc flip: numeral_2_eq_2\<close>)+

lemma read_atlas_id [header_fields]:
  assumes "unat a < 64"
  shows "read_atlas_id (put_atlas_id (put_header_1 p) a) = a"
    "read_atlas_id (put_gvd_1 (put_atlas_id (put_header_1 p) a) m) = a"
    "read_atlas_id (put_avd_1 (put_atlas_id (put_header_1 p) a) m) = a"
  unfolding put_defs read_defs
  by (rule u8_eqI;
      use assms in \<open>simp add: bit_simps field_bits del: push_bit_Suc flip: numeral_2_eq_2\<close>)+

lemma read_gvd_map_index [header_fields]:
  assumes "unat m < 16"
  shows "read_gvd_map_index (put_gvd_1 (put_atlas_id (put_header_1 p) a) m) (put_gvd_2 m f) = m"
  unfolding put_defs read_defs
  by (rule u8_eqI;
      use assms in \<open>simp add: bit_simps field_bits del: push_bit_Suc flip: numeral_2_eq_2\<close>)

lemma read_gvd_flag [header_fields]: "read_gvd_auxiliary_video_flag (put_gvd_2 m f) \<longleftrightarrow> f"
  unfolding put_defs read_defs u8_neq_0 bit_simps by simp

lemma read_avd_attribute_index [header_fields]:
  "read_avd_attribute_index (put_avd_1 (put_atlas_id (put_header_1 p) a) i) (put_avd_2 i q)
     = i AND 0b111111"
  unfolding put_defs read_defs
  by (rule u8_eqI; simp add: bit_simps del: push_bit_Suc flip: numeral_2_eq_2)

lemma read_avd_partition_index [header_fields]:
  assumes "unat q < 32" and "unat m < 16"
  shows "read_avd_attribute_partition_index (put_avd_2 i q) (put_avd_3 q m f)
     = drop_bit 3 q OR (q AND 0b111)"
  unfolding put_defs read_defs
  by (rule u8_eqI;
      use assms in \<open>simp add: bit_simps field_bits del: push_bit_Suc flip: numeral_2_eq_2\<close>)

lemma read_avd_map_index [header_fields]:
  assumes "unat m < 16"
  shows "read_avd_map_index (put_avd_3 q m f) = m"
  unfolding put_defs read_defs
  by (rule u8_eqI;
      use assms in \<open>simp add: bit_simps field_bits del: push_bit_Suc flip: numeral_2_eq_2\<close>)

lemma read_avd_flag [header_fields]: "read_avd_auxiliary_video_flag (put_avd_3 q m f) \<longleftrightarrow> f"
  unfolding put_defs read_defs u8_neq_0 bit_simps by simp

text \<open>The four header bytes inside a larger buffer.\<close>

lemma parse_header_at [buf_simps]:
  "rd8 (pre @ [b0, b1, b2, b3] @ post) (length pre) = Inr b0"
  "rd8 (pre @ [b0, b1, b2, b3] @ post) (Suc (length pre)) = Inr b1"
  "rd8 (pre @ [b0, b1, b2, b3] @ post) (length pre + 2) = Inr b2"
  "rd8 (pre @ [b0, b1, b2, b3] @ post) (length pre + 3) = Inr b3"
  "rd8 (pre @ [b0, b1, b2, b3] @ post) (Suc (Suc (length pre))) = Inr b2"
  "rd8 (pre @ [b0, b1, b2, b3] @ post) (Suc (Suc (Suc (length pre)))) = Inr b3"
  by (simp_all add: rd8_def nth_append)

lemma v3c_header_bytes_ex:
  assumes "header_ok t h"
  shows "\<exists>b0 b1 b2 b3. v3c_header_bytes h = Inr [b0, b1, b2, b3]"
  using assms by (cases t; cases "vuh h") (simp_all add: header_ok_def v3c_header_bytes_def Let_def)

text \<open>
  The header written by the code and read back by the code: the header itself, up to what
  \<open>lossy_union\<close> says of attribute video.
\<close>

lemma header_roundtrip_lossy:
  assumes "header_ok t h" and "v3c_header_bytes h = Inr bs"
  shows "parse_v3c_header empty_header (pre @ bs @ post) (length pre)
    = Inr (h\<lparr>vuh := lossy_union (vuh h)\<rparr>)"
proof (cases h)
  case (fields ty u)
  with assms(1) have ty: "ty = unit_code t" and u: "union_ok t u"
    by (simp_all add: header_ok_def)
  obtain b0 b1 b2 b3 where bs: "bs = [b0, b1, b2, b3]"
    using v3c_header_bytes_ex [OF assms(1)] assms(2) by auto
  show ?thesis
    unfolding parse_v3c_header_def bs
    using assms(2)[unfolded bs fields] u
    by (cases t; cases u)
      (auto simp: ty fields v3c_header_bytes_def Let_def parse_header_at header_fields empty_header_def
        simp del: append.simps unit_code.simps rd8_Inr)
qed

lemma parse_parameter_set_header:
  assumes "rd8 buf p = Inr b" and "read_unit_type b = unit_code V3C_VPS"
  shows "parse_v3c_header hdr buf p = Inr (hdr\<lparr>vuh_unit_type := unit_code V3C_VPS\<rparr>)"
  using assms by (simp add: parse_v3c_header_def Let_def del: unit_code.simps)

subsection \<open>Which headers survive\<close>

definition header_faithful :: "v3c_unit_header \<Rightarrow> bool" where
  "header_faithful h \<longleftrightarrow> (case vuh h of
     Avd a \<Rightarrow> unat (avd_vuh_attribute_index a) < 64 \<and> unat (avd_vuh_attribute_partition_index a) < 8
   | _ \<Rightarrow> True)"

lemma mask_u8:
  fixes x :: u8
  shows "x AND 0b111111 = take_bit 6 x" and "x AND 0b111 = take_bit 3 x"
  by (simp_all add: take_bit_eq_mask mask_eq_exp_minus_1)

lemma take_bit_fixed:
  fixes x :: u8
  shows "take_bit n x = x \<longleftrightarrow> unat x < 2 ^ n"
proof
  show "take_bit n x = x \<Longrightarrow> unat x < 2 ^ n"
    by (metis take_bit_nat_less_exp unsigned_take_bit_eq)
qed (rule word_small_take_bit)

lemma partition_index_fixed:
  assumes "unat (q :: u8) < 32"
  shows "drop_bit 3 q OR (q AND 0b111) = q \<longleftrightarrow> unat q < 8"
proof
  assume small: "unat q < 8"
  then have "drop_bit 3 q = 0"
    by (intro bit_word_eqI) (simp add: bit_simps field_bits(1))
  then show "drop_bit 3 q OR (q AND 0b111) = q"
    using small take_bit_fixed [of 3 q] by (simp add: mask_u8)
next
  assume eq: "drop_bit 3 q OR (q AND 0b111) = q"
  have "\<not> bit (drop_bit 3 q OR take_bit 3 q) n" if "3 \<le> n" for n
    using field_bits(3) [OF assms, of "3 + n"] that by (simp add: bit_simps)
  then have "\<not> bit q n" if "3 \<le> n" for n using that eq by (simp add: mask_u8)
  then have "take_bit 3 q = q"
    by (intro bit_word_eqI) (simp add: bit_take_bit_iff, metis not_less)
  then show "unat q < 8" using take_bit_fixed [of 3 q] by simp
qed

lemma lossy_union_fixed:
  assumes "header_ok t h"
  shows "lossy_union (vuh h) = vuh h \<longleftrightarrow> header_faithful h"
proof (cases "vuh h")
  case (Avd a)
  then have q: "unat (avd_vuh_attribute_partition_index a) < 32"
    using assms by (cases t) (auto simp: header_ok_def)
  have "lossy_union (vuh h) = vuh h \<longleftrightarrow> avd_vuh_attribute_index a AND 0b111111 = avd_vuh_attribute_index a
      \<and> drop_bit 3 (avd_vuh_attribute_partition_index a) OR (avd_vuh_attribute_partition_index a AND 0b111)
        = avd_vuh_attribute_partition_index a"
    by (cases a) (simp add: Avd)
  then show ?thesis
    using take_bit_fixed [of 6] partition_index_fixed [OF q] by (simp add: header_faithful_def Avd mask_u8(1))
qed (simp_all add: header_faithful_def)

text \<open>
  C6: unit headers. For a header whose union member matches its type and whose fields fit the
  V3C bit widths, the writer produces four bytes, and the parser reads exactly this header
  back from any place in a buffer if and only if it is not an attribute header with an
  attribute index of 64 or more or a partition index of 8 or more: those are the
  headers that the two shift errors of the code (\<open>>> 7\<close> on writing, a missing \<open><< 3\<close> on reading) damage.
\<close>

theorem header_roundtrip:
  assumes "header_ok t h"
  shows "\<exists>bs. v3c_header_bytes h = Inr bs \<and> length bs = 4 \<and>
    (parse_v3c_header empty_header (pre @ bs @ post) (length pre) = Inr h \<longleftrightarrow> header_faithful h)"
proof -
  obtain bs where bs: "v3c_header_bytes h = Inr bs"
    using v3c_header_bytes_ex [OF assms] by blast
  have "h\<lparr>vuh := lossy_union (vuh h)\<rparr> = h \<longleftrightarrow> lossy_union (vuh h) = vuh h"
    by (cases h) simp
  then show ?thesis
    using bs header_roundtrip_lossy [OF assms bs, of pre post] lossy_union_fixed [OF assms]
      length_v3c_header_bytes [OF bs] by simp
qed

theorem header_roundtrip_witness:
  "\<exists>bs. v3c_header_bytes \<lparr>vuh_unit_type = 4, vuh = Avd \<lparr>avd_vuh_v3c_parameter_set_id = 9, avd_vuh_atlas_id = 3,
        avd_vuh_attribute_index = 2, avd_vuh_attribute_partition_index = 9, avd_vuh_map_index = 5,
        avd_vuh_auxiliary_video_flag = True\<rparr>\<rparr> = Inr bs \<and> length bs = 4 \<and>
     (parse_v3c_header empty_header ([0] @ bs @ []) (length [0 :: u8]) = Inr \<lparr>vuh_unit_type = 4,
        vuh = Avd \<lparr>avd_vuh_v3c_parameter_set_id = 9, avd_vuh_atlas_id = 3,
        avd_vuh_attribute_index = 2, avd_vuh_attribute_partition_index = 9, avd_vuh_map_index = 5,
        avd_vuh_auxiliary_video_flag = True\<rparr>\<rparr> \<longleftrightarrow>
      header_faithful \<lparr>vuh_unit_type = 4, vuh = Avd \<lparr>avd_vuh_v3c_parameter_set_id = 9, avd_vuh_atlas_id = 3,
        avd_vuh_attribute_index = 2, avd_vuh_attribute_partition_index = 9, avd_vuh_map_index = 5,
        avd_vuh_auxiliary_video_flag = True\<rparr>\<rparr>)"
  by (rule header_roundtrip [of V3C_AVD]) (simp add: header_ok_def)

end
