(* ===== verification/V3C_Parse.thy ===== *)
theory V3C_Parse
  imports V3C_Header
begin

section \<open>Memory-mapping a V3C file\<close>

text \<open>
  \<open>mmap_v3c_file\<close> of \<open>uvgrtp/v3c_util.cc\<close>: the outer loop over V3C units and the inner
  loop over the NAL units of one V3C unit, with every read bounds-checked. The buffer
  \<open>cbuf\<close> is the memory that may be read; \<open>len\<close> is the length the caller passes.

  The interfaces \<open>size_codec\<close> and \<open>size_prefixed\<close> are interpreted on the size fields and on the
  NAL loop, once for each precision the code accepts.
\<close>

subsection \<open>Size fields\<close>

text \<open>
  The V3C unit size: \<open>memcpy\<close> into the array \<open>v3c_size\<close>, then 2 or 3 bytes combined.
  \<open>None\<close> is the branch that prints an error and leaves the function.
\<close>

definition read_v3c_size :: "nat \<Rightarrow> u8 list \<Rightarrow> nat \<Rightarrow> u32 option res" where
  "read_v3c_size v3c_size_precision cbuf ptr =
     rbind (rd_bytes cbuf ptr v3c_size_precision) (\<lambda>v3c_size.
       if v3c_size_precision = 2 then Inr (Some (combineBytes2 (v3c_size ! 0) (v3c_size ! 1)))
       else if v3c_size_precision = 3
       then Inr (Some (combineBytes3 (v3c_size ! 0) (v3c_size ! 1) (v3c_size ! 2)))
       else Inr None)"

definition read_nal_size :: "nat \<Rightarrow> u8 list \<Rightarrow> nat \<Rightarrow> u32 option res" where
  "read_nal_size nal_size_precision cbuf v3c_ptr =
     (if nal_size_precision = 2 then
        rbind (rd8 cbuf v3c_ptr) (\<lambda>a. rbind (rd8 cbuf (v3c_ptr + 1)) (\<lambda>b.
        Inr (Some (combineBytes2 a b))))
      else if nal_size_precision = 3 then
        rbind (rd8 cbuf v3c_ptr) (\<lambda>a. rbind (rd8 cbuf (v3c_ptr + 1)) (\<lambda>b.
        rbind (rd8 cbuf (v3c_ptr + 2)) (\<lambda>c. Inr (Some (combineBytes3 a b c)))))
      else if nal_size_precision = 4 then
        rbind (rd8 cbuf v3c_ptr) (\<lambda>a. rbind (rd8 cbuf (v3c_ptr + 1)) (\<lambda>b.
        rbind (rd8 cbuf (v3c_ptr + 2)) (\<lambda>c. rbind (rd8 cbuf (v3c_ptr + 3)) (\<lambda>d.
        Inr (Some (combineBytes4 a b c d))))))
      else Inr None)"

lemma read_v3c_size_precision:
  "read_v3c_size prec cbuf ptr = Inr (Some n) \<Longrightarrow> prec = 2 \<or> prec = 3"
  by (auto simp: read_v3c_size_def rbind_eq_Inr split: if_splits)

lemma read_nal_size_precision:
  "read_nal_size prec cbuf ptr = Inr (Some n) \<Longrightarrow> prec = 2 \<or> prec = 3 \<or> prec = 4"
  by (auto simp: read_nal_size_def split: if_splits)

subsection \<open>The loop over the NAL units of a V3C unit\<close>

function nal_loop :: "nat \<Rightarrow> u8 list \<Rightarrow> nat \<Rightarrow> nat \<Rightarrow> nal_info list \<Rightarrow> nal_info list option res" where
  "nal_loop nal_size_precision cbuf v3c_ptr unit_end nal_infos =
     (if unit_end \<le> v3c_ptr then Inr (Some nal_infos)
      else rbind (read_nal_size nal_size_precision cbuf v3c_ptr) (\<lambda>size_field.
        case size_field of None \<Rightarrow> Inr None
        | Some combined_nal_size \<Rightarrow>
            nal_loop nal_size_precision cbuf (v3c_ptr + nal_size_precision + unat combined_nal_size)
              unit_end
              (nal_infos @ [\<lparr>nal_location = v3c_ptr + nal_size_precision,
                             nal_size = unat combined_nal_size, nal_buf = nullptr\<rparr>])))"
  by pat_completeness auto
termination
  by (relation "measure (\<lambda>(prec, cbuf, p, e, infos). e - p)") (auto dest: read_nal_size_precision)

declare nal_loop.simps [simp del]

subsection \<open>The loop over the V3C units of a file\<close>

text \<open>The \<open>switch\<close> that files a parsed unit under its type; an unknown type is dropped.\<close>

definition push_unit :: "u8 \<Rightarrow> v3c_unit_info \<Rightarrow> v3c_file_map \<Rightarrow> v3c_file_map" where
  "push_unit vuh_t unit mmap =
     (if vuh_t = unit_code V3C_AD then mmap\<lparr>ad_units := ad_units mmap @ [unit]\<rparr>
      else if vuh_t = unit_code V3C_CAD then mmap\<lparr>cad_units := cad_units mmap @ [unit]\<rparr>
      else if vuh_t = unit_code V3C_OVD then mmap\<lparr>ovd_units := ovd_units mmap @ [unit]\<rparr>
      else if vuh_t = unit_code V3C_GVD then mmap\<lparr>gvd_units := gvd_units mmap @ [unit]\<rparr>
      else if vuh_t = unit_code V3C_AVD then mmap\<lparr>avd_units := avd_units mmap @ [unit]\<rparr>
      else if vuh_t = unit_code V3C_PVD then mmap\<lparr>pvd_units := pvd_units mmap @ [unit]\<rparr>
      else mmap)"

text \<open>
  Where the NAL sample stream of a unit starts and how wide its size fields are: behind
  the header, and for atlas data behind one more byte that holds the precision.
\<close>

definition nal_stream_start :: "u8 \<Rightarrow> u8 list \<Rightarrow> nat \<Rightarrow> (nat \<times> nat) res" where
  "nal_stream_start vuh_t cbuf v3c_ptr =
     (if vuh_t = unit_code V3C_AD \<or> vuh_t = unit_code V3C_CAD then
        rbind (rd8 cbuf v3c_ptr) (\<lambda>v3cu_first_byte.
          Inr (unat (drop_bit 5 v3cu_first_byte + 1), v3c_ptr + 1))
      else Inr (4, v3c_ptr))"

text \<open>
  The result is the value the function returns and the map it has filled. Both error
  branches \<open>return EXIT_FAILURE\<close> from a function that returns \<open>bool\<close>.
\<close>

function v3c_loop :: "nat \<Rightarrow> u8 list \<Rightarrow> nat \<Rightarrow> nat \<Rightarrow> v3c_file_map \<Rightarrow> (bool \<times> v3c_file_map) res" where
  "v3c_loop v3c_size_precision cbuf len ptr mmap =
     (if len \<le> ptr then Inr (True, mmap)
      else rbind (read_v3c_size v3c_size_precision cbuf ptr) (\<lambda>size_field.
        case size_field of None \<Rightarrow> Inr (EXIT_FAILURE \<noteq> 0, mmap)
        | Some combined_v3c_size \<Rightarrow>
            (let ptr = ptr + v3c_size_precision; unit_end = ptr + unat combined_v3c_size in
             rbind (parse_v3c_header empty_header cbuf ptr) (\<lambda>v3c_hdr.
               let vuh_t = vuh_unit_type v3c_hdr; unit = new_unit v3c_hdr in
               if vuh_t = unit_code V3C_VPS then
                 v3c_loop v3c_size_precision cbuf len unit_end
                   (mmap\<lparr>vps_units := vps_units mmap @
                      [unit\<lparr>ui_nal_infos := [\<lparr>nal_location = ptr, nal_size = unat combined_v3c_size,
                                              nal_buf = nullptr\<rparr>]\<rparr>]\<rparr>)
               else
                 rbind (nal_stream_start vuh_t cbuf (ptr + V3C_HDR_LEN)) (\<lambda>(nal_size_precision, v3c_ptr).
                 rbind (nal_loop nal_size_precision cbuf v3c_ptr unit_end []) (\<lambda>r.
                   case r of None \<Rightarrow> Inr (EXIT_FAILURE \<noteq> 0, mmap)
                   | Some nal_infos \<Rightarrow>
                       v3c_loop v3c_size_precision cbuf len unit_end
                         (push_unit vuh_t (unit\<lparr>ui_nal_infos := nal_infos\<rparr>) mmap)))))))"
  by pat_completeness auto
termination
  by (relation "measure (\<lambda>(prec, cbuf, len, p, m). len - p)") (auto dest: read_v3c_size_precision)

declare v3c_loop.simps [simp del]

definition mmap_v3c_file :: "u8 list \<Rightarrow> nat \<Rightarrow> v3c_file_map \<Rightarrow> (bool \<times> v3c_file_map) res" where
  "mmap_v3c_file cbuf len mmap =
     rbind (rd8 cbuf 0) (\<lambda>first_byte.
       v3c_loop (unat (drop_bit 5 first_byte + 1)) cbuf len 1 mmap)"

subsection \<open>The interfaces, on the code's definitions\<close>

lemma rd8_seq:
  "rd8 (pre @ xs @ post) (length pre) = (if xs = [] then rd8 (pre @ post) (length pre) else Inr (xs ! 0))"
  by (cases xs) (simp_all add: rd8_def)

lemma read_nal_size_enc:
  assumes "w \<in> {2, 3, 4}" and "unat x < 256 ^ w"
  shows "read_nal_size w (pre @ be_bytes w x @ post) (length pre) = Inr (Some x)"
proof -
  have "take_bit (8 * w) x = x"
    by (rule word_small_take_bit) (use assms(2) in \<open>simp add: power_mult\<close>)
  then show ?thesis
    using assms(1)
    by (auto simp: read_nal_size_def rd8_def nth_append combineBytes2_be combineBytes3_be combineBytes4_be)
qed

lemma read_nal_size_fits:
  "read_nal_size w cbuf p = Inr (Some x) \<Longrightarrow> p + w \<le> length cbuf"
  by (auto simp: read_nal_size_def rbind_eq_Inr rd8_eq_Inr split: if_splits)

lemma read_v3c_size_enc:
  assumes "w \<in> {2, 3}" and "unat x < 256 ^ w"
  shows "read_v3c_size w (pre @ be_bytes w x @ post) (length pre) = Inr (Some x)"
proof -
  have "take_bit (8 * w) x = x"
    by (rule word_small_take_bit) (use assms(2) in \<open>simp add: power_mult\<close>)
  moreover have "rd_bytes (pre @ be_bytes w x @ post) (length pre) w = Inr (be_bytes w x)"
    by (rule rd_bytes_append) simp
  ultimately show ?thesis
    using assms(1) by (auto simp: read_v3c_size_def combineBytes2_be combineBytes3_be)
qed

lemma read_v3c_size_fits:
  "read_v3c_size w cbuf p = Inr (Some x) \<Longrightarrow> p + w \<le> length cbuf"
  by (auto simp: read_v3c_size_def rbind_eq_Inr rd_bytes_eq_Inr)

abbreviation nal_item :: "nat \<Rightarrow> nat \<Rightarrow> nal_info" where
  "nal_item l n \<equiv> \<lparr>nal_location = l, nal_size = n, nal_buf = nullptr\<rparr>"

interpretation v3c2: size_codec 2 "be_bytes 2" "read_v3c_size 2"
  by unfold_locales (auto intro: read_v3c_size_enc dest: read_v3c_size_fits simp del: be_bytes_simps)

interpretation v3c3: size_codec 3 "be_bytes 3" "read_v3c_size 3"
  by unfold_locales (auto intro: read_v3c_size_enc dest: read_v3c_size_fits simp del: be_bytes_simps)

lemma nal_loop_prefixed:
  assumes "w \<in> {2, 3, 4}"
  shows "size_prefixed w (be_bytes w) (read_nal_size w) nal_item (nal_loop w)"
proof
  show "0 < w" using assms by auto
  show "length (be_bytes w x) = w" for x by simp
  show "read_nal_size w (pre @ be_bytes w x @ post) (length pre) = Inr (Some x)"
    if "unat x < 256 ^ w" for x pre post using assms that by (rule read_nal_size_enc)
  show "p + w \<le> length buf" if "read_nal_size w buf p = Inr (Some x)" for buf p x
    using that by (rule read_nal_size_fits)
  show "nal_loop w buf p e acc = (if e \<le> p then Inr (Some acc)
      else rbind (read_nal_size w buf p) (\<lambda>r. case r of None \<Rightarrow> Inr None
        | Some n \<Rightarrow> nal_loop w buf (p + w + unat n) e (acc @ [nal_item (p + w) (unat n)])))"
    for buf p e acc by (rule nal_loop.simps)
qed

interpretation nal2: size_prefixed 2 "be_bytes 2" "read_nal_size 2" nal_item "nal_loop 2"
  by (rule nal_loop_prefixed) simp

interpretation nal3: size_prefixed 3 "be_bytes 3" "read_nal_size 3" nal_item "nal_loop 3"
  by (rule nal_loop_prefixed) simp

interpretation nal4: size_prefixed 4 "be_bytes 4" "read_nal_size 4" nal_item "nal_loop 4"
  by (rule nal_loop_prefixed) simp

text \<open>What the interpretations give for any precision the NAL loop accepts.\<close>

lemma nal_loop_frames:
  assumes "w \<in> {2, 3, 4}" and "\<forall>x \<in> set xs. length x < 256 ^ w"
    and "e = length pre + length (frames (be_bytes w) xs)"
  shows "nal_loop w (pre @ frames (be_bytes w) xs @ post) (length pre) e acc
       = Inr (Some (acc @ map (\<lambda>(l, n). nal_item l n) (spans w (length pre) xs)))"
proof -
  have "(256 :: nat) ^ w \<le> 2 ^ 32" using assms(1) by auto
  then have "\<forall>x \<in> set xs. length x < 256 ^ w \<and> length x < 2 ^ 32"
    using assms(2) by force
  then show ?thesis
    using assms(1,3) by (auto intro: nal2.walk_frames nal3.walk_frames nal4.walk_frames
        simp del: be_bytes_simps)
qed

lemma nal_loop_tiled:
  assumes "nal_loop w cbuf p e [] = Inr (Some infos)"
  shows "\<exists>xs q. infos = map (\<lambda>(l, n). nal_item l n) xs \<and> tiled w p q xs \<and> e \<le> max p q
     \<and> (\<forall>(l, n) \<in> set xs. l \<le> length cbuf \<and> n < 2 ^ 32)"
proof (cases "e \<le> p")
  case True
  then have "infos = []" using assms by (simp add: nal_loop.simps)
  then show ?thesis using True by (intro exI [of _ "[]"]) auto
next
  case False
  then obtain n where "read_nal_size w cbuf p = Inr (Some n)"
    using assms by (subst (asm) nal_loop.simps) (auto simp: rbind_eq_Inr split: option.splits)
  then have "w = 2 \<or> w = 3 \<or> w = 4" by (rule read_nal_size_precision)
  then show ?thesis
    using assms nal2.walk_tiled [of cbuf p e "[]" infos] nal3.walk_tiled [of cbuf p e "[]" infos]
      nal4.walk_tiled [of cbuf p e "[]" infos] by auto
qed

subsection \<open>What any parse yields\<close>

text \<open>
  The map invariant: every unit is filed under the type of its header, a parameter set
  has one NAL entry, and the NAL entries of any other unit tile its NAL stream.
\<close>

definition nal_spans :: "v3c_unit_info \<Rightarrow> (nat \<times> nat) list" where
  "nal_spans u = map (\<lambda>i. (nal_location i, nal_size i)) (ui_nal_infos u)"

definition parsed_unit :: "nat \<Rightarrow> V3C_UNIT_TYPE \<Rightarrow> v3c_unit_info \<Rightarrow> bool" where
  "parsed_unit n t u \<longleftrightarrow> vuh_unit_type (ui_header u) = unit_code t
     \<and> (\<forall>i \<in> set (ui_nal_infos u). nal_location i \<le> n \<and> nal_size i < 2 ^ 32 \<and> nal_buf i = nullptr)
     \<and> (if t = V3C_VPS then length (ui_nal_infos u) = 1
        else \<exists>w p q. tiled w p q (nal_spans u) \<and> p \<le> n \<and> w \<le> 8)"

definition parsed_map :: "nat \<Rightarrow> v3c_file_map \<Rightarrow> bool" where
  "parsed_map n m \<longleftrightarrow>
     (\<forall>u \<in> set (vps_units m). parsed_unit n V3C_VPS u) \<and>
     (\<forall>u \<in> set (ad_units m). parsed_unit n V3C_AD u) \<and>
     (\<forall>u \<in> set (ovd_units m). parsed_unit n V3C_OVD u) \<and>
     (\<forall>u \<in> set (gvd_units m). parsed_unit n V3C_GVD u) \<and>
     (\<forall>u \<in> set (avd_units m). parsed_unit n V3C_AVD u) \<and>
     (\<forall>u \<in> set (pvd_units m). parsed_unit n V3C_PVD u) \<and>
     (\<forall>u \<in> set (cad_units m). parsed_unit n V3C_CAD u)"

lemma parsed_map_empty: "parsed_map n empty_map"
  by (simp add: parsed_map_def empty_map_def)

lemma parsed_map_vps:
  "parsed_map n m \<Longrightarrow> parsed_unit n V3C_VPS u \<Longrightarrow> parsed_map n (m\<lparr>vps_units := vps_units m @ [u]\<rparr>)"
  by (auto simp: parsed_map_def)

lemma parsed_map_push:
  assumes "parsed_map n m" and "\<And>t. vuh_t = unit_code t \<Longrightarrow> parsed_unit n t u"
  shows "parsed_map n (push_unit vuh_t u m)"
  using assms by (auto simp: parsed_map_def push_unit_def simp del: unit_code.simps)

lemma read_v3c_size_bound: "read_v3c_size w cbuf p = Inr (Some n) \<Longrightarrow> unat n < 2 ^ 32"
  using unat_u32_less [of n] by simp

lemma rbind_InrE:
  assumes "rbind m f = Inr y"
  obtains x where "m = Inr x" and "f x = Inr y"
  using assms by (auto simp: rbind_eq_Inr)

text \<open>One turn of the outer loop: it ends, or it files one unit and goes on.\<close>

lemma v3c_loop_cases:
  assumes "v3c_loop w cbuf len p m = Inr (r, m')"
  obtains (stop) "r" "m' = m"
  | (vps) n h where "read_v3c_size w cbuf p = Inr (Some n)"
      "parse_v3c_header empty_header cbuf (p + w) = Inr h" "vuh_unit_type h = unit_code V3C_VPS"
      "v3c_loop w cbuf len (p + w + unat n)
         (m\<lparr>vps_units := vps_units m @ [(new_unit h)\<lparr>ui_nal_infos := [nal_item (p + w) (unat n)]\<rparr>]\<rparr>)
       = Inr (r, m')" "p < len"
  | (nals) n h prec q infos where "read_v3c_size w cbuf p = Inr (Some n)"
      "parse_v3c_header empty_header cbuf (p + w) = Inr h" "vuh_unit_type h \<noteq> unit_code V3C_VPS"
      "nal_stream_start (vuh_unit_type h) cbuf (p + w + V3C_HDR_LEN) = Inr (prec, q)"
      "nal_loop prec cbuf q (p + w + unat n) [] = Inr (Some infos)"
      "v3c_loop w cbuf len (p + w + unat n)
         (push_unit (vuh_unit_type h) ((new_unit h)\<lparr>ui_nal_infos := infos\<rparr>) m) = Inr (r, m')" "p < len"
proof (cases "len \<le> p")
  case True
  then show ?thesis using assms stop by (simp add: v3c_loop.simps)
next
  case False
  with assms show ?thesis
    apply (subst (asm) v3c_loop.simps)
    apply (simp add: Let_def del: unit_code.simps)
    apply (elim rbind_InrE)
    subgoal for sf
      apply (cases sf)
       apply (simp add: EXIT_FAILURE_def stop)
      apply (simp del: unit_code.simps)
      apply (elim rbind_InrE)
      subgoal for n h
        apply (cases "vuh_unit_type h = unit_code V3C_VPS")
         apply (rule vps; simp)
        apply (simp del: unit_code.simps)
        apply (elim rbind_InrE)
        apply (simp split: prod.splits del: unit_code.simps)
        apply (elim rbind_InrE)
        subgoal for pq prec q r'
          by (cases r') (auto simp: EXIT_FAILURE_def stop intro: nals simp del: unit_code.simps)
        done
      done
    done
qed

lemma nal_stream_start_bound:
  "nal_stream_start t cbuf p = Inr (prec, q) \<Longrightarrow> q \<le> p + 1 \<and> p \<le> q \<and> prec \<le> 8"
proof -
  have "unat (drop_bit 5 b + 1 :: u8) \<le> 8" for b :: u8
  proof -
    have "unat (drop_bit 5 b) \<le> 7"
      using less_mult_imp_div_less [of "unat b" 8 32] unat_u8_less [of b]
      by (simp add: drop_bit_eq_div unat_div)
    then show ?thesis by (simp add: unat_plus_if_size word_size)
  qed
  then show "nal_stream_start t cbuf p = Inr (prec, q) \<Longrightarrow> q \<le> p + 1 \<and> p \<le> q \<and> prec \<le> 8"
    by (auto simp: nal_stream_start_def rbind_eq_Inr split: if_splits)
qed

lemma parse_header_fits: "parse_v3c_header h cbuf p = Inr h' \<Longrightarrow> p < length cbuf"
  by (auto simp: parse_v3c_header_def rbind_eq_Inr rd8_eq_Inr)

text \<open>
  A unit parsed at offset \<open>p\<close>. Its NAL stream starts at most five bytes behind a byte that
  was read, so every offset stays within five bytes of the buffer.
\<close>

lemma parsed_nal_unit:
  assumes "parse_v3c_header empty_header cbuf p = Inr h" and "vuh_unit_type h = unit_code t"
    and "t \<noteq> V3C_VPS" and "nal_stream_start (vuh_unit_type h) cbuf (p + V3C_HDR_LEN) = Inr (prec, q)"
    and "nal_loop prec cbuf q e [] = Inr (Some infos)"
  shows "parsed_unit (length cbuf + 5) t ((new_unit h)\<lparr>ui_nal_infos := infos\<rparr>)"
proof -
  obtain xs q' where xs: "infos = map (\<lambda>(l, n). nal_item l n) xs" "tiled prec q q' xs"
    "\<forall>(l, n) \<in> set xs. l \<le> length cbuf \<and> n < 2 ^ 32"
    using nal_loop_tiled [OF assms(5)] by blast
  have "nal_spans ((new_unit h)\<lparr>ui_nal_infos := infos\<rparr>) = xs"
    by (auto simp: nal_spans_def xs(1) o_def case_prod_beta)
  moreover have "q \<le> length cbuf + 5" "prec \<le> 8"
    using nal_stream_start_bound [OF assms(4)] parse_header_fits [OF assms(1)]
    by (auto simp: V3C_HDR_LEN_def)
  moreover have "\<forall>i \<in> set infos. nal_location i \<le> length cbuf + 5 \<and> nal_size i < 2 ^ 32 \<and> nal_buf i = nullptr"
    using xs(3) by (auto simp: xs(1))
  ultimately show ?thesis
    using assms(2,3) xs(2) by (auto simp: parsed_unit_def new_unit_def)
qed

lemma v3c_loop_parsed:
  assumes "v3c_loop w cbuf len p m = Inr (r, m')" and "parsed_map (length cbuf + 5) m"
  shows "r \<and> parsed_map (length cbuf + 5) m'"
  using assms
proof (induction "len - p" arbitrary: p m rule: less_induct)
  case less
  from less.prems(1) show ?case
  proof (cases rule: v3c_loop_cases)
    case stop
    then show ?thesis using less.prems(2) by simp
  next
    case (vps n h)
    have "len - (p + w + unat n) < len - p"
      using vps read_v3c_size_precision [OF vps(1)] by auto
    moreover have "parsed_unit (length cbuf + 5) V3C_VPS
        ((new_unit h)\<lparr>ui_nal_infos := [nal_item (p + w) (unat n)]\<rparr>)"
      using vps(3) read_v3c_size_fits [OF vps(1)] read_v3c_size_bound [OF vps(1)]
      by (simp add: parsed_unit_def new_unit_def)
    ultimately show ?thesis
      using less.hyps vps(4) parsed_map_vps [OF less.prems(2)] by blast
  next
    case (nals n h prec q infos)
    have "len - (p + w + unat n) < len - p"
      using nals read_v3c_size_precision [OF nals(1)] by auto
    moreover have "parsed_map (length cbuf + 5)
        (push_unit (vuh_unit_type h) ((new_unit h)\<lparr>ui_nal_infos := infos\<rparr>) m)"
      using nals less.prems(2) by (intro parsed_map_push parsed_nal_unit) auto
    ultimately show ?thesis
      using less.hyps nals(6) by blast
  qed
qed

lemma mmap_v3c_file_parsed:
  assumes "mmap_v3c_file cbuf len m = Inr (r, m')" and "parsed_map (length cbuf + 5) m"
  shows "r \<and> parsed_map (length cbuf + 5) m'"
  using assms(1) v3c_loop_parsed [OF _ assms(2)]
  unfolding mmap_v3c_file_def rbind_eq_Inr by blast

text \<open>
  C5: soundness of \<open>mmap_v3c_file\<close> on any input, well-formed or not. Whenever the parse does not
  run off the end of the buffer, the map it yields is well-formed: every unit is filed under the
  type of its header, its NAL entries lie one behind the other, each behind a size field, they
  start at most five bytes behind the buffer and are smaller than 4 GiB, and no entry
  owns a heap buffer. The function returns \<open>true\<close>, also on its two error paths.
\<close>

theorem mmap_v3c_file_sound:
  assumes "mmap_v3c_file cbuf len empty_map = Inr (r, m)"
  shows "r \<and> parsed_map (length cbuf + 5) m"
  using mmap_v3c_file_parsed [OF assms parsed_map_empty] .

theorem mmap_v3c_file_sound_witness:
  "True \<and> parsed_map (length [0x40 :: u8, 0, 0, 2, 0, 7, 0, 0, 7, 8, 0, 0, 0, 0x20, 0, 9] + 5)
     (empty_map\<lparr>vps_units := [(new_unit empty_header)\<lparr>ui_nal_infos := [nal_item 4 2]\<rparr>],
       ad_units := [(new_unit \<lparr>vuh_unit_type = 1, vuh = Ad \<lparr>ad_vuh_v3c_parameter_set_id = 0,
                                 ad_vuh_atlas_id = 0\<rparr>\<rparr>)\<lparr>ui_nal_infos := [nal_item 16 9]\<rparr>]\<rparr>)"
  apply (rule mmap_v3c_file_sound [where len = 15])
  apply (code_simp)
  done

end
