(* ===== verification/V3C_Stream.thy ===== *)
theory V3C_Stream
  imports V3C_Parse
begin

section \<open>The V3C sample stream: specification and parser completeness\<close>

text \<open>
  What a V3C sample stream is, independently of the code: a list of V3C units, each
  behind its big-endian size; a unit is a parameter set, or a header followed by a NAL
  sample stream. The parser of \<open>V3C_Parse\<close> reads every such stream back. The rebuilding
  code (\<open>V3C_Rebuild\<close>) is proved against the same specification.
\<close>

datatype v3c_unit =
    Parameter_Set "u8 list"
  | Nal_Units V3C_UNIT_TYPE v3c_unit_header nat "u8 list list"

definition is_atlas :: "V3C_UNIT_TYPE \<Rightarrow> bool" where
  "is_atlas t \<longleftrightarrow> t = V3C_AD \<or> t = V3C_CAD"

text \<open>The byte behind an atlas header holds the precision minus one in its top bits.\<close>

definition precision_byte :: "nat \<Rightarrow> u8" where
  "precision_byte prec = push_bit 5 (word_of_nat prec - 1)"

definition header_part :: "V3C_UNIT_TYPE \<Rightarrow> v3c_unit_header \<Rightarrow> nat \<Rightarrow> u8 list" where
  "header_part t h prec =
     (case v3c_header_bytes h of Inl e \<Rightarrow> [] | Inr bs \<Rightarrow> bs)
       @ (if is_atlas t then [precision_byte prec] else [])"

fun unit_payload :: "v3c_unit \<Rightarrow> u8 list" where
  "unit_payload (Parameter_Set bytes) = bytes"
| "unit_payload (Nal_Units t h prec nals) = header_part t h prec @ frames (be_bytes prec) nals"

definition sample_stream :: "nat \<Rightarrow> v3c_unit list \<Rightarrow> u8 list" where
  "sample_stream w us = frames (be_bytes w) (map unit_payload us)"

text \<open>
  A unit the format can carry with \<open>w\<close>-byte unit sizes: a parameter set starts with a
  byte of type 0, NAL sizes fit the precision, which for video is always four bytes.
\<close>

fun unit_ok :: "nat \<Rightarrow> v3c_unit \<Rightarrow> bool" where
  "unit_ok w (Parameter_Set bytes) \<longleftrightarrow> bytes \<noteq> [] \<and> read_unit_type (hd bytes) = unit_code V3C_VPS
     \<and> length bytes < 256 ^ w"
| "unit_ok w (Nal_Units t h prec nals) \<longleftrightarrow> header_ok t h \<and> t \<noteq> V3C_VPS
     \<and> (if is_atlas t then prec \<in> {2, 3, 4} else prec = 4)
     \<and> (\<forall>x \<in> set nals. length x < 256 ^ prec)
     \<and> length (unit_payload (Nal_Units t h prec nals)) < 256 ^ w"

text \<open>How a unit whose payload starts at offset \<open>l\<close> is filed.\<close>

definition lossy_header :: "v3c_unit_header \<Rightarrow> v3c_unit_header" where
  "lossy_header h = h\<lparr>vuh := lossy_union (vuh h)\<rparr>"

fun file_unit :: "nat \<Rightarrow> v3c_unit \<Rightarrow> v3c_file_map \<Rightarrow> v3c_file_map" where
  "file_unit l (Parameter_Set bytes) m =
     m\<lparr>vps_units := vps_units m @
        [(new_unit (empty_header\<lparr>vuh_unit_type := unit_code V3C_VPS\<rparr>))
           \<lparr>ui_nal_infos := [nal_item l (length bytes)]\<rparr>]\<rparr>"
| "file_unit l (Nal_Units t h prec nals) m =
     push_unit (unit_code t)
       ((new_unit (lossy_header h))\<lparr>ui_nal_infos :=
          map (\<lambda>(l, n). nal_item l n) (spans prec (l + length (header_part t h prec)) nals)\<rparr>) m"

fun file_units :: "nat \<Rightarrow> nat \<Rightarrow> v3c_unit list \<Rightarrow> v3c_file_map \<Rightarrow> v3c_file_map" where
  "file_units w p [] m = m"
| "file_units w p (u # us) m =
     file_units w (p + w + length (unit_payload u)) us (file_unit (p + w) u m)"

subsection \<open>One unit\<close>

lemma v3c_size_codec: "w \<in> {2, 3} \<Longrightarrow> size_codec w (be_bytes w) (read_v3c_size w)"
  using v3c2.size_codec_axioms v3c3.size_codec_axioms by (auto simp del: be_bytes_simps)

lemma precision_byte_read:
  "prec \<in> {2, 3, 4} \<Longrightarrow> unat (drop_bit 5 (precision_byte prec) + 1) = prec"
  by (auto simp: precision_byte_def)

lemma length_header_part:
  assumes "header_ok t h"
  shows "length (header_part t h prec) = (if is_atlas t then 5 else 4)"
proof -
  obtain b0 b1 b2 b3 where "v3c_header_bytes h = Inr [b0, b1, b2, b3]"
    using v3c_header_bytes_ex [OF assms] by blast
  then show ?thesis by (simp add: header_part_def)
qed

lemma header_part_parse:
  assumes "header_ok t h"
  shows "parse_v3c_header empty_header (pre @ header_part t h prec @ post) (length pre)
    = Inr (lossy_header h)"
proof -
  obtain bs where bs: "v3c_header_bytes h = Inr bs"
    using v3c_header_bytes_ex [OF assms] by blast
  show ?thesis
    using header_roundtrip_lossy [OF assms bs, of pre
        "(if is_atlas t then [precision_byte prec] else []) @ post"]
    by (simp add: header_part_def bs lossy_header_def)
qed

lemma nal_stream_start_unit:
  assumes "header_ok t h" and "if is_atlas t then prec \<in> {2, 3, 4} else prec = 4"
  shows "nal_stream_start (unit_code t) (pre @ header_part t h prec @ post) (length pre + V3C_HDR_LEN)
    = Inr (prec, length pre + length (header_part t h prec))"
proof -
  obtain b0 b1 b2 b3 where bs: "v3c_header_bytes h = Inr [b0, b1, b2, b3]"
    using v3c_header_bytes_ex [OF assms(1)] by blast
  show ?thesis
  proof (cases "is_atlas t")
    case True
    then have "rd8 (pre @ header_part t h prec @ post) (length pre + 4) = Inr (precision_byte prec)"
      by (simp add: header_part_def bs rd8_def nth_append)
    then show ?thesis
      using True assms(2) precision_byte_read [of prec]
      by (auto simp: nal_stream_start_def V3C_HDR_LEN_def is_atlas_def length_header_part [OF assms(1)]
          simp del: unit_code.simps)
  next
    case False
    then show ?thesis
      using assms(2)
      by (auto simp: nal_stream_start_def V3C_HDR_LEN_def is_atlas_def length_header_part [OF assms(1)]
          simp del: unit_code.simps)
  qed
qed

lemma lossy_header_type [simp]: "vuh_unit_type (lossy_header h) = vuh_unit_type h"
  by (simp add: lossy_header_def)

lemma v3c_loop_unit:
  assumes w: "w \<in> {2, 3}" and ok: "unit_ok w u" and p: "length pre < len"
  shows "v3c_loop w (pre @ be_bytes w (word_of_nat (length (unit_payload u))) @ unit_payload u @ post)
           len (length pre) m
       = v3c_loop w (pre @ be_bytes w (word_of_nat (length (unit_payload u))) @ unit_payload u @ post)
           len (length pre + w + length (unit_payload u)) (file_unit (length pre + w) u m)"
    (is "v3c_loop w ?buf len _ m = _")
proof -
  let ?n = "length (unit_payload u)" and ?sz = "word_of_nat (length (unit_payload u)) :: u32"
  have lt: "?n < 256 ^ w" using ok by (cases u) auto
  moreover have "(256 :: nat) ^ w \<le> 2 ^ 32" using w by auto
  ultimately have sz: "unat ?sz = ?n"
    by (simp add: unsigned_of_nat take_bit_nat_eq_self)
  have rd: "read_v3c_size w ?buf (length pre) = Inr (Some ?sz)"
    using size_codec.rd_enc [OF v3c_size_codec [OF w]] lt sz by simp
  have buf: "?buf = (pre @ be_bytes w ?sz) @ unit_payload u @ post"
    and p': "length pre + w = length (pre @ be_bytes w ?sz)" by simp_all
  show ?thesis
  proof (cases u)
    case (Parameter_Set bytes)
    then have "parse_v3c_header empty_header ?buf (length pre + w)
        = Inr (empty_header\<lparr>vuh_unit_type := unit_code V3C_VPS\<rparr>)"
      unfolding buf p' using ok rd8_append_0 [of "unit_payload u" "pre @ be_bytes w ?sz" post]
      by (intro parse_parameter_set_header [of _ _ "hd bytes"]) (auto simp: hd_conv_nth)
    then show ?thesis
      using p rd sz Parameter_Set by (subst v3c_loop.simps) (simp add: Let_def)
  next
    case (Nal_Units t h prec nals)
    with ok have okt: "header_ok t h" "t \<noteq> V3C_VPS"
      "if is_atlas t then prec \<in> {2, 3, 4} else prec = 4" "\<forall>x \<in> set nals. length x < 256 ^ prec"
      by auto
    let ?pre = "pre @ be_bytes w ?sz" and ?fs = "frames (be_bytes prec) nals"
    have b: "?buf = ?pre @ header_part t h prec @ ?fs @ post" by (simp add: Nal_Units)
    have hdr: "parse_v3c_header empty_header ?buf (length pre + w) = Inr (lossy_header h)"
      unfolding p' unfolding b by (rule header_part_parse [OF okt(1)])
    have start: "nal_stream_start (unit_code t) ?buf (length pre + w + V3C_HDR_LEN)
        = Inr (prec, length (?pre @ header_part t h prec))"
      unfolding p' unfolding b
      using nal_stream_start_unit [OF okt(1,3), of ?pre "?fs @ post"] by simp
    have "prec \<in> {2, 3, 4}" using okt(3) by (auto split: if_splits)
    then have nals: "nal_loop prec ?buf (length (?pre @ header_part t h prec)) (length pre + w + ?n) []
        = Inr (Some (map (\<lambda>(l, n). nal_item l n)
            (spans prec (length (?pre @ header_part t h prec)) nals)))"
      using nal_loop_frames [of prec nals "length pre + w + ?n" "?pre @ header_part t h prec" post "[]"] okt(4)
      by (simp add: Nal_Units)
    have ty: "vuh_unit_type h = unit_code t" using okt(1) by (simp add: header_ok_def)
    show ?thesis
      using p rd sz hdr start nals okt(2) Nal_Units
      by (subst v3c_loop.simps) (simp add: Let_def ty add.assoc del: unit_code.simps)
  qed
qed

subsection \<open>Whole files\<close>

lemma v3c_loop_sample_stream:
  assumes "w \<in> {2, 3}" and "\<forall>u \<in> set us. unit_ok w u"
    and "len = length pre + length (sample_stream w us)"
  shows "v3c_loop w (pre @ sample_stream w us @ post) len (length pre) m
       = Inr (True, file_units w (length pre) us m)"
  using assms(2,3)
proof (induction us arbitrary: pre m)
  case Nil
  then show ?case by (simp add: sample_stream_def v3c_loop.simps)
next
  case (Cons u us)
  let ?sz = "be_bytes w (word_of_nat (length (unit_payload u)))"
  have s: "sample_stream w (u # us) = ?sz @ unit_payload u @ sample_stream w us"
    by (simp add: sample_stream_def)
  have "v3c_loop w ((pre @ ?sz @ unit_payload u) @ sample_stream w us @ post) len
      (length (pre @ ?sz @ unit_payload u)) (file_unit (length pre + w) u m)
    = Inr (True, file_units w (length (pre @ ?sz @ unit_payload u)) us (file_unit (length pre + w) u m))"
    using Cons.prems s by (intro Cons.IH) auto
  moreover have "length pre < len" using Cons.prems assms(1) s by auto
  ultimately show ?case
    using v3c_loop_unit [OF assms(1), of u pre len "sample_stream w us @ post" m] Cons.prems(1) s
    by (simp add: add.assoc)
qed

lemma mmap_sample_stream:
  assumes "w \<in> {2, 3}" and "\<forall>u \<in> set us. unit_ok w u" and "unat (drop_bit 5 b + 1) = w"
  shows "mmap_v3c_file (b # sample_stream w us @ post) (1 + length (sample_stream w us)) m
       = Inr (True, file_units w 1 us m)"
  using v3c_loop_sample_stream [OF assms(1,2), of "1 + length (sample_stream w us)" "[b]" post m] assms(3)
  by (simp add: mmap_v3c_file_def)

subsection \<open>What is filed, read back through the spans\<close>

text \<open>
  The content of a parsed map, independently of offsets: per unit type, the headers and the
  bytes that the recorded spans cut out of the file.
\<close>

fun units_of :: "V3C_UNIT_TYPE \<Rightarrow> v3c_file_map \<Rightarrow> v3c_unit_info list" where
  "units_of V3C_VPS m = vps_units m"
| "units_of V3C_AD m = ad_units m"
| "units_of V3C_OVD m = ovd_units m"
| "units_of V3C_GVD m = gvd_units m"
| "units_of V3C_AVD m = avd_units m"
| "units_of V3C_PVD m = pvd_units m"
| "units_of V3C_CAD m = cad_units m"

definition cut_out :: "u8 list \<Rightarrow> nat \<times> nat \<Rightarrow> u8 list" where
  "cut_out buf s = take (snd s) (drop (fst s) buf)"

definition nal_contents :: "u8 list \<Rightarrow> v3c_unit_info \<Rightarrow> u8 list list" where
  "nal_contents buf u = map (\<lambda>i. cut_out buf (nal_location i, nal_size i)) (ui_nal_infos u)"

definition stored :: "u8 list \<Rightarrow> V3C_UNIT_TYPE \<Rightarrow> v3c_file_map \<Rightarrow> (v3c_unit_header \<times> u8 list list) list" where
  "stored buf t m = map (\<lambda>u. (ui_header u, nal_contents buf u)) (units_of t m)"

fun unit_content :: "v3c_unit \<Rightarrow> V3C_UNIT_TYPE \<times> v3c_unit_header \<times> u8 list list" where
  "unit_content (Parameter_Set bytes) = (V3C_VPS, empty_header\<lparr>vuh_unit_type := unit_code V3C_VPS\<rparr>, [bytes])"
| "unit_content (Nal_Units t h prec nals) = (t, lossy_header h, nals)"

definition contents_of :: "V3C_UNIT_TYPE \<Rightarrow> v3c_unit list \<Rightarrow> (v3c_unit_header \<times> u8 list list) list" where
  "contents_of t us = map snd (filter (\<lambda>c. fst c = t) (map unit_content us))"

lemma units_of_push:
  "t \<noteq> V3C_VPS \<Longrightarrow>
   units_of t' (push_unit (unit_code t) u m) = units_of t' m @ (if t' = t then [u] else [])"
  by (cases t; cases t') (simp_all add: push_unit_def)

lemma spans_contents:
  "map (cut_out (pre @ frames (be_bytes w) xs @ post)) (spans w (length pre) xs) = xs"
proof (rule nth_equalityI)
  fix i assume "i < length (map (cut_out (pre @ frames (be_bytes w) xs @ post)) (spans w (length pre) xs))"
  then show "map (cut_out (pre @ frames (be_bytes w) xs @ post)) (spans w (length pre) xs) ! i = xs ! i"
    using spans_content [of "be_bytes w" w i xs pre post] by (simp add: cut_out_def case_prod_beta)
qed simp

lemma stored_file_unit:
  assumes "unit_ok w u"
  shows "stored (pre @ unit_payload u @ post) t (file_unit (length pre) u m)
   = stored (pre @ unit_payload u @ post) t m @ contents_of t [u]"
proof (cases u)
  case (Parameter_Set bytes)
  then show ?thesis
    by (cases t) (simp_all add: stored_def contents_of_def nal_contents_def new_unit_def cut_out_def)
next
  case (Nal_Units t' h prec nals)
  then show ?thesis
    using spans_contents [of "pre @ header_part t' h prec" prec nals post] assms
    by (cases "t' = t") (simp_all add: stored_def contents_of_def nal_contents_def new_unit_def units_of_push o_def case_prod_beta)
qed

lemma stored_file_units:
  assumes "\<forall>u \<in> set us. unit_ok w u"
  shows "stored (pre @ sample_stream w us @ post) t (file_units w (length pre) us m)
   = stored (pre @ sample_stream w us @ post) t m @ contents_of t us"
  using assms
proof (induction us arbitrary: pre m)
  case Nil
  then show ?case by (simp add: contents_of_def)
next
  case (Cons u us)
  let ?pre = "pre @ be_bytes w (word_of_nat (length (unit_payload u)))"
  have s: "pre @ sample_stream w (u # us) @ post = ?pre @ unit_payload u @ sample_stream w us @ post"
    by (simp add: sample_stream_def)
  show ?case
    using Cons.IH [of "?pre @ unit_payload u" "file_unit (length ?pre) u m"]
      stored_file_unit [of w u ?pre "sample_stream w us @ post" t m] Cons.prems
    unfolding s by (simp add: contents_of_def add.assoc)
qed

subsection \<open>Parsing what the format describes\<close>

lemma parse_sample_stream_stored:
  assumes "w \<in> {2, 3}" and "\<forall>u \<in> set us. unit_ok w u" and "unat (drop_bit 5 b + 1) = w"
    and "file = b # sample_stream w us @ post" and "len = 1 + length (sample_stream w us)"
  shows "\<exists>m. mmap_v3c_file file len empty_map = Inr (True, m) \<and> (\<forall>t. stored file t m = contents_of t us)"
proof -
  have "stored file t empty_map = []" for t
    by (cases t) (simp_all add: stored_def empty_map_def)
  then show ?thesis
    using mmap_sample_stream [OF assms(1-3), of post empty_map]
      stored_file_units [OF assms(2), of "[b]" post _ empty_map] assms(4,5) by simp
qed


definition sample_units :: "v3c_unit list" where
  "sample_units =
     [Parameter_Set [7, 1, 2],
      Nal_Units V3C_AD \<lparr>vuh_unit_type = 1,
        vuh = Ad \<lparr>ad_vuh_v3c_parameter_set_id = 3, ad_vuh_atlas_id = 5\<rparr>\<rparr> 2 [[1, 2, 3], []],
      Nal_Units V3C_GVD \<lparr>vuh_unit_type = 3,
        vuh = Gvd \<lparr>gvd_vuh_v3c_parameter_set_id = 3, gvd_vuh_atlas_id = 5,
                   gvd_vuh_map_index = 9, gvd_vuh_auxiliary_video_flag = True\<rparr>\<rparr> 4 [[9]]]"

lemma sample_units_ok: "\<forall>u \<in> set sample_units. unit_ok 3 u"
  by (simp add: sample_units_def read_unit_type_def header_ok_def is_atlas_def header_part_def
      v3c_header_bytes_def Let_def)


end
