(* ===== verification/V3C_Gop.thy ===== *)
theory V3C_Gop
  imports V3C_Receive V3C_Stream
begin

section \<open>Four streams filling one file map\<close>

text \<open>
  The receiving end keeps one file map and one heap for the four media streams (AD, OVD,
  GVD, AVD), whose frames arrive in any order. \<open>receive_on\<close> is one arrival:
  \<open>copy_rtp_payload\<close> on the unit list of the stream's type. The invariant \<open>map_ok\<close> adds to the
  per-stream invariant that no heap buffer belongs to two streams, and the
  abstraction \<open>received\<close> is what each stream has received.
\<close>

definition media :: "V3C_UNIT_TYPE set" where
  "media = {V3C_AD, V3C_OVD, V3C_GVD, V3C_AVD}"

fun set_units :: "V3C_UNIT_TYPE \<Rightarrow> v3c_unit_info list \<Rightarrow> v3c_file_map \<Rightarrow> v3c_file_map" where
  "set_units V3C_AD us m = m\<lparr>ad_units := us\<rparr>"
| "set_units V3C_OVD us m = m\<lparr>ovd_units := us\<rparr>"
| "set_units V3C_GVD us m = m\<lparr>gvd_units := us\<rparr>"
| "set_units V3C_AVD us m = m\<lparr>avd_units := us\<rparr>"
| "set_units _ us m = m"

definition receive_on ::
  "(V3C_UNIT_TYPE \<Rightarrow> nat) \<Rightarrow> V3C_UNIT_TYPE \<times> u8 list \<Rightarrow> v3c_file_map \<times> heap \<Rightarrow> (v3c_file_map \<times> heap) res" where
  "receive_on n = (\<lambda>(t, x) (m, h).
     rbind (copy_rtp_payload (n t) x (units_of t m, h)) (\<lambda>(us, h). Inr (set_units t us m, h)))"

lemma units_of_set [simp]:
  "t \<in> media \<Longrightarrow> units_of t' (set_units t us m) = (if t' = t then us else units_of t' m)"
  by (cases t'; auto simp: media_def)

lemma vps_units_set [simp]: "vps_units (set_units t us m) = vps_units m"
  by (cases t) auto

lemma media_simps [simp]:
  "V3C_AD \<in> media" "V3C_OVD \<in> media" "V3C_GVD \<in> media" "V3C_AVD \<in> media"
  by (simp_all add: media_def)

subsection \<open>The invariant\<close>

definition map_ok :: "(V3C_UNIT_TYPE \<Rightarrow> nat) \<Rightarrow> v3c_file_map \<times> heap \<Rightarrow> bool" where
  "map_ok n = (\<lambda>(m, h).
     (\<forall>t \<in> media. stream_ok (n t) (unit_code t) h (units_of t m)) \<and>
     (\<forall>t \<in> media. \<forall>t' \<in> media. t \<noteq> t' \<longrightarrow>
        set (stream_pointers (units_of t m)) \<inter> set (stream_pointers (units_of t' m)) = {}))"

definition received :: "v3c_file_map \<times> heap \<Rightarrow> V3C_UNIT_TYPE \<Rightarrow> u8 list list" where
  "received = (\<lambda>(m, h) t. if t \<in> media then payloads h (units_of t m) else [])"

definition arrive :: "V3C_UNIT_TYPE \<times> u8 list \<Rightarrow> (V3C_UNIT_TYPE \<Rightarrow> u8 list list) \<Rightarrow> V3C_UNIT_TYPE \<Rightarrow> u8 list list" where
  "arrive = (\<lambda>(t, x) v. v(t := v t @ [x]))"

definition heap_grows :: "heap \<Rightarrow> heap \<Rightarrow> bool" where
  "heap_grows h h' \<longleftrightarrow> (\<forall>p y. h_cells h p = Some y \<longrightarrow> h_cells h' p = Some y)"

lemma heap_grows_refl [simp]: "heap_grows h h"
  by (simp add: heap_grows_def)

lemma heap_grows_trans: "heap_grows h h' \<Longrightarrow> heap_grows h' h'' \<Longrightarrow> heap_grows h h''"
  by (simp add: heap_grows_def)

text \<open>A stream does not notice what the others do to the heap.\<close>

lemma stream_live:
  assumes "stream_ok n t h us" and "p \<in> set (stream_pointers us)"
  shows "h_cells h p \<noteq> None"
proof -
  obtain u where "u \<in> set us" "p \<in> set (unit_pointers u)"
    using assms(2) by (auto simp: stream_pointers_def)
  then show ?thesis
    using assms(1) unit_holds_live [of h u _ p] unfolding stream_ok_def by blast
qed

lemma unit_holds_grow:
  assumes "unit_holds h u ns" and "heap_grows h h'"
  shows "unit_holds h' u ns"
proof -
  have "h_cells h' (nal_buf i) = h_cells h (nal_buf i)" if "i \<in> set (ui_nal_infos u)" for i
    using unit_holds_live [OF assms(1), of "nal_buf i"] that assms(2) by (auto simp: unit_pointers_def heap_grows_def)
  then show ?thesis
    using assms(1) by (auto simp: unit_holds_def intro: nals_hold_mono)
qed

lemma stream_ok_grow:
  assumes "stream_ok n t h us" and "heap_ok h'"
    and grow: "heap_grows h h'"
  shows "stream_ok n t h' us" and "payloads h' us = payloads h us"
proof -
  show "stream_ok n t h' us"
    using assms(1,2) unit_holds_grow [OF _ grow] unfolding stream_ok_def by blast
  have "h_cells h' p = h_cells h p" if "p \<in> set (concat (map unit_pointers us))" for p
    using stream_live [OF assms(1), of p] that grow by (auto simp: stream_pointers_def heap_grows_def)
  then show "payloads h' us = payloads h us"
    by (auto simp: payloads_def)
qed

lemma receive_on_step:
  assumes n: "\<forall>t \<in> media. 0 < n t" and ok: "map_ok n s" and t: "fst f \<in> media"
  shows "\<exists>s'. receive_on n f s = Inr s' \<and> map_ok n s' \<and> received s' = arrive f (received s)
    \<and> vps_units (fst s') = vps_units (fst s) \<and> heap_grows (snd s) (snd s')"
proof -
  obtain t x m h where f: "f = (t, x)" and s: "s = (m, h)" by fastforce
  have t': "t \<in> media" and n': "0 < n t" using t n by (auto simp: f)
  have st: "stream_ok (n t) (unit_code t) h (units_of t m)"
    using ok t' by (simp add: map_ok_def s)
  obtain us h' p where c: "copy_rtp_payload (n t) x (units_of t m, h) = Inr (us, h')"
    and us: "stream_ok (n t) (unit_code t) h' us" "payloads h' us = payloads h (units_of t m) @ [x]"
    and grow: "heap_grows h h'"
    and p: "stream_pointers us = stream_pointers (units_of t m) @ [p]" "h_cells h p = None"
    using copy_rtp_payload_step [OF n' st, of x] unfolding heap_grows_def by blast
  have hok: "heap_ok h'" using us(1) by (simp add: stream_ok_def)
  let ?m = "set_units t us m"
  have others: "stream_ok (n t'') (unit_code t'') h (units_of t'' m)" if "t'' \<in> media" for t''
    using ok that by (simp add: map_ok_def s)
  have "stream_ok (n t'') (unit_code t'') h' (units_of t'' ?m)" if "t'' \<in> media" for t''
    using us(1) stream_ok_grow(1) [OF others [OF that] hok grow] t' by simp
  moreover have "p \<notin> set (stream_pointers (units_of t'' m))" if "t'' \<in> media" for t''
    using stream_live [OF others [OF that], of p] p(2) by blast
  moreover have dis: "set (stream_pointers (units_of t1 m)) \<inter> set (stream_pointers (units_of t2 m)) = {}"
    if "t1 \<in> media" "t2 \<in> media" "t1 \<noteq> t2" for t1 t2
    using ok that unfolding map_ok_def s prod.case by blast
  ultimately have "map_ok n (?m, h')"
    unfolding map_ok_def prod.case units_of_set [OF t'] using p(1) t'
    by (intro conjI ballI impI) auto
  moreover have "received (?m, h') = arrive f (received (m, h))"
    using us(2) stream_ok_grow(2) [OF others hok grow] t'
    by (auto simp: received_def arrive_def f fun_eq_iff)
  moreover have "receive_on n f s = Inr (?m, h')"
    by (simp add: receive_on_def f s c)
  ultimately show ?thesis using grow by (simp add: s)
qed

text \<open>
  The frames of the four streams, in whatever order they come: no call faults, the
  invariant is kept, parameter sets and buffers that were there stay.
\<close>

definition since :: "(V3C_UNIT_TYPE \<Rightarrow> nat) \<Rightarrow> v3c_file_map \<times> heap \<Rightarrow> v3c_file_map \<times> heap \<Rightarrow> bool" where
  "since n s0 s \<longleftrightarrow> map_ok n s \<and> vps_units (fst s) = vps_units (fst s0) \<and> heap_grows (snd s0) (snd s)"

lemma since_refl: "map_ok n s \<Longrightarrow> since n s s"
  by (simp add: since_def)

interpretation arrivals: frame_hook
  "receive_on (\<lambda>t. Suc (n t))" "since (\<lambda>t. Suc (n t)) s0" "\<lambda>f. fst f \<in> media" received arrive
  for n s0
proof
  fix s :: "v3c_file_map \<times> heap" and f :: "V3C_UNIT_TYPE \<times> u8 list"
  assume "since (\<lambda>t. Suc (n t)) s0 s" "fst f \<in> media"
  then show "\<exists>s'. receive_on (\<lambda>t. Suc (n t)) f s = Inr s' \<and> since (\<lambda>t. Suc (n t)) s0 s'
      \<and> received s' = arrive f (received s)"
    using receive_on_step [of "\<lambda>t. Suc (n t)" s f] heap_grows_trans by (fastforce simp: since_def)
qed

text \<open>Every frame of stream \<open>t\<close>, in order.\<close>

definition stream_frames :: "(V3C_UNIT_TYPE \<times> u8 list) list \<Rightarrow> V3C_UNIT_TYPE \<Rightarrow> u8 list list" where
  "stream_frames fs t = map snd (filter (\<lambda>f. fst f = t) fs)"

lemma fold_arrive: "fold arrive fs v t = v t @ stream_frames fs t"
  by (induction fs arbitrary: v) (auto simp: arrive_def stream_frames_def split: prod.splits)

text \<open>The state to start from: \<open>init_mmap\<close>, with any parameter sets filed, and any heap.\<close>

lemma init_mmap_ok:
  assumes "\<forall>t \<in> media. 0 < n t" and "heap_ok h"
  shows "map_ok n (init_mmap\<lparr>vps_units := vs\<rparr>, h)" and "received (init_mmap\<lparr>vps_units := vs\<rparr>, h) = (\<lambda>_. [])"
proof -
  show "map_ok n (init_mmap\<lparr>vps_units := vs\<rparr>, h)"
    using assms
    by (auto simp: map_ok_def media_def init_mmap_def Let_def stream_ok_def new_unit_def unit_holds_def
        empty_map_def unit_pointers_def stream_pointers_def next_unit_def empty_header_def
        intro: exI [of _ "[]"])
  show "received (init_mmap\<lparr>vps_units := vs\<rparr>, h) = (\<lambda>_. [])"
    by (auto simp: received_def media_def init_mmap_def Let_def new_unit_def empty_map_def
        payloads_def unit_pointers_def fun_eq_iff)
qed

lemma init_mmap_vps: "init_mmap\<lparr>vps_units := []\<rparr> = init_mmap"
  by (simp add: init_mmap_def empty_map_def Let_def)

lemma arrivals_run:
  assumes "\<forall>t. 0 < n t" and "map_ok n s" and "\<forall>f \<in> set fs. fst f \<in> media"
  shows "\<exists>s'. run_hook (receive_on n) fs s = Inr s' \<and> since n s s'
    \<and> received s' = (\<lambda>t. received s t @ stream_frames fs t)"
proof -
  have n: "(\<lambda>t. Suc (n t - 1)) = n" using assms(1) by (simp add: fun_eq_iff)
  show ?thesis
    using arrivals.run_ok [where n = "\<lambda>t. n t - 1" and s0 = s, of s fs] assms(2,3) since_refl
    unfolding n fold_arrive [abs_def] by (auto simp: fun_eq_iff fold_arrive)
qed

subsection \<open>What unit \<open>k\<close> of a stream holds\<close>

lemma map_ok_header:
  assumes "map_ok n (m, h)" and "t \<in> media" and "k < length (units_of t m)"
  shows "ui_header (units_of t m ! k) = ui_header (next_unit (unit_code t) k)"
proof -
  have "stream_ok (n t) (unit_code t) h (units_of t m)"
    using assms(1,2) by (simp add: map_ok_def)
  from stream_header [OF this assms(3)] show ?thesis .
qed

lemma map_ok_unit:
  assumes ok: "map_ok n (m, h)" and t: "t \<in> media" and k: "k < length (units_of t m)"
  shows "unit_holds h (units_of t m ! k) (take (n t) (drop (k * n t) (received (m, h) t)))"
proof -
  have st: "stream_ok (n t) (unit_code t) h (units_of t m)"
    using ok t by (simp add: map_ok_def)
  then obtain ns where "unit_holds h (units_of t m ! k) ns"
    using k nth_mem unfolding stream_ok_def by blast
  then show ?thesis
    using unit_holds_payloads [of h "units_of t m ! k" ns] stream_ok_nth [OF st k] t
    by (simp add: received_def)
qed

lemma next_unit_header_ok:
  assumes "t \<in> media" and "k < 16"
  shows "header_ok t (ui_header (next_unit (unit_code t) k))"
    "lossy_header (ui_header (next_unit (unit_code t) k)) = ui_header (next_unit (unit_code t) k)"
proof -
  have "unat (word_of_nat k :: u8) < 16"
    using assms(2) by (simp add: unsigned_of_nat take_bit_nat_eq_self)
  then show "header_ok t (ui_header (next_unit (unit_code t) k))"
    "lossy_header (ui_header (next_unit (unit_code t) k)) = ui_header (next_unit (unit_code t) k)"
    using assms(1)
    by (auto simp: media_def next_unit_def new_unit_def empty_header_def header_ok_def Let_def lossy_header_def)
qed

lemma next_unit_header_bytes:
  assumes "t \<in> media"
  shows "\<exists>bs. v3c_header_bytes (ui_header (next_unit (unit_code t) k)) = Inr bs"
  using assms
  by (auto simp: media_def next_unit_def new_unit_def empty_header_def v3c_header_bytes_def Let_def)

lemma unit_holds_length:
  "unit_holds h u xs \<Longrightarrow> length (ui_nal_infos u) = length xs \<and> ui_ptr u = length (concat xs)"
  using nals_hold_length by (auto simp: unit_holds_def)

text \<open>A unit is ready when its stream has delivered its share.\<close>

lemma length_payloads_le:
  assumes "\<forall>u \<in> set us. length (ui_nal_infos u) \<le> n"
  shows "length (payloads h us) \<le> length us * n"
  using assms by (induction us) (auto simp: payloads_def unit_pointers_def)

lemma unit_ready_iff:
  assumes ok: "map_ok n (m, h)" and t: "t \<in> media" and n: "0 < n t"
  shows "k < length (units_of t m) \<and> ui_ready (units_of t m ! k) \<longleftrightarrow> Suc k * n t \<le> length (received (m, h) t)"
proof -
  let ?us = "units_of t m" and ?r = "received (m, h) t"
  have st: "stream_ok (n t) (unit_code t) h ?us"
    using ok t by (simp add: map_ok_def)
  have r: "?r = payloads h ?us" using t by (simp add: received_def)
  have each: "length (ui_nal_infos u) \<le> n t" "ui_ready u \<longleftrightarrow> length (ui_nal_infos u) = n t" if "u \<in> set ?us" for u
    using st that by (simp_all add: stream_ok_def)
  have share: "length (ui_nal_infos (?us ! k)) = min (n t) (length ?r - k * n t)" if "k < length ?us"
    using unit_holds_length [OF map_ok_unit [OF ok t that]] by simp
  show ?thesis
  proof
    assume "k < length ?us \<and> ui_ready (?us ! k)"
    then show "Suc k * n t \<le> length ?r"
      using share each(2) [of "?us ! k"] n by auto
  next
    assume full: "Suc k * n t \<le> length ?r"
    also have "length ?r \<le> length ?us * n t"
      using length_payloads_le [of ?us "n t" h] each(1) r by simp
    finally have "Suc k \<le> length ?us" using n by (simp only: mult_le_cancel2)
    then have k: "k < length ?us" by simp
    then show "k < length ?us \<and> ui_ready (?us ! k)"
      using share each(2) [of "?us ! k"] full by auto
  qed
qed

lemma is_gop_ready_units:
  "is_gop_ready k m \<longleftrightarrow> k < length (vps_units m)
     \<and> (\<forall>t \<in> media. k < length (units_of t m) \<and> ui_ready (units_of t m ! k))"
  by (auto simp: is_gop_ready_def media_def)

lemma is_gop_ready_iff:
  assumes "map_ok n (m, h)" and "\<forall>t \<in> media. 0 < n t"
  shows "is_gop_ready k m \<longleftrightarrow> k < length (vps_units m)
    \<and> (\<forall>t \<in> media. Suc k * n t \<le> length (received (m, h) t))"
  using unit_ready_iff [OF assms(1)] assms(2) unfolding is_gop_ready_units by blast

subsection \<open>The receiving end as a whole\<close>

text \<open>
  C4: frames of the four media streams, in any order and any interleaving, fed to
  \<open>copy_rtp_payload\<close> from the state that \<open>init_mmap\<close> sets up. No call goes wrong; each stream's
  units hold, through the heap, exactly the payloads of its frames in order of
  arrival; unit \<open>k\<close> of a stream holds the frames \<open>k * n\<close> to \<open>(k + 1) * n - 1\<close>; and it is marked
  ready precisely when that many frames of the stream have come.
\<close>

theorem arrivals_any_order:
  assumes "\<forall>t. 0 < n t" and "\<forall>f \<in> set fs. fst f \<in> media"
  shows "\<exists>m h. run_hook (receive_on n) fs (init_mmap, heap_empty) = Inr (m, h) \<and>
    (\<forall>t \<in> media. payloads h (units_of t m) = stream_frames fs t \<and>
      (\<forall>k < length (units_of t m). payloads h [units_of t m ! k] = take (n t) (drop (k * n t) (stream_frames fs t))) \<and>
      (\<forall>k. k < length (units_of t m) \<and> ui_ready (units_of t m ! k) \<longleftrightarrow> Suc k * n t \<le> length (stream_frames fs t)))"
proof -
  obtain m h where run: "run_hook (receive_on n) fs (init_mmap, heap_empty) = Inr (m, h)"
    and ok: "map_ok n (m, h)" and r: "received (m, h) = stream_frames fs"
    using arrivals_run [OF assms(1) init_mmap_ok(1) assms(2), of heap_empty "[]"]
      init_mmap_ok(2) [of n heap_empty "[]"] assms(1)
    unfolding init_mmap_vps by (auto simp: since_def)
  have "payloads h (units_of t m) = stream_frames fs t" if "t \<in> media" for t
    using r that by (simp add: received_def fun_eq_iff) metis
  then show ?thesis
    using run unit_ready_iff [OF ok] map_ok_unit [OF ok, unfolded r] unit_holds_payloads assms(1)
    unfolding r by (intro exI [of _ m] exI [of _ h]) blast
qed

theorem arrivals_any_order_witness:
  "\<exists>m h. run_hook (receive_on (\<lambda>_. 2)) [(V3C_GVD, [1]), (V3C_AD, [2, 3]), (V3C_GVD, []), (V3C_GVD, [4])]
       (init_mmap, heap_empty) = Inr (m, h) \<and>
    (\<forall>t \<in> media. payloads h (units_of t m)
        = stream_frames [(V3C_GVD, [1]), (V3C_AD, [2, 3]), (V3C_GVD, []), (V3C_GVD, [4])] t \<and>
      (\<forall>k < length (units_of t m). payloads h [units_of t m ! k] = take 2 (drop (k * 2)
         (stream_frames [(V3C_GVD, [1]), (V3C_AD, [2, 3]), (V3C_GVD, []), (V3C_GVD, [4])] t))) \<and>
      (\<forall>k. k < length (units_of t m) \<and> ui_ready (units_of t m ! k) \<longleftrightarrow> Suc k * 2
         \<le> length (stream_frames [(V3C_GVD, [1]), (V3C_AD, [2, 3]), (V3C_GVD, []), (V3C_GVD, [4])] t)))"
  by (rule arrivals_any_order) simp_all

end
