(* ===== verification/V3C_Rebuild.thy ===== *)
theory V3C_Rebuild
  imports V3C_Gop
begin

section \<open>Rebuilding a V3C file from received units\<close>

text \<open>
  \<open>create_v3c_unit\<close> and \<open>reconstruct_v3c_gop\<close> of \<open>uvgrtp/v3c_util.cc\<close>: a group of
  pictures (one parameter set, one unit of each of the four media) is written into an
  output buffer as a V3C sample stream, and the heap buffers of its NAL units are freed.

  The state is the output buffer, the write offset and the heap. \<open>write_nals_eq\<close>,
  \<open>create_v3c_unit_eq\<close> and \<open>reconstruct_v3c_gop_eq\<close> say which bytes are written where;
  the specification they refer to is \<open>sample_stream\<close> of \<open>V3C_Stream\<close>.
\<close>

subsection \<open>The code\<close>

text \<open>
  The loop over the NAL units. \<open>delete[] p.buf; p.buf = nullptr\<close> acts on the heap and on the
  unit that was passed; the updated entries are returned.
\<close>

fun write_nals ::
  "nat \<Rightarrow> nal_info list \<Rightarrow> u8 list \<times> nat \<times> heap \<Rightarrow> (nal_info list \<times> u8 list \<times> nat \<times> heap) res" where
  "write_nals nal_precision [] s = (case s of (buf, ptr, h) \<Rightarrow> Inr ([], buf, ptr, h))"
| "write_nals nal_precision (p # ps) s = (case s of (buf, ptr, h) \<Rightarrow>
     rbind (convert_size_big_endian (word_of_nat (nal_size p)) (replicate nal_precision 0) nal_precision)
       (\<lambda>nal_size_arr.
     rbind (wr_bytes buf ptr nal_size_arr) (\<lambda>buf.
     let ptr = ptr + nal_precision in
     rbind (heap_load h (nal_buf p) (nal_size p)) (\<lambda>nal.
     rbind (wr_bytes buf ptr nal) (\<lambda>buf.
     let ptr = ptr + nal_size p in
     rbind (heap_free (nal_buf p) h) (\<lambda>h.
     rbind (write_nals nal_precision ps (buf, ptr, h)) (\<lambda>(ps, s).
     Inr (p\<lparr>nal_buf := nullptr\<rparr> # ps, s))))))))"

definition create_v3c_unit ::
  "v3c_unit_info \<Rightarrow> nat \<Rightarrow> nat \<Rightarrow> u8 list \<times> nat \<times> heap \<Rightarrow> (v3c_unit_info \<times> u8 list \<times> nat \<times> heap) res" where
  "create_v3c_unit current_unit v3c_precision nal_precision = (\<lambda>(buf, ptr, h).
     let v3c_type = vuh_unit_type (ui_header current_unit);
         atlas = (v3c_type = unit_code V3C_AD \<or> v3c_type = unit_code V3C_CAD);
         v3c_size_int = 4 + word_of_nat (ui_ptr current_unit)
             + word_of_nat (length (ui_nal_infos current_unit)) * word_of_nat nal_precision :: u32;
         v3c_size_int = (if atlas then v3c_size_int + 1 else v3c_size_int) in
     rbind (convert_size_big_endian v3c_size_int (replicate v3c_precision 0) v3c_precision)
       (\<lambda>v3c_size_arr.
     rbind (wr_bytes buf ptr v3c_size_arr) (\<lambda>buf.
     let ptr = ptr + v3c_precision in
     rbind (v3c_header_bytes (ui_header current_unit)) (\<lambda>v3c_header.
     rbind (wr_bytes buf ptr v3c_header) (\<lambda>buf.
     let ptr = ptr + 4;
         nal_size_precision_arr = ucast (push_bit 5 (word_of_nat nal_precision - 1 :: u32)) :: u8 in
     rbind (if atlas
            then rbind (wr_bytes buf ptr [nal_size_precision_arr]) (\<lambda>buf. Inr (buf, ptr + 1))
            else Inr (buf, ptr)) (\<lambda>(buf, ptr).
     rbind (write_nals nal_precision (ui_nal_infos current_unit) (buf, ptr, h)) (\<lambda>(infos, s).
     Inr (current_unit\<lparr>ui_nal_infos := infos\<rparr>, s))))))))"

text \<open>
  The size computation at the start of \<open>reconstruct_v3c_gop\<close> is, line for line, the one of
  \<open>get_gop_size\<close>. The units are copied out of the map before they are written, so the map
  itself is unchanged: what is updated is the buffer, the offset and the heap.
\<close>

definition reconstruct_v3c_gop ::
  "bool \<Rightarrow> v3c_file_map \<Rightarrow> nat \<Rightarrow> u8 list \<times> nat \<times> heap \<Rightarrow> (nat \<times> u8 list \<times> nat \<times> heap) res" where
  "reconstruct_v3c_gop hdr_byte mmap index = (\<lambda>(buf, ptr, h).
     rbind (get_gop_size hdr_byte index mmap) (\<lambda>gop_size.
     rbind (if hdr_byte then rbind (wr_bytes buf ptr [64]) (\<lambda>buf. Inr (buf, ptr + 1))
            else Inr (buf, ptr)) (\<lambda>(buf, ptr).
     rbind (vec_at (vps_units mmap) index) (\<lambda>current_unit.
     rbind (vec_at (ui_nal_infos current_unit) 0) (\<lambda>vps0.
     let v3c_size_int = word_of_nat (nal_size vps0) :: u32 in
     rbind (convert_size_big_endian v3c_size_int (replicate V3C_SIZE_PRECISION 0) V3C_SIZE_PRECISION)
       (\<lambda>v3c_size_arr.
     rbind (wr_bytes buf ptr v3c_size_arr) (\<lambda>buf.
     let ptr = ptr + V3C_SIZE_PRECISION in
     rbind (vec_back (ui_nal_infos current_unit)) (\<lambda>vps_back.
     rbind (heap_load h (nal_buf vps_back) (unat v3c_size_int)) (\<lambda>vps.
     rbind (wr_bytes buf ptr vps) (\<lambda>buf.
     let ptr = ptr + unat v3c_size_int in
     rbind (vec_at (ad_units mmap) index) (\<lambda>current_unit.
     rbind (create_v3c_unit current_unit V3C_SIZE_PRECISION ATLAS_NAL_SIZE_PRECISION (buf, ptr, h)) (\<lambda>(_, s).
     rbind (vec_at (ovd_units mmap) index) (\<lambda>current_unit.
     rbind (create_v3c_unit current_unit V3C_SIZE_PRECISION VIDEO_NAL_SIZE_PRECISION s) (\<lambda>(_, s).
     rbind (vec_at (gvd_units mmap) index) (\<lambda>current_unit.
     rbind (create_v3c_unit current_unit V3C_SIZE_PRECISION VIDEO_NAL_SIZE_PRECISION s) (\<lambda>(_, s).
     rbind (vec_at (avd_units mmap) index) (\<lambda>current_unit.
     rbind (create_v3c_unit current_unit V3C_SIZE_PRECISION VIDEO_NAL_SIZE_PRECISION s) (\<lambda>(_, s).
     Inr (gop_size, s)))))))))))))))))))"

subsection \<open>The NAL loop\<close>

definition heap_drop :: "pointer set \<Rightarrow> heap \<Rightarrow> heap" where
  "heap_drop ps h = h\<lparr>h_cells := h_cells h |` (- ps)\<rparr>"

lemma heap_drop_simps [simp]:
  "heap_drop {} h = h" "heap_drop ps (heap_drop qs h) = heap_drop (ps \<union> qs) h"
  "p \<notin> ps \<Longrightarrow> h_cells (heap_drop ps h) p = h_cells h p"
  by (auto simp: heap_drop_def restrict_map_def fun_eq_iff)

lemma heap_drop_None [simp]: "h_cells h p = None \<Longrightarrow> h_cells (heap_drop ps h) p = None"
  by (simp add: heap_drop_def restrict_map_def)

lemma nals_hold_drop:
  "nals_hold h l is xs \<Longrightarrow> nal_buf ` set is \<inter> ps = {} \<Longrightarrow> nals_hold (heap_drop ps h) l is xs"
  by (erule nals_hold_mono) (auto intro!: heap_drop_simps(3))

lemma unit_holds_drop:
  "unit_holds h u xs \<Longrightarrow> set (unit_pointers u) \<inter> ps = {} \<Longrightarrow> unit_holds (heap_drop ps h) u xs"
  by (auto simp: unit_holds_def unit_pointers_def intro: nals_hold_drop)

lemma heap_load_Inr: "h_cells h p = Some x \<Longrightarrow> n = length x \<Longrightarrow> heap_load h p n = Inr x"
  by (simp add: heap_load_def rd_bytes_def)

lemma heap_free_drop: "h_cells h p = Some x \<Longrightarrow> p \<noteq> nullptr \<Longrightarrow> heap_free p h = Inr (heap_drop {p} h)"
  by (simp add: heap_free_def heap_drop_def restrict_complement_singleton_eq)

lemma length_frames_be: "length (frames (be_bytes w) xs) = length xs * w + length (concat xs)"
  by (induction xs) auto

lemma write_nals_eq:
  assumes "nals_hold h l is xs" and "distinct (map nal_buf is)" and "h_cells h nullptr = None"
    and "prec \<le> 4" and "length (frames (be_bytes prec) xs) \<le> length rest"
  shows "write_nals prec is (pre @ rest, length pre, h)
    = Inr (map (\<lambda>i. i\<lparr>nal_buf := nullptr\<rparr>) is,
           (pre @ frames (be_bytes prec) xs) @ drop (length (frames (be_bytes prec) xs)) rest,
           length pre + length (frames (be_bytes prec) xs), heap_drop (nal_buf ` set is) h)"
  using assms
proof (induction "is" arbitrary: h l xs pre rest)
  case Nil
  then show ?case by (cases xs) auto
next
  case (Cons i "is")
  note hold = Cons.prems(1)
  then obtain x xs' where xs: "xs = x # xs'" by (cases xs) auto
  let ?fs = "frames (be_bytes prec) xs'"
  define sz where "sz = be_bytes prec (word_of_nat (length x))"
  define pre1 where "pre1 = pre @ sz"
  define rest1 where "rest1 = drop prec rest"
  define pre2 where "pre2 = pre1 @ x"
  define rest2 where "rest2 = drop (length x) rest1"
  have i: "nal_size i = length x" "h_cells h (nal_buf i) = Some x" "nal_buf i \<noteq> nullptr"
    using Cons.prems by (auto simp: xs)
  have room: "prec + length x + length ?fs \<le> length rest" and sz: "length sz = prec"
    using Cons.prems(5) by (simp_all add: xs sz_def)
  have wr: "wr_bytes (pre @ rest) (length pre) sz = Inr (pre1 @ rest1)"
    "wr_bytes (pre1 @ rest1) (length pre1) x = Inr (pre2 @ rest2)"
    using room sz wr_bytes_split [of pre "length pre" sz rest] wr_bytes_split [of pre1 "length pre1" x rest1]
    by (simp_all add: pre1_def rest1_def pre2_def rest2_def)
  have len: "length pre + prec = length pre1" "length pre1 + length x = length pre2"
    using sz by (simp_all add: pre1_def pre2_def)
  have conv: "convert_size_big_endian (word_of_nat (length x)) (replicate prec 0) prec = Inr sz"
    using Cons.prems(4) by (simp add: convert_size_big_endian_eq sz_def)
  have mem: "heap_load h (nal_buf i) (length x) = Inr x" "heap_free (nal_buf i) h = Inr (heap_drop {nal_buf i} h)"
    using i by (simp_all add: heap_load_Inr heap_free_drop)
  have "nals_hold (heap_drop {nal_buf i} h) (l + length x) is xs'"
    using hold Cons.prems(2) by (intro nals_hold_drop) (auto simp: xs)
  then have IH: "write_nals prec is (pre2 @ rest2, length pre2, heap_drop {nal_buf i} h)
    = Inr (map (\<lambda>i. i\<lparr>nal_buf := nullptr\<rparr>) is, (pre2 @ ?fs) @ drop (length ?fs) rest2,
        length pre2 + length ?fs, heap_drop (nal_buf ` set is) (heap_drop {nal_buf i} h))"
    using Cons.prems room by (intro Cons.IH) (auto simp: rest1_def rest2_def)
  have "write_nals prec (i # is) (pre @ rest, length pre, h)
    = Inr (map (\<lambda>i. i\<lparr>nal_buf := nullptr\<rparr>) (i # is), (pre2 @ ?fs) @ drop (length ?fs) rest2,
        length pre2 + length ?fs, heap_drop (nal_buf ` set is) (heap_drop {nal_buf i} h))"
    by (simp only: write_nals.simps prod.case i(1) conv rbind_Inr wr Let_def len mem IH list.map)
  moreover have "pre2 @ ?fs = pre @ frames (be_bytes prec) xs" by (simp add: xs pre1_def pre2_def sz_def)
  moreover have "drop (length ?fs) rest2 = drop (length (frames (be_bytes prec) xs)) rest"
    by (simp add: xs rest1_def rest2_def ac_simps)
  moreover have "length pre2 + length ?fs = length pre + length (frames (be_bytes prec) xs)"
    by (simp add: xs pre1_def pre2_def sz)
  moreover have "heap_drop (nal_buf ` set is) (heap_drop {nal_buf i} h) = heap_drop (nal_buf ` set (i # is)) h"
    by simp
  ultimately show ?case by (simp only:)
qed

subsection \<open>One unit\<close>

text \<open>Word arithmetic computes the size field modulo \<open>2 ^ 32\<close>, like the specification.\<close>

lemma unit_size_word:
  assumes "unit_holds h u xs" and "v3c_header_bytes hdr = Inr bs"
  shows "(4 + word_of_nat (ui_ptr u) + word_of_nat (length (ui_nal_infos u)) * word_of_nat prec
             + (if is_atlas t then 1 else 0) :: u32)
       = word_of_nat (length (unit_payload (Nal_Units t hdr prec xs)))"
proof -
  have "length (unit_payload (Nal_Units t hdr prec xs))
      = 4 + ui_ptr u + length (ui_nal_infos u) * prec + (if is_atlas t then 1 else 0)"
    using assms nals_hold_length [of h 0 "ui_nal_infos u" xs]
    by (simp add: unit_holds_def header_part_def length_frames_be length_v3c_header_bytes)
  then show ?thesis by simp
qed

lemma create_v3c_unit_eq:
  assumes hold: "unit_holds h u xs" and ptrs: "distinct (unit_pointers u)" "h_cells h nullptr = None"
    and t: "vuh_unit_type (ui_header u) = unit_code t" and hdr: "v3c_header_bytes (ui_header u) = Inr bs"
    and prec: "prec \<le> 4" "w \<le> 4" "is_atlas t \<Longrightarrow> prec \<noteq> 0"
    and out: "out = frames (be_bytes w) [unit_payload (Nal_Units t (ui_header u) prec xs)]"
    and room: "length out \<le> length rest"
  shows "\<exists>u'. create_v3c_unit u w prec (pre @ rest, length pre, h)
    = Inr (u', (pre @ out) @ drop (length out) rest, length (pre @ out), heap_drop (set (unit_pointers u)) h)"
proof -
  let ?P = "unit_payload (Nal_Units t (ui_header u) prec xs)"
  let ?fs = "frames (be_bytes prec) xs" and ?pb = "if is_atlas t then [precision_byte prec] else []"
  define sz where "sz = be_bytes w (word_of_nat (length ?P))"
  define pre1 rest1 where "pre1 = pre @ sz" and "rest1 = drop w rest"
  define pre2 rest2 where "pre2 = pre1 @ bs" and "rest2 = drop 4 rest1"
  define pre3 rest3 where "pre3 = pre2 @ ?pb" and "rest3 = drop (length ?pb) rest2"
  note defs = pre1_def rest1_def pre2_def rest2_def pre3_def rest3_def
  have out': "out = sz @ bs @ ?pb @ ?fs" and bs: "length bs = 4" and sz: "length sz = w"
    using out hdr length_v3c_header_bytes by (simp_all add: header_part_def sz_def)
  have atlas: "(unit_code t = unit_code V3C_AD \<or> unit_code t = unit_code V3C_CAD) = is_atlas t"
    by (simp add: is_atlas_def unit_code_inj del: unit_code.simps)
  have unfold: "create_v3c_unit u w prec (pre @ rest, length pre, h)
    = rbind (convert_size_big_endian (word_of_nat (length ?P)) (replicate w 0) w) (\<lambda>v3c_size_arr.
      rbind (wr_bytes (pre @ rest) (length pre) v3c_size_arr) (\<lambda>buf. let ptr = length pre + w in
      rbind (wr_bytes buf ptr bs) (\<lambda>buf. let ptr = ptr + 4 in
      rbind (if is_atlas t then rbind (wr_bytes buf ptr
               [ucast (push_bit 5 (word_of_nat prec - 1 :: u32))]) (\<lambda>buf. Inr (buf, ptr + 1))
             else Inr (buf, ptr)) (\<lambda>(buf, ptr).
      rbind (write_nals prec (ui_nal_infos u) (buf, ptr, h)) (\<lambda>(infos, s).
      Inr (u\<lparr>ui_nal_infos := infos\<rparr>, s))))))"
    unfolding unit_size_word [OF hold hdr, of prec t, symmetric] create_v3c_unit_def prod.case t atlas Let_def
      hdr rbind_Inr by (cases "is_atlas t") (simp_all only: if_True if_False add_0_right simp_thms)
  have pb: "ucast (push_bit 5 (word_of_nat prec - 1 :: u32)) = precision_byte prec" if "is_atlas t"
  proof -
    have "prec \<in> {1, 2, 3, 4}" using prec(1) prec(3) [OF that] by auto
    then show ?thesis by (auto simp: precision_byte_def)
  qed
  have room': "w + 4 + length ?pb + length ?fs \<le> length rest"
    using room bs sz by (simp add: out' split: if_splits)
  have wr: "wr_bytes (pre @ rest) (length pre) sz = Inr (pre1 @ rest1)"
    "wr_bytes (pre1 @ rest1) (length pre1) bs = Inr (pre2 @ rest2)"
    "wr_bytes (pre2 @ rest2) (length pre2) ?pb = Inr (pre3 @ rest3)"
    using room' bs sz wr_bytes_split [of pre "length pre" sz rest] wr_bytes_split [of pre1 "length pre1" bs rest1]
      wr_bytes_split [of pre2 "length pre2" ?pb rest2]
    by (simp_all add: defs)
  have len: "length pre + w = length pre1" "length pre1 + 4 = length pre2" "length pre2 + length ?pb = length pre3"
    using sz bs by (simp_all add: defs)
  have "length ?fs \<le> length rest3"
    using room' by (simp add: defs)
  then have nals: "write_nals prec (ui_nal_infos u) (pre3 @ rest3, length pre3, h)
    = Inr (map (\<lambda>i. i\<lparr>nal_buf := nullptr\<rparr>) (ui_nal_infos u), (pre3 @ ?fs) @ drop (length ?fs) rest3,
           length pre3 + length ?fs, heap_drop (set (unit_pointers u)) h)"
    using write_nals_eq [of h 0 "ui_nal_infos u" xs prec rest3 pre3] hold ptrs prec(1)
    by (simp add: unit_holds_def unit_pointers_def)
  have conv: "convert_size_big_endian (word_of_nat (length ?P)) (replicate w 0) w = Inr sz"
    using prec(2) by (simp add: convert_size_big_endian_eq sz_def)
  have body: "\<exists>u'. create_v3c_unit u w prec (pre @ rest, length pre, h)
    = Inr (u', (pre3 @ ?fs) @ drop (length ?fs) rest3, length pre3 + length ?fs, heap_drop (set (unit_pointers u)) h)"
  proof (cases "is_atlas t")
    case True
    then show ?thesis
      using wr(3) len(3) nals unfolding unfold conv wr(1) rbind_Inr Let_def len(1) wr(2) len(2)
      by (simp add: pb del: append_assoc)
  next
    case False
    then have "pre3 = pre2" "rest3 = rest2" by (simp_all add: defs)
    then show ?thesis
      unfolding unfold conv using False wr len nals by (simp add: Let_def del: append_assoc)
  qed
  have "(pre3 @ ?fs) @ drop (length ?fs) rest3 = (pre @ out) @ drop (length out) rest"
    "length pre3 + length ?fs = length (pre @ out)"
    using bs sz by (simp_all add: defs out' ac_simps)
  then show ?thesis using body by simp
qed

subsection \<open>One group of pictures\<close>

text \<open>
  \<open>gop_holds m h k vps xs\<close>: group \<open>k\<close> of the map holds the parameter set \<open>vps\<close> and, for
  each medium \<open>t\<close>, a unit with the NAL units \<open>xs t\<close>, all in live buffers of their own.
\<close>

definition gop_pointers :: "v3c_file_map \<Rightarrow> nat \<Rightarrow> pointer list" where
  "gop_pointers m k = concat (map (\<lambda>t. unit_pointers (units_of t m ! k)) [V3C_AD, V3C_OVD, V3C_GVD, V3C_AVD])"

definition gop_holds ::
  "v3c_file_map \<Rightarrow> heap \<Rightarrow> nat \<Rightarrow> u8 list \<Rightarrow> (V3C_UNIT_TYPE \<Rightarrow> u8 list list) \<Rightarrow> bool" where
  "gop_holds m h k vps xs \<longleftrightarrow> k < length (vps_units m) \<and> unit_holds h (vps_units m ! k) [vps]
     \<and> length vps < 2 ^ 32
     \<and> (\<forall>t \<in> media. k < length (units_of t m) \<and> unit_holds h (units_of t m ! k) (xs t)
          \<and> vuh_unit_type (ui_header (units_of t m ! k)) = unit_code t
          \<and> (\<exists>bs. v3c_header_bytes (ui_header (units_of t m ! k)) = Inr bs))
     \<and> distinct (gop_pointers m k) \<and> h_cells h nullptr = None"

definition gop_unit :: "v3c_file_map \<Rightarrow> nat \<Rightarrow> (V3C_UNIT_TYPE \<Rightarrow> u8 list list) \<Rightarrow> V3C_UNIT_TYPE \<Rightarrow> v3c_unit" where
  "gop_unit m k xs t = Nal_Units t (ui_header (units_of t m ! k)) (if is_atlas t then 2 else 4) (xs t)"

definition gop_units :: "v3c_file_map \<Rightarrow> nat \<Rightarrow> u8 list \<Rightarrow> (V3C_UNIT_TYPE \<Rightarrow> u8 list list) \<Rightarrow> v3c_unit list" where
  "gop_units m k vps xs = Parameter_Set vps # map (gop_unit m k xs) [V3C_AD, V3C_OVD, V3C_GVD, V3C_AVD]"

definition gop_bytes :: "bool \<Rightarrow> v3c_file_map \<Rightarrow> nat \<Rightarrow> u8 list \<Rightarrow> (V3C_UNIT_TYPE \<Rightarrow> u8 list list) \<Rightarrow> u8 list" where
  "gop_bytes hdr_byte m k vps xs = (if hdr_byte then [64] else []) @ sample_stream 3 (gop_units m k vps xs)"

lemma is_atlas_simps [simp]:
  "is_atlas V3C_AD" "\<not> is_atlas V3C_OVD" "\<not> is_atlas V3C_GVD" "\<not> is_atlas V3C_AVD"
  by (simp_all add: is_atlas_def)

lemma unit_holds_single:
  assumes "unit_holds h u [x]"
  obtains i where "ui_nal_infos u = [i]" "nal_size i = length x" "h_cells h (nal_buf i) = Some x"
  using assms by (cases "ui_nal_infos u") (auto simp: unit_holds_def dest: nals_hold_length)

text \<open>\<open>get_gop_size\<close> is the number of bytes of the group.\<close>

lemma get_gop_size_eq:
  assumes "gop_holds m h k vps xs"
  shows "get_gop_size hdr_byte k m = Inr (length (gop_bytes hdr_byte m k vps xs))"
proof -
  have g: "k < length (units_of t m)" "length (ui_nal_infos (units_of t m ! k)) = length (xs t)"
    "ui_ptr (units_of t m ! k) = length (concat (xs t))"
    "length (header_part t (ui_header (units_of t m ! k)) prec) = (if is_atlas t then 5 else 4)"
    if "t \<in> media" for t prec
    using assms that unit_holds_length [of h "units_of t m ! k" "xs t"]
    by (auto simp: gop_holds_def header_part_def length_v3c_header_bytes)
  obtain i where "ui_nal_infos (vps_units m ! k) = [i]" "nal_size i = length vps" "k < length (vps_units m)"
    using assms by (auto simp: gop_holds_def elim: unit_holds_single)
  then show ?thesis
    using g [of V3C_AD] g [of V3C_OVD] g [of V3C_GVD] g [of V3C_AVD]
    by (simp add: get_gop_size_def gop_bytes_def gop_units_def gop_unit_def sample_stream_def
        length_frames_be v3c_constants)
qed

lemma create_gop_unit:
  assumes g: "gop_holds m h k vps xs" and t: "t \<in> media"
    and S: "set (unit_pointers (units_of t m ! k)) \<inter> S = {}"
    and out: "out = frames (be_bytes 3) [unit_payload (gop_unit m k xs t)]" "length out \<le> length rest"
  shows "\<exists>u'. create_v3c_unit (units_of t m ! k) 3 (if is_atlas t then 2 else 4)
      (pre @ rest, length pre, heap_drop S h)
    = Inr (u', (pre @ out) @ drop (length out) rest, length (pre @ out),
           heap_drop (set (unit_pointers (units_of t m ! k)) \<union> S) h)"
proof -
  let ?u = "units_of t m ! k"
  have h: "unit_holds h ?u (xs t)" "vuh_unit_type (ui_header ?u) = unit_code t" "h_cells h nullptr = None"
    and "\<exists>bs. v3c_header_bytes (ui_header ?u) = Inr bs" and d: "distinct (gop_pointers m k)"
    using g t by (auto simp: gop_holds_def)
  then obtain bs where bs: "v3c_header_bytes (ui_header ?u) = Inr bs" by blast
  have "distinct (unit_pointers ?u)"
    using d t by (auto simp: gop_pointers_def media_def)
  then show ?thesis
    using create_v3c_unit_eq [of "heap_drop S h" ?u "xs t" t bs "if is_atlas t then 2 else 4" 3 out rest pre]
      unit_holds_drop [OF h(1) S] h(2,3) bs out
    by (simp add: gop_unit_def)
qed

lemma reconstruct_v3c_gop_eq:
  assumes g: "gop_holds m h k vps xs" and out: "out = gop_bytes hdr_byte m k vps xs"
    and room: "length out \<le> length rest"
  shows "reconstruct_v3c_gop hdr_byte m k (pre @ rest, length pre, h)
    = Inr (length out, (pre @ out) @ drop (length out) rest, length (pre @ out),
           heap_drop (set (gop_pointers m k)) h)"
proof -
  let ?P = "\<lambda>t. set (unit_pointers (units_of t m ! k))"
  define F where "F t = frames (be_bytes 3) [unit_payload (gop_unit m k xs t)]" for t
  define hb where "hb = (if hdr_byte then [64 :: u8] else [])"
  define sz where "sz = be_bytes 3 (word_of_nat (length vps))"
  define pre0 rest0 where "pre0 = pre @ hb" and "rest0 = drop (length hb) rest"
  define pre1 rest1 where "pre1 = pre0 @ sz" and "rest1 = drop 3 rest0"
  define pre2 rest2 where "pre2 = pre1 @ vps" and "rest2 = drop (length vps) rest1"
  define pre3 rest3 where "pre3 = pre2 @ F V3C_AD" and "rest3 = drop (length (F V3C_AD)) rest2"
  define pre4 rest4 where "pre4 = pre3 @ F V3C_OVD" and "rest4 = drop (length (F V3C_OVD)) rest3"
  define pre5 rest5 where "pre5 = pre4 @ F V3C_GVD" and "rest5 = drop (length (F V3C_GVD)) rest4"
  define pre6 rest6 where "pre6 = pre5 @ F V3C_AVD" and "rest6 = drop (length (F V3C_AVD)) rest5"
  note defs = pre0_def rest0_def pre1_def rest1_def pre2_def rest2_def pre3_def rest3_def
    pre4_def rest4_def pre5_def rest5_def pre6_def rest6_def
  have sz: "length sz = 3" by (simp add: sz_def)
  have out': "out = hb @ sz @ vps @ F V3C_AD @ F V3C_OVD @ F V3C_GVD @ F V3C_AVD"
    by (simp add: out gop_bytes_def gop_units_def sample_stream_def hb_def sz_def F_def del: be_bytes_simps)
  have room': "length hb + 3 + length vps + length (F V3C_AD) + length (F V3C_OVD) + length (F V3C_GVD)
      + length (F V3C_AVD) \<le> length rest"
    using room by (simp add: out' sz)
  have dis: "?P V3C_OVD \<inter> ?P V3C_AD = {}" "?P V3C_GVD \<inter> (?P V3C_OVD \<union> ?P V3C_AD) = {}"
    "?P V3C_AVD \<inter> (?P V3C_GVD \<union> (?P V3C_OVD \<union> ?P V3C_AD)) = {}"
    using g by (auto simp: gop_holds_def gop_pointers_def)
  obtain i where vps: "ui_nal_infos (vps_units m ! k) = [i]" "nal_size i = length vps"
    "h_cells h (nal_buf i) = Some vps" "k < length (vps_units m)" "length vps < 2 ^ 32"
    using g by (auto simp: gop_holds_def elim: unit_holds_single)
  have szw: "unat (word_of_nat (length vps) :: u32) = length vps"
    using vps(5) by (simp add: unsigned_of_nat take_bit_nat_eq_self)
  have load: "heap_load h (nal_buf i) (length vps) = Inr vps"
    using vps(3) by (simp add: heap_load_Inr)
  have conv: "convert_size_big_endian (word_of_nat (length vps)) (replicate 3 0) 3 = Inr sz"
    by (simp add: convert_size_big_endian_eq sz_def)
  have wr: "(if hdr_byte then rbind (wr_bytes (pre @ rest) (length pre) [64]) (\<lambda>buf. Inr (buf, length pre + 1))
             else Inr (pre @ rest, length pre)) = Inr (pre0 @ rest0, length pre0)"
    "wr_bytes (pre0 @ rest0) (length pre0) sz = Inr (pre1 @ rest1)"
    "wr_bytes (pre1 @ rest1) (length pre1) vps = Inr (pre2 @ rest2)"
    using room' sz wr_bytes_split [of pre "length pre" "[64]" rest] wr_bytes_split [of pre0 "length pre0" sz rest0]
      wr_bytes_split [of pre1 "length pre1" vps rest1]
    by (simp_all add: defs hb_def)
  have len: "length pre0 + 3 = length pre1" "length pre1 + length vps = length pre2"
    by (simp_all add: defs sz)
  have fit: "length (F V3C_AD) \<le> length rest2" "length (F V3C_OVD) \<le> length rest3"
    "length (F V3C_GVD) \<le> length rest4" "length (F V3C_AVD) \<le> length rest5"
    using room' by (simp_all add: defs)
  note step = create_gop_unit [OF g _ _ F_def]
  obtain u1 where c1: "create_v3c_unit (ad_units m ! k) 3 2 (pre2 @ rest2, length pre2, h)
      = Inr (u1, pre3 @ rest3, length pre3, heap_drop (?P V3C_AD) h)"
    using step [of V3C_AD "{}" rest2 pre2] fit(1) by (auto simp: pre3_def rest3_def simp del: append_assoc)
  obtain u2 where c2: "create_v3c_unit (ovd_units m ! k) 3 4 (pre3 @ rest3, length pre3, heap_drop (?P V3C_AD) h)
      = Inr (u2, pre4 @ rest4, length pre4, heap_drop (?P V3C_OVD \<union> ?P V3C_AD) h)"
    using step [OF _ dis(1), of rest3 pre3] fit(2) by (auto simp: pre4_def rest4_def simp del: append_assoc)
  obtain u3 where c3: "create_v3c_unit (gvd_units m ! k) 3 4
        (pre4 @ rest4, length pre4, heap_drop (?P V3C_OVD \<union> ?P V3C_AD) h)
      = Inr (u3, pre5 @ rest5, length pre5, heap_drop (?P V3C_GVD \<union> (?P V3C_OVD \<union> ?P V3C_AD)) h)"
    using step [OF _ dis(2), of rest4 pre4] fit(3) by (auto simp: pre5_def rest5_def simp del: append_assoc)
  obtain u4 where c4: "create_v3c_unit (avd_units m ! k) 3 4
        (pre5 @ rest5, length pre5, heap_drop (?P V3C_GVD \<union> (?P V3C_OVD \<union> ?P V3C_AD)) h)
      = Inr (u4, pre6 @ rest6, length pre6, heap_drop (?P V3C_AVD \<union> (?P V3C_GVD \<union> (?P V3C_OVD \<union> ?P V3C_AD))) h)"
    using step [OF _ dis(3), of rest5 pre5] fit(4) by (auto simp: pre6_def rest6_def simp del: append_assoc)
  have at: "vec_at (vps_units m) k = Inr (vps_units m ! k)" "vec_at [i] 0 = Inr i" "vec_back [i] = Inr i"
    "vec_at (ad_units m) k = Inr (ad_units m ! k)" "vec_at (ovd_units m) k = Inr (ovd_units m ! k)"
    "vec_at (gvd_units m) k = Inr (gvd_units m ! k)" "vec_at (avd_units m) k = Inr (avd_units m ! k)"
    using vps(4) g by (auto simp: gop_holds_def vec_back_def media_def)
  have "reconstruct_v3c_gop hdr_byte m k (pre @ rest, length pre, h)
    = Inr (length out, pre6 @ rest6, length pre6,
        heap_drop (?P V3C_AVD \<union> (?P V3C_GVD \<union> (?P V3C_OVD \<union> ?P V3C_AD))) h)"
    unfolding reconstruct_v3c_gop_def prod.case get_gop_size_eq [OF g] rbind_Inr wr(1) at vps(1,2)
      Let_def v3c_constants conv wr(2) len(1) szw load wr(3) len(2) c1 c2 c3 c4 out [symmetric] ..
  moreover have "pre6 @ rest6 = (pre @ out) @ drop (length out) rest" "length pre6 = length (pre @ out)"
    by (simp_all add: defs out' sz ac_simps)
  moreover have "?P V3C_AVD \<union> (?P V3C_GVD \<union> (?P V3C_OVD \<union> ?P V3C_AD)) = set (gop_pointers m k)"
    by (auto simp: gop_pointers_def)
  ultimately show ?thesis by (simp only:)
qed

subsection \<open>A group can be written once\<close>

text \<open>The freed buffers are still named by the map, so a second call reads a dead buffer.\<close>

lemma write_nals_dead:
  "h_cells h (nal_buf i) = None \<Longrightarrow> write_nals prec (i # is) (buf, ptr, h) \<noteq> Inr r"
  by (auto simp: Let_def rbind_eq_Inr heap_load_def of_option_def)

lemma create_v3c_unit_dead:
  assumes "ui_nal_infos u = i # is" and "h_cells h (nal_buf i) = None"
  shows "create_v3c_unit u w prec (buf, ptr, h) \<noteq> Inr r"
  using write_nals_dead [OF assms(2), of prec "is"] assms(1)
  by (auto simp: create_v3c_unit_def Let_def rbind_eq_Inr simp del: write_nals.simps)

lemma reconstruct_v3c_gop_dead:
  assumes "k < length (ad_units m)" and "ui_nal_infos (ad_units m ! k) = i # is" and "h_cells h (nal_buf i) = None"
  shows "\<exists>e. reconstruct_v3c_gop hdr_byte m k (buf, ptr, h) = Inl e"
proof (cases "reconstruct_v3c_gop hdr_byte m k (buf, ptr, h)")
  case (Inr r)
  then show ?thesis
    using create_v3c_unit_dead [OF assms(2,3)] assms(1)
    by (simp add: reconstruct_v3c_gop_def Let_def rbind_eq_Inr vec_at_eq_Inr split: prod.splits)
qed simp

subsection \<open>From received frames to a file\<close>

text \<open>A group whose four units are there holds the frames of its streams.\<close>

lemma map_ok_gop_holds:
  assumes ok: "map_ok n (m, h)" and vps: "k < length (vps_units m)" "unit_holds h (vps_units m ! k) [vps]"
      "length vps < 2 ^ 32"
    and ready: "\<forall>t \<in> media. k < length (units_of t m)"
  shows "gop_holds m h k vps (\<lambda>t. take (n t) (drop (k * n t) (received (m, h) t)))"
proof -
  have st: "stream_ok (n t) (unit_code t) h (units_of t m)" if "t \<in> media" for t
    using ok that by (simp add: map_ok_def)
  have hdr: "ui_header (units_of t m ! k) = ui_header (next_unit (unit_code t) k)" if "t \<in> media" for t
    using map_ok_header [OF ok that] ready that by simp
  have sub: "set (unit_pointers (units_of t m ! k)) \<subseteq> set (stream_pointers (units_of t m))"
    "distinct (unit_pointers (units_of t m ! k))" if "t \<in> media" for t
  proof -
    have "units_of t m = take k (units_of t m) @ units_of t m ! k # drop (Suc k) (units_of t m)"
      using ready that by (simp add: id_take_nth_drop)
    then have "stream_pointers (units_of t m) = stream_pointers (take k (units_of t m))
        @ unit_pointers (units_of t m ! k) @ stream_pointers (drop (Suc k) (units_of t m))"
      unfolding stream_pointers_def by (metis concat.simps(2) concat_append list.simps(9) map_append)
    moreover have "distinct (stream_pointers (units_of t m))"
      using st [OF that] by (simp add: stream_ok_def stream_pointers_def)
    ultimately show "set (unit_pointers (units_of t m ! k)) \<subseteq> set (stream_pointers (units_of t m))"
      "distinct (unit_pointers (units_of t m ! k))" by auto
  qed
  have "set (unit_pointers (units_of t m ! k)) \<inter> set (unit_pointers (units_of t' m ! k)) = {}"
    if "t \<in> media" "t' \<in> media" "t \<noteq> t'" for t t'
    using ok that sub(1) unfolding map_ok_def prod.case by blast
  from this [of V3C_AD V3C_OVD] this [of V3C_AD V3C_GVD] this [of V3C_AD V3C_AVD]
    this [of V3C_OVD V3C_GVD] this [of V3C_OVD V3C_AVD] this [of V3C_GVD V3C_AVD]
  have "distinct (gop_pointers m k)"
    using sub(2) [of V3C_AD] sub(2) [of V3C_OVD] sub(2) [of V3C_GVD] sub(2) [of V3C_AVD]
    by (simp add: gop_pointers_def) blast
  moreover have "heap_ok h" using st [of V3C_AD] by (simp add: stream_ok_def)
  then have "h_cells h nullptr = None" by (auto simp: heap_ok_def)
  ultimately show ?thesis
    using assms map_ok_unit [OF ok] hdr next_unit_header_bytes
    unfolding gop_holds_def by (simp del: units_of.simps unit_code.simps)
qed

text \<open>
  A whole group of received frames is written as a sample stream that the parser reads
  back: the sizes must fit the fields the format has for them, and the group number the
  four bits of the parameter set id.
\<close>

definition gop_fits :: "v3c_file_map \<Rightarrow> nat \<Rightarrow> u8 list \<Rightarrow> (V3C_UNIT_TYPE \<Rightarrow> u8 list list) \<Rightarrow> bool" where
  "gop_fits m k vps xs \<longleftrightarrow> unit_ok 3 (Parameter_Set vps) \<and>
     (\<forall>t \<in> media. (\<forall>x \<in> set (xs t). length x < 256 ^ (if is_atlas t then 2 else 4)) \<and>
        length (unit_payload (gop_unit m k xs t)) < 256 ^ 3)"

lemma gop_units_ok:
  assumes ok: "map_ok n (m, h)" and k: "k < 16" "\<forall>t \<in> media. k < length (units_of t m)"
    and fits: "gop_fits m k vps xs"
  shows "\<forall>u \<in> set (gop_units m k vps xs). unit_ok 3 u"
proof -
  have "unit_ok 3 (gop_unit m k xs t)" if t: "t \<in> media" for t
  proof -
    have "ui_header (units_of t m ! k) = ui_header (next_unit (unit_code t) k)"
      using map_ok_header [OF ok t] k(2) t by simp
    then show ?thesis
      using next_unit_header_ok(1) [OF t k(1)] fits t
      by (auto simp: gop_unit_def gop_fits_def media_def simp del: unit_payload.simps unit_code.simps)
  qed
  then show ?thesis using fits by (auto simp: gop_units_def gop_fits_def)
qed

lemma mmap_gop_bytes:
  assumes "\<forall>u \<in> set (gop_units m k vps xs). unit_ok 3 u"
  shows "mmap_v3c_file (gop_bytes True m k vps xs @ post) (length (gop_bytes True m k vps xs)) m0
    = Inr (True, file_units 3 1 (gop_units m k vps xs) m0)"
  using mmap_sample_stream [of 3 "gop_units m k vps xs" 64 post m0] assms
  by (simp add: gop_bytes_def)

lemma length_gop_unit:
  assumes "\<exists>bs. v3c_header_bytes (ui_header (units_of t m ! k)) = Inr bs"
  shows "length (unit_payload (gop_unit m k xs t))
    = (if is_atlas t then 5 + 2 * length (xs t) else 4 + 4 * length (xs t)) + length (concat (xs t))"
  using assms by (auto simp: gop_unit_def header_part_def length_frames_be length_v3c_header_bytes)

lemma contents_gop:
  assumes ok: "map_ok n (m, h)" and k: "k < 16" "\<forall>t \<in> media. k < length (units_of t m)"
  shows "contents_of V3C_VPS (gop_units m k vps xs) = [(empty_header\<lparr>vuh_unit_type := unit_code V3C_VPS\<rparr>, [vps])]"
    and "t \<in> media \<Longrightarrow> contents_of t (gop_units m k vps xs) = [(ui_header (next_unit (unit_code t) k), xs t)]"
proof -
  have h: "lossy_header (ui_header (units_of t m ! k)) = ui_header (next_unit (unit_code t) k)" if "t \<in> media" for t
    using map_ok_header [OF ok that] k that next_unit_header_ok(2) by simp
  show "contents_of V3C_VPS (gop_units m k vps xs) = [(empty_header\<lparr>vuh_unit_type := unit_code V3C_VPS\<rparr>, [vps])]"
    by (simp add: contents_of_def gop_units_def gop_unit_def)
  show "t \<in> media \<Longrightarrow> contents_of t (gop_units m k vps xs) = [(ui_header (next_unit (unit_code t) k), xs t)]"
    using h by (auto simp: contents_of_def gop_units_def gop_unit_def media_def simp del: units_of.simps unit_code.simps)
qed

definition gop_small :: "u8 list \<Rightarrow> (V3C_UNIT_TYPE \<Rightarrow> u8 list list) \<Rightarrow> bool" where
  "gop_small vps xs \<longleftrightarrow> unit_ok 3 (Parameter_Set vps) \<and> (\<forall>x \<in> set (xs V3C_AD). length x < 65536) \<and>
     (\<forall>t \<in> media. 5 + 4 * length (xs t) + length (concat (xs t)) < 16777216)"

lemma length_elem_concat: "x \<in> set xs \<Longrightarrow> length x \<le> length (concat xs)"
  by (induction xs) auto

lemma gop_small_fits:
  assumes small: "gop_small vps xs" and ok: "map_ok n (m, h)" and k: "\<forall>t \<in> media. k < length (units_of t m)"
  shows "gop_fits m k vps xs"
proof -
  have "length (unit_payload (gop_unit m k xs t)) < 256 ^ 3" if t: "t \<in> media" for t
  proof -
    have "\<exists>bs. v3c_header_bytes (ui_header (units_of t m ! k)) = Inr bs"
      using map_ok_header [OF ok t] k next_unit_header_bytes t by simp
    from length_gop_unit [OF this, of xs]
    have "length (unit_payload (gop_unit m k xs t)) \<le> 5 + 4 * length (xs t) + length (concat (xs t))"
      by (simp del: unit_payload.simps)
    then show ?thesis
      using small t by (force simp: gop_small_def simp del: unit_payload.simps)
  qed
  moreover have "length x < 256 ^ (if is_atlas t then 2 else 4)" if t: "t \<in> media" and x: "x \<in> set (xs t)" for t x
  proof (cases "t = V3C_AD")
    case True
    then show ?thesis using small x by (simp add: gop_small_def)
  next
    case False
    then have "\<not> is_atlas t" using t by (auto simp: is_atlas_def media_def)
    moreover have "5 + 4 * length (xs t) + length (concat (xs t)) < 16777216"
      using small t by (simp add: gop_small_def)
    ultimately show ?thesis using length_elem_concat [OF x] by simp
  qed
  ultimately show ?thesis
    using small unfolding gop_fits_def gop_small_def by blast
qed

lemma gop_from_frames:
  assumes n: "\<forall>t. 0 < n t" and start: "map_ok n (m0, h0)" "received (m0, h0) = (\<lambda>_. [])"
    and vps: "k < length (vps_units m0)" "unit_holds h0 (vps_units m0 ! k) [vps]"
    and fs: "\<forall>f \<in> set fs. fst f \<in> media" "\<forall>t \<in> media. Suc k * n t \<le> length (stream_frames fs t)"
    and xs: "xs = (\<lambda>t. take (n t) (drop (k * n t) (stream_frames fs t)))"
    and small: "gop_small vps xs" and k: "k < 16"
  shows "\<exists>m h out h' m'. run_hook (receive_on n) fs (m0, h0) = Inr (m, h) \<and> is_gop_ready k m
    \<and> get_gop_size True k m = Inr (length out)
    \<and> reconstruct_v3c_gop True m k (replicate (length out) 0, 0, h) = Inr (length out, out, length out, h')
    \<and> mmap_v3c_file out (length out) empty_map = Inr (True, m')
    \<and> stored out V3C_VPS m' = [(empty_header\<lparr>vuh_unit_type := unit_code V3C_VPS\<rparr>, [vps])]
    \<and> (\<forall>t \<in> media. stored out t m' = [(ui_header (next_unit (unit_code t) k), xs t)])"
proof -
  obtain m h where run: "run_hook (receive_on n) fs (m0, h0) = Inr (m, h)" and ok: "map_ok n (m, h)"
    and r: "received (m, h) = stream_frames fs" and vm: "vps_units m = vps_units m0" and grow: "heap_grows h0 h"
    using arrivals_run [OF n start(1) fs(1)] start(2) by (auto simp: since_def)
  have ready: "is_gop_ready k m"
    using is_gop_ready_iff [OF ok] n vm vps(1) fs(2) r by simp
  then have len: "\<forall>t \<in> media. k < length (units_of t m)"
    by (simp add: is_gop_ready_units)
  have holds: "gop_holds m h k vps xs"
    unfolding xs r [symmetric]
    using map_ok_gop_holds [OF ok, of k vps] vm vps unit_holds_grow [OF vps(2) grow] len small
    by (simp add: gop_small_def)
  define out where "out = gop_bytes True m k vps xs"
  have "reconstruct_v3c_gop True m k ([] @ replicate (length out) 0, length ([] :: u8 list), h)
    = Inr (length out, ([] @ out) @ drop (length out) (replicate (length out) 0), length ([] @ out),
           heap_drop (set (gop_pointers m k)) h)"
    using out_def by (intro reconstruct_v3c_gop_eq [OF holds]) auto
  then have rec: "reconstruct_v3c_gop True m k (replicate (length out) 0, 0, h)
    = Inr (length out, out, length out, heap_drop (set (gop_pointers m k)) h)" by simp
  have uok: "\<forall>u \<in> set (gop_units m k vps xs). unit_ok 3 u"
    by (rule gop_units_ok [OF ok k len gop_small_fits [OF small ok len]])
  obtain m' where parse: "mmap_v3c_file out (length out) empty_map = Inr (True, m')"
    and stored: "\<forall>t. stored out t m' = contents_of t (gop_units m k vps xs)"
    using parse_sample_stream_stored [OF _ uok, of 64 out "[]" "length out"]
    by (auto simp: out_def gop_bytes_def)
  show ?thesis
    using run ready get_gop_size_eq [OF holds, of True, folded out_def] rec parse stored
      contents_gop [OF ok k len]
    by (intro exI [of _ m] exI [of _ h] exI [of _ out] exI [of _ "heap_drop (set (gop_pointers m k)) h"]
        exI [of _ m']) (simp del: unit_code.simps)
qed

subsection \<open>Properties\<close>

text \<open>A small group to instantiate the theorems on: one frame per medium, one parameter set.\<close>

definition demo_unit :: v3c_unit_info where
  "demo_unit = (new_unit empty_header)\<lparr>ui_nal_infos := [\<lparr>nal_location = 0, nal_size = 2, nal_buf = 1\<rparr>], ui_ptr := 2\<rparr>"

definition demo_map :: v3c_file_map where
  "demo_map = init_mmap\<lparr>vps_units := [demo_unit]\<rparr>"

definition demo_heap :: heap where
  "demo_heap = snd (heap_alloc [7, 1] heap_empty)"

definition demo_frames :: "(V3C_UNIT_TYPE \<times> u8 list) list" where
  "demo_frames = [(V3C_GVD, [1]), (V3C_AD, [2, 3]), (V3C_AVD, []), (V3C_OVD, [4])]"

lemma demo_start:
  "map_ok (\<lambda>_. 1) (demo_map, demo_heap)" "received (demo_map, demo_heap) = (\<lambda>_. [])"
  "0 < length (vps_units demo_map)" "unit_holds demo_heap (vps_units demo_map ! 0) [[7, 1]]"
proof -
  have "heap_ok demo_heap"
    by (simp add: demo_heap_def heap_ok_def heap_alloc_def heap_empty_def)
  then show "map_ok (\<lambda>_. 1) (demo_map, demo_heap)" "received (demo_map, demo_heap) = (\<lambda>_. [])"
    using init_mmap_ok [of "\<lambda>_. 1" demo_heap "[demo_unit]"] by (simp_all add: demo_map_def)
  show "0 < length (vps_units demo_map)" "unit_holds demo_heap (vps_units demo_map ! 0) [[7, 1]]"
    by (simp_all add: demo_map_def demo_unit_def demo_heap_def heap_alloc_def heap_empty_def unit_holds_def)
qed

lemma demo_stream: "stream_frames demo_frames t =
    (if t = V3C_AD then [[2, 3]] else if t = V3C_OVD then [[4]] else if t = V3C_GVD then [[1]]
     else if t = V3C_AVD then [[]] else [])"
  by (cases t) (simp_all add: stream_frames_def demo_frames_def)

lemma demo_small: "gop_small [7, 1] (\<lambda>t. take 1 (drop (0 * 1) (stream_frames demo_frames t)))"
  by (simp add: gop_small_def demo_stream read_unit_type_def)

text \<open>
  C1: from the network to a file. The streams start empty, the parameter set of group \<open>k\<close> is
  on the heap, and then frames of the four media arrive in any interleaving, at least
  \<open>(k + 1) * n\<close> of each. If every NAL unit and V3C unit fits its size field (64 KiB for
  atlas NAL units, 16 MiB for a unit) and \<open>k\<close> fits the 4-bit parameter set id, then: the group is
  reported ready; \<open>get_gop_size\<close> gives the size of a buffer that \<open>reconstruct_v3c_gop\<close> fills
  exactly, without a fault; and \<open>mmap_v3c_file\<close> parses that buffer back into the parameter set
  and, per medium, one unit with exactly the frames \<open>k * n\<close> to \<open>(k + 1) * n - 1\<close> of its stream.
\<close>

theorem received_gop_roundtrip:
  assumes "\<forall>t. 0 < n t" and "map_ok n (m0, h0)" and "received (m0, h0) = (\<lambda>_. [])"
    and "k < length (vps_units m0)" and "unit_holds h0 (vps_units m0 ! k) [vps]"
    and "\<forall>f \<in> set fs. fst f \<in> media" and "\<forall>t \<in> media. Suc k * n t \<le> length (stream_frames fs t)"
    and "xs = (\<lambda>t. take (n t) (drop (k * n t) (stream_frames fs t)))"
    and "gop_small vps xs" and "k < 16"
  shows "\<exists>m h out h' m'. run_hook (receive_on n) fs (m0, h0) = Inr (m, h) \<and> is_gop_ready k m
    \<and> get_gop_size True k m = Inr (length out)
    \<and> reconstruct_v3c_gop True m k (replicate (length out) 0, 0, h) = Inr (length out, out, length out, h')
    \<and> mmap_v3c_file out (length out) empty_map = Inr (True, m')
    \<and> stored out V3C_VPS m' = [(empty_header\<lparr>vuh_unit_type := unit_code V3C_VPS\<rparr>, [vps])]
    \<and> (\<forall>t \<in> media. stored out t m' = [(ui_header (next_unit (unit_code t) k), xs t)])"
  by (rule gop_from_frames [OF assms])

theorem received_gop_roundtrip_witness:
  "\<exists>m h out h' m'. run_hook (receive_on (\<lambda>_. 1)) demo_frames (demo_map, demo_heap) = Inr (m, h) \<and> is_gop_ready 0 m
    \<and> get_gop_size True 0 m = Inr (length out)
    \<and> reconstruct_v3c_gop True m 0 (replicate (length out) 0, 0, h) = Inr (length out, out, length out, h')
    \<and> mmap_v3c_file out (length out) empty_map = Inr (True, m')
    \<and> stored out V3C_VPS m' = [(empty_header\<lparr>vuh_unit_type := unit_code V3C_VPS\<rparr>, [[7, 1]])]
    \<and> (\<forall>t \<in> media. stored out t m' = [(ui_header (next_unit (unit_code t) 0),
          take 1 (drop (0 * 1) (stream_frames demo_frames t)))])"
  using demo_start demo_small
  by (intro received_gop_roundtrip) (auto simp: demo_frames_def media_def stream_frames_def)

text \<open>
  C3: \<open>reconstruct_v3c_gop\<close> against the format specification, from any offset in any buffer that
  has room. The bytes before the offset and behind the group are untouched, between them
  stands the sample stream of the group's units (behind the byte 64 if asked for), the
  offset has moved to its end, the value returned is its length and equals
  \<open>get_gop_size\<close>, and exactly the buffers of the four media units have been freed.
\<close>

theorem reconstruct_refines_format:
  assumes "gop_holds m h k vps xs" and "length (gop_bytes hdr_byte m k vps xs) \<le> length rest"
  shows "reconstruct_v3c_gop hdr_byte m k (pre @ rest, length pre, h)
      = Inr (length (gop_bytes hdr_byte m k vps xs),
             (pre @ gop_bytes hdr_byte m k vps xs) @ drop (length (gop_bytes hdr_byte m k vps xs)) rest,
             length (pre @ gop_bytes hdr_byte m k vps xs), heap_drop (set (gop_pointers m k)) h)
    \<and> get_gop_size hdr_byte k m = Inr (length (gop_bytes hdr_byte m k vps xs))"
  using reconstruct_v3c_gop_eq [OF assms(1) refl assms(2)] get_gop_size_eq [OF assms(1)] by blast

definition demo_holding :: "v3c_file_map \<times> heap" where
  "demo_holding = (case run_hook (receive_on (\<lambda>_. 1)) demo_frames (demo_map, demo_heap) of Inr s \<Rightarrow> s
     | Inl _ \<Rightarrow> (empty_map, heap_empty))"

lemma demo_holds:
  "gop_holds (fst demo_holding) (snd demo_holding) 0 [7, 1] (\<lambda>t. take 1 (drop (0 * 1) (stream_frames demo_frames t)))"
proof -
  obtain m h where run: "run_hook (receive_on (\<lambda>_. 1)) demo_frames (demo_map, demo_heap) = Inr (m, h)"
    and s: "since (\<lambda>_. 1) (demo_map, demo_heap) (m, h)" and r: "received (m, h) = stream_frames demo_frames"
    using arrivals_run [of "\<lambda>_. 1" "(demo_map, demo_heap)" demo_frames] demo_start
    by (auto simp: demo_frames_def media_def)
  have ok: "map_ok (\<lambda>_. 1) (m, h)" and vm: "vps_units m = vps_units demo_map" and grow: "heap_grows demo_heap h"
    using s by (simp_all add: since_def)
  have "\<forall>t \<in> media. 0 < length (units_of t m)"
    using ok by (auto simp: map_ok_def stream_ok_def)
  then show ?thesis
    using map_ok_gop_holds [OF ok, of 0 "[7, 1]"] vm demo_start(3) unit_holds_grow [OF demo_start(4) grow]
    by (simp add: demo_holding_def run [simplified] r)
qed

theorem reconstruct_refines_format_witness:
  "let xs = \<lambda>t. take 1 (drop (0 * 1) (stream_frames demo_frames t));
       out = gop_bytes True (fst demo_holding) 0 [7, 1] xs in
   reconstruct_v3c_gop True (fst demo_holding) 0 ([9, 9] @ out @ [5], length [9, 9 :: u8], snd demo_holding)
      = Inr (length out, ([9, 9] @ out) @ drop (length out) (out @ [5]), length ([9, 9] @ out),
             heap_drop (set (gop_pointers (fst demo_holding) 0)) (snd demo_holding))
    \<and> get_gop_size True 0 (fst demo_holding) = Inr (length out)"
  using reconstruct_refines_format [OF demo_holds, of True
      "gop_bytes True (fst demo_holding) 0 [7, 1] (\<lambda>t. take 1 (drop (0 * 1) (stream_frames demo_frames t))) @ [5]" "[9, 9]"]
  by (simp only: Let_def length_append)

text \<open>
  C7: a group can be rebuilt once. \<open>reconstruct_v3c_gop\<close> frees the NAL buffers through a copy of
  each unit, so the map keeps pointing at them; any later call for the same group, into
  whatever buffer, reads freed memory (a fault) as soon as the atlas unit has a NAL unit.
\<close>

theorem rebuild_twice_faults:
  assumes "gop_holds m h k vps xs" and "xs V3C_AD \<noteq> []"
    and "reconstruct_v3c_gop hdr_byte m k (pre @ rest, length pre, h) = Inr (n, buf, ptr, h')"
    and "length (gop_bytes hdr_byte m k vps xs) \<le> length rest"
  shows "\<exists>e. reconstruct_v3c_gop hdr_byte' m k (buf', ptr', h') = Inl e"
proof -
  have h': "h' = heap_drop (set (gop_pointers m k)) h"
    using reconstruct_v3c_gop_eq [OF assms(1) refl assms(4)] assms(3) by simp
  have "k < length (ad_units m)" and ad: "unit_holds h (ad_units m ! k) (xs V3C_AD)"
    using assms(1) by (auto simp: gop_holds_def media_def)
  moreover obtain i "is" where i: "ui_nal_infos (ad_units m ! k) = i # is"
    using assms(2) unit_holds_length [OF ad] by (cases "ui_nal_infos (ad_units m ! k)") auto
  moreover have "nal_buf i \<in> set (gop_pointers m k)"
    by (simp add: gop_pointers_def unit_pointers_def i)
  then have "h_cells h' (nal_buf i) = None"
    by (simp add: h' heap_drop_def restrict_map_def)
  ultimately show ?thesis by (intro reconstruct_v3c_gop_dead)
qed

theorem rebuild_twice_faults_witness:
  "\<exists>n buf ptr h' e. reconstruct_v3c_gop False (fst demo_holding) 0
        ([] @ replicate 100 0, length ([] :: u8 list), snd demo_holding) = Inr (n, buf, ptr, h')
     \<and> reconstruct_v3c_gop True (fst demo_holding) 0 (replicate 200 0, 0, h') = Inl e"
proof -
  let ?m = "fst demo_holding" and ?xs = "\<lambda>t. take 1 (drop (0 * 1) (stream_frames demo_frames t))"
  have bs: "\<exists>bs. v3c_header_bytes (ui_header (units_of t ?m ! 0)) = Inr bs" if "t \<in> media" for t
    using demo_holds that by (auto simp: gop_holds_def)
  have len: "length (gop_bytes False ?m 0 [7, 1] ?xs) \<le> length (replicate 100 (0 :: u8))"
    using length_gop_unit [OF bs [of V3C_AD], of ?xs] length_gop_unit [OF bs [of V3C_OVD], of ?xs]
      length_gop_unit [OF bs [of V3C_GVD], of ?xs] length_gop_unit [OF bs [of V3C_AVD], of ?xs]
    by (simp add: gop_bytes_def gop_units_def sample_stream_def demo_stream del: be_bytes_simps)
  have "?xs V3C_AD \<noteq> []" by (simp add: demo_stream)
  from rebuild_twice_faults [OF demo_holds this reconstruct_v3c_gop_eq [OF demo_holds refl len] len]
  show ?thesis
    using reconstruct_v3c_gop_eq [OF demo_holds refl len, of "[]"] by blast
qed

end
