(* ===== verification/Start_Code.thy ===== *)
theory Start_Code
  imports Prelude
begin

section \<open>Searching for start codes\<close>

text \<open>
  The two searches for the Annex B start code \<open>00 00 01\<close>: the byte loop
  \<open>get_next_frame_start\<close> of \<open>util/util.cc\<close> and the word-at-a-time search
  \<open>ff_avc_find_startcode\<close> of \<open>live555/source.cc\<close> (copied in \<open>latsource.cc\<close> and
  \<open>latency_sender.cc\<close>). Both are proved equal to a reference that tries every
  position, up to the limits that the code has: an 8-bit counter of zeros in the first, the last
  three bytes of the buffer in the second.
\<close>

subsection \<open>The reference\<close>

definition is_code :: "u8 list \<Rightarrow> nat \<Rightarrow> bool" where
  "is_code data q \<longleftrightarrow> q + 2 < length data \<and> data ! q = 0 \<and> data ! (q + 1) = 0 \<and> data ! (q + 2) = 1"

text \<open>The first position in \<open>[p, e)\<close> with a property.\<close>

definition first_from :: "(nat \<Rightarrow> bool) \<Rightarrow> nat \<Rightarrow> nat \<Rightarrow> nat option" where
  "first_from P p e = find P [p..<e]"

lemma first_from_empty [simp]: "e \<le> p \<Longrightarrow> first_from P p e = None"
  by (simp add: first_from_def)

lemma first_from_step: "p < e \<Longrightarrow> first_from P p e = (if P p then Some p else first_from P (Suc p) e)"
  by (simp add: first_from_def upt_conv_Cons)

lemma first_from_None: "first_from P p e = None \<longleftrightarrow> (\<forall>q. p \<le> q \<and> q < e \<longrightarrow> \<not> P q)"
  by (auto simp: first_from_def find_None_iff)

lemma first_from_Some:
  "first_from P p e = Some q \<longleftrightarrow> p \<le> q \<and> q < e \<and> P q \<and> (\<forall>r. p \<le> r \<and> r < q \<longrightarrow> \<not> P r)"
proof (induction "e - p" arbitrary: p)
  case 0
  then show ?case by auto
next
  case (Suc n)
  then have "first_from P p e = (if P p then Some p else first_from P (Suc p) e)"
    by (intro first_from_step) simp
  moreover have "first_from P (Suc p) e = Some q \<longleftrightarrow>
      Suc p \<le> q \<and> q < e \<and> P q \<and> (\<forall>r. Suc p \<le> r \<and> r < q \<longrightarrow> \<not> P r)"
    using Suc.hyps by simp
  ultimately show ?case
    using Suc.hyps(2) by (auto simp: Suc_le_eq) (metis nat_less_le)+
qed

lemma first_from_split:
  assumes "p \<le> m" and "m \<le> e"
  shows "first_from P p e = (case first_from P p m of Some q \<Rightarrow> Some q | None \<Rightarrow> first_from P m e)"
proof -
  have "find P (xs @ ys) = (case find P xs of Some q \<Rightarrow> Some q | None \<Rightarrow> find P ys)" for xs ys
    by (induction xs) auto
  moreover have "[p..<e] = [p..<m] @ [m..<e]"
    using assms upt_add_eq_append [of p m "e - m"] by simp
  ultimately show ?thesis by (simp add: first_from_def split: option.splits)
qed

subsection \<open>The byte loop of util.cc\<close>

text \<open>
  The result is the function value (an \<open>int\<close>, made from an unsigned 32-bit position) and the
  value of the reference parameter \<open>start_len\<close>.
\<close>

function frame_start_loop :: "u8 list \<Rightarrow> nat \<Rightarrow> nat \<Rightarrow> u8 \<Rightarrow> nat \<Rightarrow> u8 \<Rightarrow> (int \<times> u8) res" where
  "frame_start_loop data offset data_len zeros pos start_len =
     (if offset + pos < data_len then
        rbind (rd8 data (offset + pos)) (\<lambda>b.
        if 2 \<le> unat zeros \<and> b = 1
        then Inr (sint (word_of_nat (offset + pos + 1) :: u32), zeros + 1)
        else frame_start_loop data offset data_len (if b = 0 then zeros + 1 else 0) (pos + 1) start_len)
      else Inr (- 1, start_len))"
  by pat_completeness auto
termination
  by (relation "measure (\<lambda>(data, offset, data_len, zeros, pos, start_len). data_len - (offset + pos))") auto

declare frame_start_loop.simps [simp del]

definition get_next_frame_start :: "u8 list \<Rightarrow> nat \<Rightarrow> nat \<Rightarrow> u8 \<Rightarrow> (int \<times> u8) res" where
  "get_next_frame_start data offset data_len start_len = frame_start_loop data offset data_len 0 0 start_len"

subsection \<open>The word-at-a-time search of source.cc\<close>

text \<open>
  Pointers are offsets into the data; \<open>base\<close> is the address of the data, which only matters
  modulo 4. A loop either has found the code at an offset or has gone on to an offset.
  \<open>p < end - 3\<close> and \<open>p < end - 6\<close> are written with the subtraction on the other side.
\<close>

datatype scan = Found nat | At nat

definition code_here :: "u8 list \<Rightarrow> nat \<Rightarrow> bool res" where
  "code_here data p =
     rbind (rd8 data p) (\<lambda>a. if a \<noteq> 0 then Inr False else
     rbind (rd8 data (p + 1)) (\<lambda>b. if b \<noteq> 0 then Inr False else
     rbind (rd8 data (p + 2)) (\<lambda>c. Inr (c = 1))))"

function byte_scan :: "u8 list \<Rightarrow> nat \<Rightarrow> nat \<Rightarrow> scan res" where
  "byte_scan data p stop =
     (if p < stop then
        rbind (code_here data p) (\<lambda>here. if here then Inr (Found p) else byte_scan data (p + 1) stop)
      else Inr (At p))"
  by pat_completeness auto
termination
  by (relation "measure (\<lambda>(data, p, stop). stop - p)") auto

text \<open>\<open>*(const uint32_t * )p\<close>, little endian, and the test for a zero byte in it.\<close>

definition load32 :: "u8 list \<Rightarrow> nat \<Rightarrow> u32 res" where
  "load32 data p =
     rbind (rd8 data p) (\<lambda>a. rbind (rd8 data (p + 1)) (\<lambda>b.
     rbind (rd8 data (p + 2)) (\<lambda>c. rbind (rd8 data (p + 3)) (\<lambda>d.
     Inr (word_of_nat (unat a + 256 * unat b + 65536 * unat c + 16777216 * unat d))))))"

definition maybe_zero_byte :: "u32 \<Rightarrow> bool" where
  "maybe_zero_byte x \<longleftrightarrow> (x - 0x01010101) AND NOT x AND 0x80808080 \<noteq> 0"

text \<open>The four positions inside one word, in the order of the code.\<close>

definition code_in_word :: "u8 list \<Rightarrow> nat \<Rightarrow> nat option res" where
  "code_in_word data p =
     rbind (rd8 data (p + 1)) (\<lambda>b1.
     rbind (if b1 = 0 then
              rbind (rd8 data p) (\<lambda>b0. rbind (rd8 data (p + 2)) (\<lambda>b2.
              if b0 = 0 \<and> b2 = 1 then Inr (Some p)
              else rbind (rd8 data (p + 3)) (\<lambda>b3. Inr (if b2 = 0 \<and> b3 = 1 then Some (p + 1) else None))))
            else Inr None) (\<lambda>r1. case r1 of Some q \<Rightarrow> Inr (Some q) | None \<Rightarrow>
     rbind (rd8 data (p + 3)) (\<lambda>b3.
     if b3 = 0 then
       rbind (rd8 data (p + 2)) (\<lambda>b2. rbind (rd8 data (p + 4)) (\<lambda>b4.
       if b2 = 0 \<and> b4 = 1 then Inr (Some (p + 2))
       else rbind (rd8 data (p + 5)) (\<lambda>b5. Inr (if b4 = 0 \<and> b5 = 1 then Some (p + 3) else None))))
     else Inr None)))"

function word_scan :: "u8 list \<Rightarrow> nat \<Rightarrow> nat \<Rightarrow> scan res" where
  "word_scan data p end =
     (if p + 6 < end then
        rbind (load32 data p) (\<lambda>x.
        rbind (if maybe_zero_byte x then code_in_word data p else Inr None) (\<lambda>r.
        case r of Some q \<Rightarrow> Inr (Found q) | None \<Rightarrow> word_scan data (p + 4) end))
      else Inr (At p))"
  by pat_completeness auto
termination
  by (relation "measure (\<lambda>(data, p, end). end - p)") auto

declare byte_scan.simps [simp del] word_scan.simps [simp del]

definition ff_avc_find_startcode_internal :: "nat \<Rightarrow> u8 list \<Rightarrow> nat \<Rightarrow> nat \<Rightarrow> nat res" where
  "ff_avc_find_startcode_internal base data p end =
     (let a = p + 4 - (base + p) mod 4 in
      rbind (byte_scan data p (min a (end - 3))) (\<lambda>r. case r of Found q \<Rightarrow> Inr q | At p \<Rightarrow>
      rbind (word_scan data p end) (\<lambda>r. case r of Found q \<Rightarrow> Inr q | At p \<Rightarrow>
      rbind (byte_scan data p (end - 3)) (\<lambda>r. case r of Found q \<Rightarrow> Inr q | At _ \<Rightarrow> Inr end))))"

definition ff_avc_find_startcode :: "nat \<Rightarrow> u8 list \<Rightarrow> nat \<Rightarrow> nat \<Rightarrow> nat res" where
  "ff_avc_find_startcode base data p end =
     rbind (ff_avc_find_startcode_internal base data p end) (\<lambda>out.
     if p < out \<and> out < end
     then rbind (rd8 data (out - 1)) (\<lambda>b. Inr (if b = 0 then out - 1 else out))
     else Inr out)"

subsection \<open>The zero-byte test\<close>

text \<open>
  If a byte of the word is zero then the test is true: take the lowest zero byte; the bytes
  below it are not zero, so the subtraction does not borrow from it and turns it into \<open>FF\<close>.
\<close>

lemma zero_byte_bit:
  fixes low hi c k :: nat
  assumes "low + c < 2 * 2 ^ k" and "2 ^ k \<le> low + c"
  shows "odd ((low + c + 2 * 2 ^ k * hi) div 2 ^ k)"
proof -
  have "(low + c + 2 * 2 ^ k * hi) div 2 ^ k = (low + c) div 2 ^ k + 2 * hi"
    using div_mult_self1 [of "2 ^ k :: nat" "low + c" "2 * hi"] by (simp add: mult.assoc mult.left_commute mult.commute)
  moreover have "(low + c) div 2 ^ k = 1"
    using assms by (simp add: div_nat_eqI)
  ultimately show ?thesis by simp
qed

lemma maybe_zero_byteI:
  fixes x :: u32
  assumes x: "unat x = low + 2 * 2 ^ k * hi" and k: "k \<in> {7, 15, 23, 31}"
    and low: "low < 2 ^ (k - 7)" "(0x01010101 :: nat) mod 2 ^ (k - 7) \<le> low"
  shows "maybe_zero_byte x"
proof -
  define y where "y = x - 0x01010101"
  define c where "c = 2 * 2 ^ k - 0x01010101 mod (2 * 2 ^ k :: nat)"
  define d where "d = (4294967296 - 0x01010101 - c) div (2 * 2 ^ k)"
  have d: "4294967296 - 0x01010101 = c + 2 * 2 ^ k * d"
    using k by (auto simp: c_def d_def)
  have "low + c < 2 * 2 ^ k" "2 ^ k \<le> low + c"
    using k low by (auto simp: c_def)
  then have "odd ((low + c + 2 * 2 ^ k * (hi + d)) div 2 ^ k)"
    by (rule zero_byte_bit)
  then have "odd ((unat x + (4294967296 - 0x01010101)) div 2 ^ k)"
    unfolding d x by (simp add: algebra_simps)
  then have b: "bit (unat x + (4294967296 - 0x01010101)) k"
    by (simp add: bit_iff_odd)
  have y: "y = word_of_nat (unat x + (4294967296 - 0x01010101))"
    by (simp add: y_def)
  have k32: "k < 32" using k by auto
  then have "bit (unat y) k"
    using b by (simp add: y unsigned_of_nat bit_take_bit_iff del: of_nat_add of_nat_diff)
  then have "bit y k" by (simp add: bit_unsigned_iff)
  moreover have "\<not> bit x k"
  proof -
    have "even ((low + 2 * 2 ^ k * hi) div 2 ^ k)"
    proof -
      have "low < 2 ^ k" using low(1) k by (auto elim: less_le_trans)
      then have "(low + 2 * 2 ^ k * hi) div 2 ^ k = 2 * hi"
        using div_mult_self1 [of "2 ^ k :: nat" low "2 * hi"] by (simp add: mult.assoc mult.left_commute mult.commute)
      then show ?thesis by simp
    qed
    then have "\<not> bit (unat x) k" by (simp add: bit_iff_odd x)
    then show ?thesis by (simp add: bit_unsigned_iff k32)
  qed
  moreover have "bit (0x80808080 :: u32) k" using k by auto
  ultimately have "bit ((x - 0x01010101) AND NOT x AND 0x80808080) k"
    using k32 by (simp add: bit_simps y_def)
  then show ?thesis by (auto simp: maybe_zero_byte_def)
qed

lemma load32_zero:
  assumes "load32 data p = Inr x" and "\<not> maybe_zero_byte x"
  shows "\<forall>i < 4. data ! (p + i) \<noteq> 0"
proof -
  let ?a = "unat (data ! p)" and ?b = "unat (data ! (p + 1))"
    and ?c = "unat (data ! (p + 2))" and ?d = "unat (data ! (p + 3))"
  have "?a + 256 * ?b + 65536 * ?c + 16777216 * ?d < 4294967296"
    using unat_u8_less [of "data ! p"] unat_u8_less [of "data ! (p + 1)"]
      unat_u8_less [of "data ! (p + 2)"] unat_u8_less [of "data ! (p + 3)"] by linarith
  moreover have "x = word_of_nat (?a + 256 * ?b + 65536 * ?c + 16777216 * ?d)"
    using assms(1) by (auto simp: load32_def rbind_eq_Inr rd8_eq_Inr)
  ultimately have x: "unat x = ?a + 256 * ?b + 65536 * ?c + 16777216 * ?d"
    by (simp add: unsigned_of_nat take_bit_nat_eq_self del: of_nat_add of_nat_mult)
  have lt: "?a < 256" "?b < 256" "?c < 256" by (rule unat_u8_less)+
  have a: "?a \<noteq> 0"
    using maybe_zero_byteI [of x 0 7 "?b + 256 * ?c + 65536 * ?d"] assms(2) x by auto
  have b: "?b \<noteq> 0"
    using maybe_zero_byteI [of x ?a 15 "?c + 256 * ?d"] assms(2) x a lt by auto
  have "?a + 256 * ?b < 65536" "257 \<le> ?a + 256 * ?b" using lt a b by linarith+
  then have c: "?c \<noteq> 0"
    using maybe_zero_byteI [of x "?a + 256 * ?b" 23 ?d] assms(2) x by auto
  have "?a + 256 * ?b + 65536 * ?c < 16777216" "65793 \<le> ?a + 256 * ?b + 65536 * ?c"
    using lt a b c by linarith+
  then have d: "?d \<noteq> 0"
    using maybe_zero_byteI [of x "?a + 256 * ?b + 65536 * ?c" 31 0] assms(2) x by auto
  have "i = 0 \<or> i = 1 \<or> i = 2 \<or> i = 3" if "i < 4" for i :: nat
    using that by auto
  then show ?thesis using a b c d by (auto simp: unat_eq_zero less_Suc_eq numeral_eq_Suc)
qed

lemma load32_total: "p + 3 < length data \<Longrightarrow> \<exists>x. load32 data p = Inr x"
  by (simp add: load32_def)

subsection \<open>The search is the reference\<close>

lemma code_here_eq: "p + 2 < length data \<Longrightarrow> code_here data p = Inr (is_code data p)"
  by (auto simp: code_here_def is_code_def)

lemma byte_scan_eq:
  assumes "stop + 2 \<le> length data" and "p \<le> stop"
  shows "byte_scan data p stop
    = Inr (case first_from (is_code data) p stop of Some q \<Rightarrow> Found q | None \<Rightarrow> At stop)"
  using assms
proof (induction data p stop rule: byte_scan.induct)
  case (1 data p stop)
  show ?case
  proof (cases "p < stop")
    case True
    then show ?thesis
      using 1 code_here_eq [of p data]
      by (subst byte_scan.simps) (auto simp: first_from_step)
  next
    case False
    then show ?thesis using 1 by (simp add: byte_scan.simps)
  qed
qed

lemma code_in_word_eq:
  assumes "p + 5 < length data"
  shows "code_in_word data p = Inr (first_from (is_code data) p (p + 4))"
proof -
  have upt: "[p..<p + 4] = [p, p + 1, p + 2, p + 3]"
    by (simp add: upt_rec numeral_eq_Suc)
  show ?thesis
    using assms by (auto simp: code_in_word_def first_from_def upt is_code_def numeral_eq_Suc)
qed

lemma word_step:
  assumes "p + 5 < length data"
  shows "\<exists>x. load32 data p = Inr x \<and>
    (if maybe_zero_byte x then code_in_word data p else Inr None) = Inr (first_from (is_code data) p (p + 4))"
proof -
  obtain x where x: "load32 data p = Inr x"
    using load32_total [of p data] assms by auto
  have "first_from (is_code data) p (p + 4) = None" if "\<not> maybe_zero_byte x"
    unfolding first_from_None
  proof (intro allI impI)
    fix q assume "p \<le> q \<and> q < p + 4"
    then obtain i where "q = p + i" "i < 4" by (metis add_less_cancel_left le_iff_add)
    then show "\<not> is_code data q"
      using load32_zero [OF x that] by (simp add: is_code_def)
  qed
  then show ?thesis using x code_in_word_eq [OF assms] by auto
qed

lemma word_scan_eq:
  assumes "end \<le> length data"
  shows "\<exists>r. word_scan data p end = Inr r \<and>
    (case r of Found q \<Rightarrow> first_from (is_code data) p (end - 3) = Some q
     | At p' \<Rightarrow> p \<le> p' \<and> (p' = p \<or> p' < end - 2) \<and> first_from (is_code data) p p' = None)"
  using assms
proof (induction data p "end" rule: word_scan.induct)
  case (1 data p "end")
  show ?case
  proof (cases "p + 6 < end")
    case False
    then show ?thesis by (simp add: word_scan.simps)
  next
    case True
    then obtain x where x: "load32 data p = Inr x"
      "(if maybe_zero_byte x then code_in_word data p else Inr None) = Inr (first_from (is_code data) p (p + 4))"
      using word_step [of p data] 1(2) by auto
    have split: "first_from (is_code data) p m = (case first_from (is_code data) p (p + 4) of
        Some q \<Rightarrow> Some q | None \<Rightarrow> first_from (is_code data) (p + 4) m)" if "p + 4 \<le> m" for m
      using that by (intro first_from_split) auto
    show ?thesis
    proof (cases "first_from (is_code data) p (p + 4)")
      case (Some q)
      then show ?thesis
        using x True split [of "end - 3"] by (subst word_scan.simps) simp
    next
      case None
      then obtain r where "word_scan data (p + 4) end = Inr r"
        "case r of Found q \<Rightarrow> first_from (is_code data) (p + 4) (end - 3) = Some q
         | At p' \<Rightarrow> p + 4 \<le> p' \<and> (p' = p + 4 \<or> p' < end - 2) \<and> first_from (is_code data) (p + 4) p' = None"
        using 1(1) [OF True x(1) x(2)] 1(2) by auto
      moreover have "first_from (is_code data) p m = first_from (is_code data) (p + 4) m" if "p + 4 \<le> m" for m
        using split [OF that] None by simp
      ultimately show ?thesis
        using x True None by (subst word_scan.simps) (auto split: scan.splits)
    qed
  qed
qed

lemma ff_avc_internal_eq:
  assumes "p \<le> end" and "end \<le> length data"
  shows "ff_avc_find_startcode_internal base data p end
    = Inr (case first_from (is_code data) p (end - 3) of Some q \<Rightarrow> q | None \<Rightarrow> end)"
proof (cases "p + 3 \<le> end")
  case False
  have b: "byte_scan data p s = Inr (At p)" if "s \<le> end - 3" for s
  proof -
    have "\<not> p < s" using that False by arith
    then show ?thesis by (simp add: byte_scan.simps)
  qed
  have w: "word_scan data p end = Inr (At p)"
  proof -
    have "\<not> p + 6 < end" using False by arith
    then show ?thesis by (simp add: word_scan.simps)
  qed
  show ?thesis
    using False unfolding ff_avc_find_startcode_internal_def Let_def
    by (simp add: b w)
next
  case True
  let ?C = "is_code data"
  define s where "s = min (p + 4 - (base + p) mod 4) (end - 3)"
  have s: "p \<le> s" "s \<le> end - 3" using True by (auto simp: s_def)
  have unfold: "ff_avc_find_startcode_internal base data p end =
      rbind (byte_scan data p s) (\<lambda>r. case r of Found q \<Rightarrow> Inr q | At p \<Rightarrow>
      rbind (word_scan data p end) (\<lambda>r. case r of Found q \<Rightarrow> Inr q | At p \<Rightarrow>
      rbind (byte_scan data p (end - 3)) (\<lambda>r. case r of Found q \<Rightarrow> Inr q | At _ \<Rightarrow> Inr end)))"
    by (simp only: ff_avc_find_startcode_internal_def Let_def s_def)
  have b1: "byte_scan data p s = Inr (case first_from ?C p s of Some q \<Rightarrow> Found q | None \<Rightarrow> At s)"
    using s assms True by (intro byte_scan_eq) auto
  obtain r where r: "word_scan data s end = Inr r"
    "case r of Found q \<Rightarrow> first_from ?C s (end - 3) = Some q
     | At p' \<Rightarrow> s \<le> p' \<and> (p' = s \<or> p' < end - 2) \<and> first_from ?C s p' = None"
    using word_scan_eq [OF assms(2)] by blast
  have b3: "byte_scan data p' (end - 3) = Inr (case first_from ?C p' (end - 3) of Some q \<Rightarrow> Found q | None \<Rightarrow> At (end - 3))"
    if "p' \<le> end - 3" for p'
    using that assms True by (intro byte_scan_eq) auto
  have split: "first_from ?C p (end - 3) = (case first_from ?C p s of Some q \<Rightarrow> Some q | None \<Rightarrow> first_from ?C s (end - 3))"
    by (rule first_from_split [OF s])
  show ?thesis
  proof (cases "first_from ?C p s")
    case (Some q)
    then show ?thesis unfolding unfold b1 split by simp
  next
    case None
    show ?thesis
    proof (cases r)
      case (Found q)
      then show ?thesis using None r unfolding unfold b1 split by simp
    next
      case (At p')
      then have p': "s \<le> p'" "p' \<le> end - 3" "first_from ?C s p' = None"
        using r(2) s by auto
      have "first_from ?C s (end - 3) = first_from ?C p' (end - 3)"
        using first_from_split [OF p'(1,2), of ?C] p'(3) by simp
      then show ?thesis
        using None At r(1) b3 [OF p'(2)] unfolding unfold b1 split
        by (simp split: option.splits)
    qed
  qed
qed

lemma ff_avc_find_startcode_eq:
  assumes "p \<le> end" and "end \<le> length data"
  shows "ff_avc_find_startcode base data p end
    = Inr (case first_from (is_code data) p (end - 3) of None \<Rightarrow> end
           | Some q \<Rightarrow> if p < q \<and> data ! (q - 1) = 0 then q - 1 else q)"
proof (cases "first_from (is_code data) p (end - 3)")
  case (Some q)
  then have "p \<le> q" "q < end - 3" by (auto simp: first_from_Some)
  then show ?thesis
    using Some assms by (auto simp: ff_avc_find_startcode_def ff_avc_internal_eq)
qed (use assms in \<open>simp add: ff_avc_find_startcode_def ff_avc_internal_eq\<close>)

subsection \<open>The interface of a start code search\<close>

text \<open>
  What the NAL sources rely on: the search stops at the first start code, at the zero byte
  before it when there is one (the four-byte form), and at the end of the data otherwise.
\<close>

locale start_code_finder =
  fixes finder :: "u8 list \<Rightarrow> nat \<Rightarrow> nat \<Rightarrow> nat res"
  assumes finder_eq: "p \<le> e \<Longrightarrow> e \<le> length data \<Longrightarrow> finder data p e
    = Inr (case first_from (is_code data) p (e - 3) of None \<Rightarrow> e
           | Some q \<Rightarrow> if p < q \<and> data ! (q - 1) = 0 then q - 1 else q)"
begin

lemma finder_None:
  assumes "p \<le> e" and "e \<le> length data" and "\<And>q. p \<le> q \<Longrightarrow> q + 3 < e \<Longrightarrow> \<not> is_code data q"
  shows "finder data p e = Inr e"
proof -
  have "first_from (is_code data) p (e - 3) = None"
    using assms(3) by (auto simp: first_from_None)
  then show ?thesis using finder_eq [OF assms(1,2)] by simp
qed

lemma finder_bounds:
  assumes "p \<le> e" and "e \<le> length data"
  shows "\<exists>q. finder data p e = Inr q \<and> p \<le> q \<and> q \<le> e"
proof (cases "first_from (is_code data) p (e - 3)")
  case (Some q)
  then have "p \<le> q" "q < e - 3" by (simp_all add: first_from_Some)
  then have "p \<le> (if p < q \<and> data ! (q - 1) = 0 then q - 1 else q)"
    "(if p < q \<and> data ! (q - 1) = 0 then q - 1 else q) \<le> e" by auto
  then show ?thesis using finder_eq [OF assms] Some by auto
qed (use finder_eq [OF assms] assms in simp)

end

interpretation ff_avc: start_code_finder "ff_avc_find_startcode base" for base
  by unfold_locales (rule ff_avc_find_startcode_eq)

subsection \<open>The byte loop is a search too\<close>

text \<open>The number of zero bytes just before position \<open>i\<close>, not counting before the offset.\<close>

fun zero_run :: "u8 list \<Rightarrow> nat \<Rightarrow> nat \<Rightarrow> nat" where
  "zero_run data offset 0 = 0"
| "zero_run data offset (Suc i) = (if offset \<le> i \<and> data ! i = 0 then Suc (zero_run data offset i) else 0)"

definition frame_start_at :: "u8 list \<Rightarrow> nat \<Rightarrow> nat \<Rightarrow> bool" where
  "frame_start_at data offset i \<longleftrightarrow> data ! i = 1 \<and> 2 \<le> zero_run data offset i mod 256"

lemma sint_u32_small: "n < 2147483648 \<Longrightarrow> sint (word_of_nat n :: u32) = int n"
  by (simp add: signed_of_nat signed_take_bit_int_eq_self)

lemma frame_start_loop_eq:
  assumes "offset + pos \<le> data_len" and "data_len \<le> length data" and "data_len < 2147483648"
    and "zeros = word_of_nat (zero_run data offset (offset + pos))"
  shows "frame_start_loop data offset data_len zeros pos start_len
    = Inr (case first_from (frame_start_at data offset) (offset + pos) data_len of None \<Rightarrow> (- 1, start_len)
           | Some i \<Rightarrow> (int i + 1, word_of_nat (zero_run data offset i) + 1))"
  using assms
proof (induction "data_len - (offset + pos)" arbitrary: pos zeros)
  case 0
  then show ?case by (subst frame_start_loop.simps) simp
next
  case (Suc n)
  then have lt: "offset + pos < data_len" by simp
  have z: "unat zeros = zero_run data offset (offset + pos) mod 256"
    using Suc.prems(4) by (simp add: unsigned_of_nat take_bit_eq_mod)
  show ?case
  proof (cases "frame_start_at data offset (offset + pos)")
    case True
    then show ?thesis
      using lt Suc.prems z sint_u32_small [of "Suc (offset + pos)"]
      by (subst frame_start_loop.simps) (simp add: first_from_step frame_start_at_def)
  next
    case False
    have "frame_start_loop data offset data_len (if data ! (offset + pos) = 0 then zeros + 1 else 0) (pos + 1) start_len
      = Inr (case first_from (frame_start_at data offset) (offset + (pos + 1)) data_len of None \<Rightarrow> (- 1, start_len)
           | Some i \<Rightarrow> (int i + 1, word_of_nat (zero_run data offset i) + 1))"
      using Suc.hyps(2) Suc.prems lt by (intro Suc.hyps(1)) auto
    moreover have "\<not> (2 \<le> unat zeros \<and> data ! (offset + pos) = 1)"
      using False z by (auto simp: frame_start_at_def)
    ultimately show ?thesis
      using lt Suc.prems(2) False
      by (subst frame_start_loop.simps) (auto simp: first_from_step)
  qed
qed

subsection \<open>Properties\<close>

text \<open>
  C12: the word-at-a-time search is the naive search. For data at any address (aligned or not)
  and any range \<open>[p, end)\<close> inside it, \<open>ff_avc_find_startcode\<close> never reads outside the data and
  returns the first start code that begins at least four bytes before the end, moved back by one
  if a zero byte precedes it inside the range, or the end if there is none. So the
  zero-byte test, the four-byte stride and the alignment prologue lose nothing, and a start
  code in the last three bytes is not seen.
\<close>

theorem ff_avc_find_startcode_naive:
  assumes "p \<le> end" and "end \<le> length data"
  shows "ff_avc_find_startcode base data p end
    = Inr (case first_from (is_code data) p (end - 3) of None \<Rightarrow> end
           | Some q \<Rightarrow> if p < q \<and> data ! (q - 1) = 0 then q - 1 else q)"
  by (rule ff_avc_find_startcode_eq [OF assms])

theorem ff_avc_find_startcode_naive_witness:
  "ff_avc_find_startcode 3 [9, 1, 0, 0, 0, 1, 7, 7, 0, 0, 1] 0 11
    = Inr (case first_from (is_code [9, 1, 0, 0, 0, 1, 7, 7, 0, 0, 1]) 0 (11 - 3) of None \<Rightarrow> 11
           | Some q \<Rightarrow> if 0 < q \<and> [9 :: u8, 1, 0, 0, 0, 1, 7, 7, 0, 0, 1] ! (q - 1) = 0 then q - 1 else q)"
  by (rule ff_avc_find_startcode_naive) simp_all

lemma get_next_frame_start_eq:
  assumes "offset \<le> data_len" and "data_len \<le> length data" and "data_len < 2147483648"
  shows "get_next_frame_start data offset data_len start_len
    = Inr (case first_from (frame_start_at data offset) offset data_len of None \<Rightarrow> (- 1, start_len)
           | Some i \<Rightarrow> (int i + 1, word_of_nat (zero_run data offset i) + 1))"
proof -
  have "zero_run data offset offset = 0" by (cases offset) auto
  then show ?thesis
    using frame_start_loop_eq [of offset 0 data_len data 0 start_len] assms
    by (simp add: get_next_frame_start_def)
qed

text \<open>
  C20: \<open>get_next_frame_start\<close>, on every buffer of less than 2 GiB: it returns the position behind the
  first byte 1 that follows a run of zeros whose length modulo 256 is at least two, with
  that length (as a byte) plus one as the start code length, and otherwise -1 with the length
  untouched. For runs of less than 256 zeros this is the start code search it is meant to
  be; the 8-bit counter makes it overlook a start code behind 256 or 257 zeros.
\<close>

theorem get_next_frame_start_exact:
  assumes "offset \<le> data_len" and "data_len \<le> length data" and "data_len < 2147483648"
  shows "get_next_frame_start data offset data_len start_len
    = Inr (case first_from (frame_start_at data offset) offset data_len of None \<Rightarrow> (- 1, start_len)
           | Some i \<Rightarrow> (int i + 1, word_of_nat (zero_run data offset i) + 1))"
  by (rule get_next_frame_start_eq [OF assms])

theorem get_next_frame_start_exact_witness:
  "get_next_frame_start [5, 0, 0, 0, 1, 7] 1 6 9
    = Inr (case first_from (frame_start_at [5, 0, 0, 0, 1, 7] 1) 1 6 of None \<Rightarrow> (- 1, 9)
           | Some i \<Rightarrow> (int i + 1, word_of_nat (zero_run [5, 0, 0, 0, 1, 7] 1 i) + 1))
   \<and> (case first_from (frame_start_at [5, 0, 0, 0, 1, 7] 1) 1 6 of None \<Rightarrow> (- 1, 9)
           | Some i \<Rightarrow> (int i + 1, word_of_nat (zero_run [5, 0, 0, 0, 1, 7] 1 i) + 1)) = (5, 4 :: u8)"
proof
  show "get_next_frame_start [5, 0, 0, 0, 1, 7] 1 6 9
    = Inr (case first_from (frame_start_at [5, 0, 0, 0, 1, 7] 1) 1 6 of None \<Rightarrow> (- 1, 9)
           | Some i \<Rightarrow> (int i + 1, word_of_nat (zero_run [5, 0, 0, 0, 1, 7] 1 i) + 1))"
    by (rule get_next_frame_start_exact) simp_all
qed code_simp

end
