(* ===== verification/Nal_Source.thy ===== *)
theory Nal_Source
  imports Start_Code
begin

section \<open>Cutting a byte stream into NAL units\<close>

text \<open>
  \<open>find_next_nal\<close> of \<open>live555/source.cc\<close> and of \<open>live555/latency_sender.cc\<close> (the two differ in
  what they add to a counter). The static variables of the function are the record
  \<open>nal_cursor\<close>; the file that \<open>get_mem\<close> maps is the list of its bytes.

  Everything is proved inside \<open>start_code_finder\<close>, for any search that keeps that contract,
  and used for \<open>ff_avc_find_startcode\<close>.
\<close>

subsection \<open>The code\<close>

record nal_cursor =
  nc_open :: bool   \<comment> \<open>\<open>p\<close> is not NULL\<close>
  nc_len :: nat
  nc_start :: nat
  nc_end :: nat

definition nal_cursor_init :: nal_cursor where
  "nal_cursor_init = \<lparr>nc_open = False, nc_len = 0, nc_start = 0, nc_end = 0\<rparr>"

text \<open>\<open>while (nal_start < end && !*(nal_start++)) ;\<close>\<close>

function skip_zeros :: "u8 list \<Rightarrow> nat \<Rightarrow> nat \<Rightarrow> nat res" where
  "skip_zeros data nal_start end =
     (if nal_start < end
      then rbind (rd8 data nal_start) (\<lambda>b. if b = 0 then skip_zeros data (nal_start + 1) end else Inr (nal_start + 1))
      else Inr nal_start)"
  by pat_completeness auto
termination
  by (relation "measure (\<lambda>(data, s, end). end - s)") auto

declare skip_zeros.simps [simp del]

text \<open>
  The result is \<open>None\<close> for the pair \<open>(0, nullptr)\<close> and otherwise the size and the offset of
  the NAL unit. \<open>extra\<close> is what the function adds to \<open>len\<close> per unit beside its size.
\<close>

definition next_nal ::
  "(u8 list \<Rightarrow> nat \<Rightarrow> nat \<Rightarrow> nat res) \<Rightarrow> nat \<Rightarrow> u8 list \<Rightarrow> nal_cursor \<Rightarrow> ((nat \<times> nat) option \<times> nal_cursor) res" where
  "next_nal finder extra data c =
     (let end = length data in
      rbind (if \<not> nc_open c then rbind (finder data 0 end) (\<lambda>s. Inr (c\<lparr>nc_open := True, nc_len := 0, nc_start := s\<rparr>))
             else Inr c) (\<lambda>c.
      rbind (skip_zeros data (nc_start c) end) (\<lambda>nal_start.
      let c = c\<lparr>nc_start := nal_start\<rparr> in
      if nal_start = end then Inr (None, c)
      else rbind (finder data nal_start end) (\<lambda>nal_end.
        Inr (Some (nal_end - nal_start, nal_start),
             c\<lparr>nc_end := nal_end, nc_len := nc_len c + (extra + (nal_end - nal_start)), nc_start := nal_end\<rparr>)))))"

definition find_next_nal :: "nat \<Rightarrow> u8 list \<Rightarrow> nal_cursor \<Rightarrow> ((nat \<times> nat) option \<times> nal_cursor) res" where
  "find_next_nal base = next_nal (ff_avc_find_startcode base) 0"

definition latency_find_next_nal :: "nat \<Rightarrow> u8 list \<Rightarrow> nal_cursor \<Rightarrow> ((nat \<times> nat) option \<times> nal_cursor) res" where
  "latency_find_next_nal base = next_nal (ff_avc_find_startcode base) 4"

text \<open>\<open>k\<close> calls in a row.\<close>

fun calls :: "nat \<Rightarrow> ('c \<Rightarrow> ('a \<times> 'c) res) \<Rightarrow> 'c \<Rightarrow> ('a list \<times> 'c) res" where
  "calls 0 f c = Inr ([], c)"
| "calls (Suc k) f c = rbind (f c) (\<lambda>(r, c). rbind (calls k f c) (\<lambda>(rs, c). Inr (r # rs, c)))"

lemma calls_snoc:
  "calls (Suc k) f c = rbind (calls k f c) (\<lambda>(rs, c). rbind (f c) (\<lambda>(r, c). Inr (rs @ [r], c)))"
proof (induction k arbitrary: c)
  case 0
  show ?case by (cases "f c") auto
next
  case (Suc k)
  show ?case
    by (subst calls.simps(2), subst Suc.IH)
      (auto simp: rbind_def split: sum.splits prod.splits)
qed

subsection \<open>The specification: an Annex B stream\<close>

definition start_code :: "bool \<Rightarrow> u8 list" where
  "start_code long = (if long then [0, 0, 0, 1] else [0, 0, 1])"

definition annexb :: "(bool \<times> u8 list) list \<Rightarrow> u8 list" where
  "annexb ps = concat (map (\<lambda>(long, nal). start_code long @ nal) ps)"

text \<open>A NAL unit is not empty, does not end in a zero byte and contains no start code.\<close>

definition nal_ok :: "u8 list \<Rightarrow> bool" where
  "nal_ok nal \<longleftrightarrow> nal \<noteq> [] \<and> last nal \<noteq> 0 \<and> (\<forall>q < length nal. \<not> is_code nal q)"

fun nal_spans_of :: "nat \<Rightarrow> (bool \<times> u8 list) list \<Rightarrow> (nat \<times> nat) list" where
  "nal_spans_of p [] = []"
| "nal_spans_of p ((long, nal) # ps) = (length nal, p + length (start_code long))
     # nal_spans_of (p + length (start_code long) + length nal) ps"

lemma annexb_simps [simp]:
  "annexb [] = []" "annexb ((long, nal) # ps) = start_code long @ nal @ annexb ps"
  by (simp_all add: annexb_def)

lemma length_start_code: "length (start_code long) = (if long then 4 else 3)"
  by (simp add: start_code_def)

lemma nal_spans_content:
  "map (\<lambda>(n, p). take n (drop p (pre @ annexb ps))) (nal_spans_of (length pre) ps) = map snd ps"
proof (induction ps arbitrary: pre)
  case (Cons x ps)
  obtain long nal where x: "x = (long, nal)" by fastforce
  show ?case
    using Cons.IH [of "pre @ start_code long @ nal"] by (simp add: x add.assoc)
qed simp

text \<open>Units (size, offset) one behind the other between \<open>p\<close> and \<open>e\<close>.\<close>

fun laid_out :: "nat \<Rightarrow> nat \<Rightarrow> (nat \<times> nat) list \<Rightarrow> bool" where
  "laid_out p e [] \<longleftrightarrow> p \<le> e"
| "laid_out p e ((n, q) # xs) \<longleftrightarrow> p \<le> q \<and> q + n \<le> e \<and> laid_out (q + n) e xs"

lemma laid_out_mono: "laid_out p e xs \<Longrightarrow> p' \<le> p \<Longrightarrow> laid_out p' e xs"
  by (cases xs) auto

subsection \<open>Skipping to the first byte of a NAL unit\<close>

lemma skip_zeros_code:
  "skip_zeros (pre @ start_code long @ rest) (length pre) (length (pre @ start_code long @ rest))
    = Inr (length pre + length (start_code long))"
  by (subst skip_zeros.simps, simp add: start_code_def rd8_def nth_append,
      subst skip_zeros.simps, simp add: rd8_def nth_append,
      (subst skip_zeros.simps, simp add: rd8_def nth_append)+)

lemma skip_zeros_bounds:
  assumes "s \<le> end" and "end \<le> length data"
  shows "\<exists>s'. skip_zeros data s end = Inr s' \<and> s \<le> s' \<and> s' \<le> end \<and> (s < end \<longrightarrow> s < s')"
  using assms
proof (induction data s "end" rule: skip_zeros.induct)
  case (1 data s "end")
  show ?case
  proof (cases "s < end \<and> data ! s = 0")
    case True
    then obtain s' where "skip_zeros data (s + 1) end = Inr s'" "s + 1 \<le> s'" "s' \<le> end"
      using 1 by auto
    then show ?thesis using True 1(3) by (subst skip_zeros.simps) auto
  next
    case False
    then show ?thesis using 1(2,3) by (subst skip_zeros.simps) auto
  qed
qed

subsection \<open>The walk, for any start code search\<close>

text \<open>No start code begins inside a NAL unit of the stream.\<close>

lemma no_code_inside:
  assumes "nal_ok nal" and "p \<le> q" and "q < p + length nal" and "p = length pre"
  shows "\<not> is_code (pre @ nal @ rest) q"
proof
  assume code: "is_code (pre @ nal @ rest) q"
  obtain i where i: "q = p + i" "i < length nal" using assms(2,3) by (metis add_less_cancel_left le_iff_add)
  have last: "nal ! (length nal - 1) \<noteq> 0" using assms(1) by (auto simp: nal_ok_def last_conv_nth)
  have z: "nal ! i = 0"
    using code i assms(4) by (simp add: is_code_def nth_append)
  then have "i \<noteq> length nal - 1" using last by auto
  then have i1: "i + 1 < length nal" using i(2) by auto
  have z1: "nal ! (i + 1) = 0"
    using code i i1 assms(4) by (simp add: is_code_def nth_append)
  then have "i + 1 \<noteq> length nal - 1" using last by metis
  then have i2: "i + 2 < length nal" using i1 by auto
  have "nal ! (i + 2) = 1"
    using code i i2 assms(4) by (simp add: is_code_def nth_append)
  then have "is_code nal i" using z z1 i2 by (simp add: is_code_def)
  then show False using assms(1) i(2) by (auto simp: nal_ok_def)
qed

lemma code_at_start_code:
  "is_code (pre @ start_code long @ rest) (length pre + (if long then 1 else 0))"
  "long \<Longrightarrow> \<not> is_code (pre @ start_code long @ rest) (length pre)"
  by (auto simp: is_code_def start_code_def nth_append)

context start_code_finder
begin

text \<open>From the first byte of a NAL unit the search stops at its end.\<close>

lemma finder_end_of_nal:
  assumes nal: "nal_ok nal" and ps: "\<forall>x \<in> set ps. nal_ok (snd x)"
  shows "finder (pre @ nal @ annexb ps) (length pre) (length (pre @ nal @ annexb ps)) = Inr (length pre + length nal)"
proof (cases ps)
  case Nil
  have "\<not> is_code (pre @ nal @ []) q" if "length pre \<le> q" "q + 3 < length (pre @ nal)" for q
    using that by (intro no_code_inside [OF nal]) auto
  then show ?thesis
    using finder_None [of "length pre" "length (pre @ nal)" "pre @ nal"] by (simp add: Nil)
next
  case (Cons x ps')
  obtain long nal' where x: "x = (long, nal')" by fastforce
  let ?rest = "nal' @ annexb ps'" and ?b = "if long then 1 else 0 :: nat"
  let ?data = "pre @ nal @ start_code long @ ?rest"
  have data: "pre @ nal @ annexb ps = ?data" by (simp add: Cons x)
  have nal': "nal' \<noteq> []" using ps by (simp add: Cons x nal_ok_def)
  have code: "is_code ?data (length pre + length nal + ?b)"
    "long \<Longrightarrow> \<not> is_code ?data (length pre + length nal)"
    using code_at_start_code [where pre = "pre @ nal" and long = long and rest = ?rest] by simp_all
  have "first_from (is_code ?data) (length pre) (length ?data - 3) = Some (length pre + length nal + ?b)"
    unfolding first_from_Some
  proof (intro conjI allI impI)
    show "length pre + length nal + ?b < length ?data - 3"
      using nal' by (cases nal') (auto simp: length_start_code)
    fix r assume r: "length pre \<le> r \<and> r < length pre + length nal + ?b"
    show "\<not> is_code ?data r"
    proof (cases "r < length pre + length nal")
      case True
      then show ?thesis using r by (intro no_code_inside [OF nal]) auto
    next
      case False
      then have "long" "r = length pre + length nal" using r by (auto split: if_splits)
      then show ?thesis using code(2) by simp
    qed
  qed (use code in auto)
  moreover have "?data ! (length pre + length nal + ?b - 1) = 0 \<longleftrightarrow> long"
  proof -
    have "nal ! (length nal - 1) \<noteq> 0" "0 < length nal" using nal by (auto simp: nal_ok_def last_conv_nth)
    moreover have "?data ! (length pre + (length nal - 1)) = nal ! (length nal - 1)"
      using calculation(2) by (simp add: nth_append)
    moreover have "length pre + length nal - 1 = length pre + (length nal - 1)"
      using calculation(2) by arith
    ultimately have "?data ! (length pre + length nal - 1) \<noteq> 0" by metis
    then show ?thesis by (cases long) (simp add: nth_append start_code_def, simp)
  qed
  moreover have "0 < length nal" using nal by (simp add: nal_ok_def)
  ultimately show ?thesis
    unfolding data using finder_eq [of "length pre" "length ?data" ?data]
    by (auto split: if_splits)
qed

lemma finder_first:
  assumes "\<forall>x \<in> set ps. nal_ok (snd x)"
  shows "finder (annexb ps) 0 (length (annexb ps)) = Inr 0"
proof (cases ps)
  case Nil
  then show ?thesis using finder_None [of 0 0 "[]"] by simp
next
  case (Cons x ps')
  obtain long nal where x: "x = (long, nal)" by fastforce
  let ?b = "if long then 1 else 0 :: nat" and ?data = "start_code long @ nal @ annexb ps'"
  have "nal \<noteq> []" using assms by (simp add: Cons x nal_ok_def)
  then have "first_from (is_code ?data) 0 (length ?data - 3) = Some ?b"
    unfolding first_from_Some using code_at_start_code [where pre = "[]" and long = long and rest = "nal @ annexb ps'"]
    by (cases nal) (auto simp: length_start_code split: if_splits)
  then show ?thesis
    using finder_eq [of 0 "length ?data" ?data]
    by (auto simp: Cons x start_code_def split: if_splits)
qed

lemma next_nal_step:
  assumes nal: "nal_ok nal" and ps: "\<forall>x \<in> set ps. nal_ok (snd x)"
    and c: "nc_open c" "nc_start c = length pre"
  shows "next_nal finder extra (pre @ annexb ((long, nal) # ps)) c
    = Inr (Some (length nal, length pre + length (start_code long)),
        c\<lparr>nc_end := length pre + length (start_code long) + length nal, nc_len := nc_len c + (extra + length nal),
          nc_start := length pre + length (start_code long) + length nal\<rparr>)"
proof -
  let ?pre = "pre @ start_code long" and ?data = "pre @ annexb ((long, nal) # ps)"
  have data: "?data = ?pre @ nal @ annexb ps" by simp
  have skip: "skip_zeros ?data (length pre) (length ?data) = Inr (length ?pre)"
    using skip_zeros_code [of pre long "nal @ annexb ps"] by simp
  have fin: "finder ?data (length ?pre) (length ?data) = Inr (length ?pre + length nal)"
    unfolding data by (rule finder_end_of_nal [OF nal ps])
  have "length ?pre \<noteq> length ?data" using nal by (simp add: nal_ok_def)
  then show ?thesis
    unfolding next_nal_def Let_def using c skip fin by (simp del: length_append annexb_simps) simp
qed

text \<open>Call after call: every NAL unit once, in order, then the end.\<close>

lemma next_nal_calls:
  assumes "\<forall>x \<in> set ps. nal_ok (snd x)" and "nc_open c" and "nc_start c = length pre"
  shows "\<exists>c'. calls (length ps) (next_nal finder extra (pre @ annexb ps)) c
      = Inr (map Some (nal_spans_of (length pre) ps), c')
    \<and> next_nal finder extra (pre @ annexb ps) c' = Inr (None, c')
    \<and> nc_len c' = nc_len c + length ps * extra + length (concat (map snd ps))"
  using assms
proof (induction ps arbitrary: pre c)
  case Nil
  then show ?case
    by (cases c) (simp add: next_nal_def Let_def skip_zeros.simps)
next
  case (Cons x ps)
  obtain long nal where x: "x = (long, nal)" by fastforce
  let ?pre = "pre @ start_code long @ nal"
  have data: "pre @ annexb (x # ps) = ?pre @ annexb ps" by (simp add: x)
  obtain c1 where c1: "next_nal finder extra (pre @ annexb (x # ps)) c
      = Inr (Some (length nal, length pre + length (start_code long)), c1)"
    and c1': "nc_open c1" "nc_start c1 = length ?pre" "nc_len c1 = nc_len c + (extra + length nal)"
    using next_nal_step [of nal ps c pre extra long] Cons.prems by (auto simp: x)
  obtain c' where "calls (length ps) (next_nal finder extra (?pre @ annexb ps)) c1
      = Inr (map Some (nal_spans_of (length ?pre) ps), c')"
    "next_nal finder extra (?pre @ annexb ps) c' = Inr (None, c')"
    "nc_len c' = nc_len c1 + length ps * extra + length (concat (map snd ps))"
    using Cons.IH [OF _ c1'(1,2)] Cons.prems(1) by auto
  then show ?case
    using c1 c1'(3) unfolding data by (simp add: x add.assoc)
qed

lemma next_nal_annexb:
  assumes ps: "\<forall>x \<in> set ps. nal_ok (snd x)"
  shows "\<exists>c'. calls (Suc (length ps)) (next_nal finder extra (annexb ps)) nal_cursor_init
      = Inr (map Some (nal_spans_of 0 ps) @ [None], c')
    \<and> nc_len c' = length ps * extra + length (concat (map snd ps))"
proof -
  let ?f = "next_nal finder extra (annexb ps)"
  let ?c = "nal_cursor_init\<lparr>nc_open := True, nc_len := 0, nc_start := 0\<rparr>"
  have "?f nal_cursor_init = ?f ?c"
    using finder_first [OF ps] by (simp add: next_nal_def nal_cursor_init_def Let_def)
  then have "calls (Suc (length ps)) ?f nal_cursor_init = calls (Suc (length ps)) ?f ?c" by simp
  moreover obtain c' where "calls (length ps) ?f ?c = Inr (map Some (nal_spans_of 0 ps), c')"
    "?f c' = Inr (None, c')" "nc_len c' = length ps * extra + length (concat (map snd ps))"
    using next_nal_calls [OF ps, of ?c "[]"] by auto
  ultimately show ?thesis
    by (simp only: calls_snoc) simp
qed

text \<open>Any data: no fault, and every call that finds a unit moves forward.\<close>

lemma next_nal_progress:
  assumes "nc_start c \<le> length data"
  shows "\<exists>r c'. next_nal finder extra data c = Inr (r, c') \<and> nc_start c' \<le> length data \<and> nc_open c' \<and>
    (case r of None \<Rightarrow> nc_start c' = length data
     | Some (n, p) \<Rightarrow> p + n = nc_start c' \<and> p < length data \<and> (nc_open c \<longrightarrow> nc_start c < p))"
proof -
  let ?e = "length data"
  obtain c1 where c1: "(if \<not> nc_open c then rbind (finder data 0 ?e) (\<lambda>s. Inr (c\<lparr>nc_open := True, nc_len := 0, nc_start := s\<rparr>))
             else Inr c) = Inr c1" "nc_open c1" "nc_start c1 \<le> ?e" "nc_open c \<longrightarrow> c1 = c"
    using finder_bounds [of 0 ?e data] assms by (cases "nc_open c") auto
  obtain s where s: "skip_zeros data (nc_start c1) ?e = Inr s" "nc_start c1 \<le> s" "s \<le> ?e"
    "nc_start c1 < ?e \<longrightarrow> nc_start c1 < s"
    using skip_zeros_bounds [OF c1(3)] by blast
  obtain q where q: "finder data s ?e = Inr q" "s \<le> q" "q \<le> ?e"
    using finder_bounds [OF s(3)] by auto
  show ?thesis
    using c1 s q unfolding next_nal_def Let_def c1(1) by (cases "s = ?e") auto
qed

text \<open>Call after call on any data: after at most one call per byte the end is reached.\<close>

lemma next_nal_drain_open:
  assumes "nc_start c \<le> length data" and "nc_open c"
  shows "\<exists>k rs c'. k \<le> length data - nc_start c \<and> length rs = k
    \<and> calls (Suc k) (next_nal finder extra data) c = Inr (map Some rs @ [None], c')
    \<and> laid_out (nc_start c) (length data) rs"
  using assms
proof (induction "length data - nc_start c" arbitrary: c rule: less_induct)
  case less
  let ?f = "next_nal finder extra data"
  obtain r c1 where c1: "?f c = Inr (r, c1)" "nc_start c1 \<le> length data" "nc_open c1"
    and r: "case r of None \<Rightarrow> nc_start c1 = length data
      | Some (n, p) \<Rightarrow> p + n = nc_start c1 \<and> p < length data \<and> (nc_open c \<longrightarrow> nc_start c < p)"
    using next_nal_progress [OF less.prems(1), of extra] by blast
  show ?case
  proof (cases r)
    case None
    then show ?thesis using c1 less.prems(1) by (intro exI [of _ 0] exI [of _ "[]"]) simp
  next
    case (Some np)
    then obtain n p where np: "r = Some (n, p)" "p + n = nc_start c1" "p < length data" "nc_start c < p"
      using r less.prems(2) by (cases np) auto
    then have "length data - nc_start c1 < length data - nc_start c"
      using c1(2) by linarith
    then obtain k rs c' where k: "k \<le> length data - nc_start c1" "length rs = k"
      "calls (Suc k) ?f c1 = Inr (map Some rs @ [None], c')" "laid_out (nc_start c1) (length data) rs"
      using less.hyps c1(2,3) by blast
    have "Suc k \<le> length data - nc_start c" using np c1(2) k(1) by linarith
    moreover have "calls (Suc (Suc k)) ?f c = Inr (map Some ((n, p) # rs) @ [None], c')"
      using c1(1) k(3) np(1) by (subst calls.simps(2)) simp
    moreover have "laid_out (nc_start c) (length data) ((n, p) # rs)"
      using np k(4) c1(2) by simp
    ultimately show ?thesis using k(2) by (intro exI [of _ "Suc k"] exI [of _ "(n, p) # rs"]) auto
  qed
qed

lemma next_nal_drain:
  "\<exists>k rs c'. k \<le> length data \<and> length rs = k
    \<and> calls (Suc k) (next_nal finder extra data) nal_cursor_init = Inr (map Some rs @ [None], c')
    \<and> laid_out 0 (length data) rs"
proof -
  obtain s where s: "finder data 0 (length data) = Inr s" "s \<le> length data"
    using finder_bounds [of 0 "length data" data] by auto
  let ?c = "nal_cursor_init\<lparr>nc_open := True, nc_len := 0, nc_start := s\<rparr>"
  have "next_nal finder extra data nal_cursor_init = next_nal finder extra data ?c"
    using s by (simp add: next_nal_def nal_cursor_init_def Let_def)
  then have eq: "calls (Suc k) (next_nal finder extra data) nal_cursor_init = calls (Suc k) (next_nal finder extra data) ?c" for k
    by simp
  obtain k rs c' where "k \<le> length data - s" "length rs = k"
    "calls (Suc k) (next_nal finder extra data) ?c = Inr (map Some rs @ [None], c')" "laid_out s (length data) rs"
    using next_nal_drain_open [of ?c data extra] s by auto
  then show ?thesis
    unfolding eq using laid_out_mono [of s "length data" rs 0]
    by (intro exI [of _ k] exI [of _ rs] exI [of _ c']) auto
qed

end

subsection \<open>Properties\<close>

text \<open>
  C11: round trip of Annex B streams. For NAL units that are not empty, do not end in a zero byte
  and contain no start code, joined by start codes of three or four bytes in any mixture, the
  calls of \<open>find_next_nal\<close> return each NAL unit exactly once and in order (offset and size
  cut out precisely its bytes, wherever the file is mapped), and the next call reports the
  end of the file.
\<close>

theorem find_next_nal_annexb:
  assumes "\<forall>x \<in> set ps. nal_ok (snd x)"
  shows "\<exists>rs c'. calls (Suc (length ps)) (find_next_nal base (annexb ps)) nal_cursor_init = Inr (map Some rs @ [None], c')
    \<and> map (\<lambda>(n, p). take n (drop p (annexb ps))) rs = map snd ps
    \<and> nc_len c' = length (concat (map snd ps))"
  using ff_avc.next_nal_annexb [OF assms, of base 0] nal_spans_content [of "[]" ps]
  by (intro exI [of _ "nal_spans_of 0 ps"]) (auto simp: find_next_nal_def)

definition demo_nals :: "(bool \<times> u8 list) list" where
  "demo_nals = [(True, [0x40, 1, 0, 0, 3]), (False, [0x26, 9])]"

theorem find_next_nal_annexb_witness:
  "\<exists>rs c'. calls (Suc (length demo_nals)) (find_next_nal 3 (annexb demo_nals)) nal_cursor_init
      = Inr (map Some rs @ [None], c')
    \<and> map (\<lambda>(n, p). take n (drop p (annexb demo_nals))) rs = map snd demo_nals
    \<and> nc_len c' = length (concat (map snd demo_nals))"
proof (rule find_next_nal_annexb)
  show "\<forall>x \<in> set demo_nals. nal_ok (snd x)"
  proof -
    show ?thesis by (auto simp: demo_nals_def nal_ok_def is_code_def less_Suc_eq)
  qed
qed

text \<open>
  C19: on any file content \<open>find_next_nal\<close> is safe and comes to an end. No call reads outside the
  mapped file; after at most as many calls as the file has bytes it reports the end; and
  the units it returned lie inside the file, one behind the other without overlap.
\<close>

theorem find_next_nal_terminates:
  "\<exists>k rs c'. k \<le> length data \<and> length rs = k
    \<and> calls (Suc k) (find_next_nal base data) nal_cursor_init = Inr (map Some rs @ [None], c')
    \<and> laid_out 0 (length data) rs"
  unfolding find_next_nal_def by (rule ff_avc.next_nal_drain)

end
