(* ===== verification/Pacing.thy ===== *)
theory Pacing
  imports Hooks
begin

section \<open>Sending on schedule\<close>

text \<open>
  All senders share one pattern: push a frame, count it, and if less than
  \<open>current_frame * period\<close> microseconds have passed since the start, sleep for the rest.
  This theory models the outside world a sender acts on (a clock, the media library's
  \<open>push_frame\<close>, \<open>sleep_for\<close>), the pattern itself (\<open>pace\<close>), the loops (\<open>for_each\<close>), and states as the
  locale \<open>paced\<close> what a loop body must do for the whole run to keep the schedule.

  The media library is not part of the sources: how long a push takes, whether it
  succeeds and by how much a sleep overshoots are the functions of an arbitrary \<open>env\<close>.
\<close>

subsection \<open>The world of a sender\<close>

record env =
  e_push_ok :: "nat \<Rightarrow> bool"   \<comment> \<open>does the \<open>k\<close>-th push return \<open>RTP_OK\<close>\<close>
  e_cost :: "nat \<Rightarrow> nat"       \<comment> \<open>microseconds it takes\<close>
  e_late :: "nat \<Rightarrow> nat"       \<comment> \<open>microseconds a sleep after \<open>k\<close> pushes overshoots\<close>

record world =
  w_now :: nat                       \<comment> \<open>microseconds since the start of the test\<close>
  w_log :: "(nat \<times> u8 list) list"    \<comment> \<open>when each frame was pushed, and its bytes\<close>

definition world_init :: world where
  "world_init = \<lparr>w_now = 0, w_log = []\<rparr>"

definition pushed :: "world \<Rightarrow> u8 list list" where
  "pushed w = map snd (w_log w)"

text \<open>\<open>push_frame(mem + offset, n)\<close>: the library reads \<open>n\<close> bytes.\<close>

definition push_frame :: "env \<Rightarrow> u8 list \<Rightarrow> nat \<Rightarrow> nat \<Rightarrow> world \<Rightarrow> (bool \<times> world) res" where
  "push_frame env mem offset n w =
     rbind (rd_bytes mem offset n) (\<lambda>x. let k = length (w_log w) in
     Inr (e_push_ok env k, w\<lparr>w_now := w_now w + e_cost env k, w_log := w_log w @ [(w_now w, x)]\<rparr>))"

definition sleep_us :: "env \<Rightarrow> nat \<Rightarrow> world \<Rightarrow> world" where
  "sleep_us env d w = w\<lparr>w_now := w_now w + d + e_late env (length (w_log w))\<rparr>"

text \<open>
  \<open>if (runtime < current_frame * period) sleep_for(current_frame * period - runtime)\<close>, on
  unsigned 64-bit values.
\<close>

definition pace :: "env \<Rightarrow> u64 \<Rightarrow> u64 \<Rightarrow> world \<Rightarrow> world" where
  "pace env period current_frame w =
     (let runtime = word_of_nat (w_now w) in
      if runtime < current_frame * period
      then sleep_us env (unat (current_frame * period - runtime)) w else w)"

text \<open>A \<open>for\<close> loop whose body may leave the function: the flag says whether it ran to its end.\<close>

primrec for_each :: "('i \<Rightarrow> 's \<Rightarrow> (bool \<times> 's) res) \<Rightarrow> 'i list \<Rightarrow> 's \<Rightarrow> (bool \<times> 's) res" where
  "for_each body [] s = Inr (True, s)"
| "for_each body (x # xs) s =
     rbind (body x s) (\<lambda>(go, s). if go then for_each body xs s else Inr (False, s))"

lemma for_each_append:
  "for_each body (xs @ ys) s = rbind (for_each body xs s) (\<lambda>(go, s). if go then for_each body ys s else Inr (False, s))"
  by (induction xs arbitrary: s) (auto simp: rbind_def split: sum.splits prod.splits if_splits)

lemma for_each_nested:
  "for_each (\<lambda>x. for_each body (f x)) xs s = for_each body (concat (map f xs)) s"
  by (induction xs arbitrary: s) (auto simp: for_each_append rbind_def split: sum.splits prod.splits)

text \<open>The times (\<open>long long\<close>) of four streams.\<close>

definition find_earliest_time_point :: "'a::linorder \<Rightarrow> 'a \<Rightarrow> 'a \<Rightarrow> 'a \<Rightarrow> 'a" where
  "find_earliest_time_point t1 t2 t3 t4 = min (min (min t1 t2) t3) t4"

definition find_latest_time_point :: "'a::linorder \<Rightarrow> 'a \<Rightarrow> 'a \<Rightarrow> 'a \<Rightarrow> 'a" where
  "find_latest_time_point t1 t2 t3 t4 = max (max (max t1 t2) t3) t4"

lemma find_time_points:
  "find_earliest_time_point a b c d = Min {a, b, c, d}" "find_latest_time_point a b c d = Max {a, b, c, d}"
  by (simp_all add: find_earliest_time_point_def find_latest_time_point_def min.assoc max.assoc)

subsection \<open>On time\<close>

text \<open>
  \<open>frame_of xs\<close> is the number of whole frames among the pushes \<open>xs\<close>. A world is on time when
  no push of frame \<open>k\<close> came before \<open>k * period\<close>, and the next one cannot either.
\<close>

definition log_on_time :: "(u8 list list \<Rightarrow> nat) \<Rightarrow> nat \<Rightarrow> world \<Rightarrow> bool" where
  "log_on_time frame_of period w \<longleftrightarrow>
     (\<forall>j < length (w_log w). frame_of (take j (pushed w)) * period \<le> fst (w_log w ! j))"

definition on_time :: "(u8 list list \<Rightarrow> nat) \<Rightarrow> nat \<Rightarrow> world \<Rightarrow> bool" where
  "on_time frame_of period w \<longleftrightarrow> log_on_time frame_of period w \<and> frame_of (pushed w) * period \<le> w_now w"

lemma on_time_init: "frame_of [] = 0 \<Longrightarrow> on_time frame_of period world_init"
  by (simp add: on_time_def log_on_time_def world_init_def pushed_def)

lemma push_frame_ok:
  assumes "offset + n \<le> length mem"
  shows "\<exists>w'. push_frame env mem offset n w = Inr (e_push_ok env (length (w_log w)), w')
    \<and> pushed w' = pushed w @ [take n (drop offset mem)] \<and> w_now w' = w_now w + e_cost env (length (w_log w))
    \<and> w_log w' = w_log w @ [(w_now w, take n (drop offset mem))]
    \<and> (on_time frame_of period w \<longrightarrow> log_on_time frame_of period w'
         \<and> (frame_of (pushed w @ [take n (drop offset mem)]) = frame_of (pushed w) \<longrightarrow> on_time frame_of period w'))"
  using assms
  by (auto simp: push_frame_def rd_bytes_def pushed_def on_time_def log_on_time_def Let_def nth_append less_Suc_eq)

lemma sleep_us_simps [simp]:
  "w_log (sleep_us env d w) = w_log w" "pushed (sleep_us env d w) = pushed w"
  "w_now (sleep_us env d w) = w_now w + d + e_late env (length (w_log w))"
  by (simp_all add: sleep_us_def pushed_def)

lemma pace_log [simp]: "w_log (pace env period cf w) = w_log w" "pushed (pace env period cf w) = pushed w"
  by (simp_all add: pace_def Let_def)

lemma unat_mult_u64:
  fixes a b :: u64
  assumes "unat a * unat b < 18446744073709551616"
  shows "unat (a * b) = unat a * unat b"
  using assms unat_mult_lem [of a b] by simp

text \<open>After pacing, the time is at least the start of the next frame; who is late does not sleep.\<close>

lemma pace_now:
  assumes "unat cf * unat period < 18446744073709551616"
  shows "unat cf * unat period \<le> w_now (pace env period cf w)"
proof -
  have m: "unat (cf * period) = unat cf * unat period" by (rule unat_mult_u64 [OF assms])
  have le: "unat (word_of_nat (w_now w) :: u64) \<le> w_now w"
    by (simp add: unsigned_of_nat)
  show ?thesis
  proof (cases "word_of_nat (w_now w) < cf * period")
    case True
    then have "unat (cf * period - word_of_nat (w_now w)) + unat (word_of_nat (w_now w) :: u64) = unat cf * unat period"
      using m by (simp add: unat_sub less_imp_le word_less_nat_alt)
    then show ?thesis using True le by (simp add: pace_def Let_def)
  next
    case False
    then have "unat (cf * period) \<le> unat (word_of_nat (w_now w) :: u64)"
      by (simp add: word_less_nat_alt)
    then show ?thesis using False m le by (simp add: pace_def Let_def)
  qed
qed

lemma pace_exact:
  assumes "unat cf * unat period < 18446744073709551616" and "w_now w < 18446744073709551616"
  shows "w_now (pace env period cf w)
    = (if w_now w < unat cf * unat period then unat cf * unat period + e_late env (length (w_log w)) else w_now w)"
proof -
  have m: "unat (cf * period) = unat cf * unat period" by (rule unat_mult_u64 [OF assms(1)])
  have n: "unat (word_of_nat (w_now w) :: u64) = w_now w"
    using assms(2) by (simp add: unsigned_of_nat take_bit_nat_eq_self)
  show ?thesis
  proof (cases "w_now w < unat cf * unat period")
    case True
    then have lt: "word_of_nat (w_now w) < cf * period" using m n by (simp add: word_less_nat_alt)
    then have "unat (cf * period - word_of_nat (w_now w)) = unat cf * unat period - w_now w"
      using m n by (simp add: unat_sub less_imp_le)
    then show ?thesis using True lt by (simp add: pace_def Let_def)
  next
    case False
    then have "\<not> word_of_nat (w_now w) < cf * period" using m n by (simp add: word_less_nat_alt)
    then show ?thesis using False by (simp add: pace_def Let_def)
  qed
qed

lemma pace_on_time:
  assumes "log_on_time frame_of (unat period) w" and "frame_of (pushed w) \<le> unat cf"
    and "unat cf * unat period < 18446744073709551616"
  shows "on_time frame_of (unat period) (pace env period cf w)"
proof -
  have "frame_of (pushed w) * unat period \<le> unat cf * unat period"
    using assms(2) by (rule mult_le_mono1)
  also have "\<dots> \<le> w_now (pace env period cf w)"
    by (rule pace_now [OF assms(3)])
  finally show ?thesis
    using assms(1) by (simp add: on_time_def log_on_time_def)
qed

subsection \<open>The interface of a paced loop body\<close>

text \<open>
  A body works on a state that holds a world. \<open>inv is s\<close> is the loop invariant with the items
  \<open>is\<close> still to come, \<open>rest is s\<close> what will be pushed for them. One round never faults; if it
  goes on, what has been pushed and what is to come stay the same together, and the world
  is on time; if it leaves, what was pushed is the beginning of that; and it goes
  on if every push succeeds (\<open>steady\<close>).
\<close>

locale paced =
  fixes body :: "'i \<Rightarrow> 's \<Rightarrow> (bool \<times> 's) res"
    and world :: "'s \<Rightarrow> world"
    and frame_of :: "u8 list list \<Rightarrow> nat"
    and period :: nat
    and inv :: "'i list \<Rightarrow> 's \<Rightarrow> bool"
    and rest :: "'i list \<Rightarrow> 's \<Rightarrow> u8 list list"
    and steady :: bool
  assumes rest_Nil: "rest [] s = []"
    and body_ok: "inv (i # is) s \<Longrightarrow> on_time frame_of period (world s) \<Longrightarrow>
    \<exists>go s' ys. body i s = Inr (go, s') \<and> log_on_time frame_of period (world s') \<and> (steady \<longrightarrow> go)
      \<and> pushed (world s') @ ys = pushed (world s) @ rest (i # is) s
      \<and> (go \<longrightarrow> inv is s' \<and> on_time frame_of period (world s') \<and> ys = rest is s')"
begin

lemma run:
  assumes "inv items s" and "on_time frame_of period (world s)"
  shows "\<exists>go s' ys. for_each body items s = Inr (go, s') \<and> log_on_time frame_of period (world s') \<and> (steady \<longrightarrow> go)
      \<and> pushed (world s') @ ys = pushed (world s) @ rest items s
      \<and> (go \<longrightarrow> inv [] s' \<and> on_time frame_of period (world s') \<and> ys = [])"
  using assms
proof (induction items arbitrary: s)
  case Nil
  then show ?case by (auto simp: on_time_def rest_Nil)
next
  case (Cons i items)
  obtain go s1 ys where b: "body i s = Inr (go, s1)" "log_on_time frame_of period (world s1)" "steady \<longrightarrow> go"
    "pushed (world s1) @ ys = pushed (world s) @ rest (i # items) s"
    "go \<longrightarrow> inv items s1 \<and> on_time frame_of period (world s1) \<and> ys = rest items s1"
    using body_ok [OF Cons.prems] by blast
  show ?case
  proof (cases go)
    case False
    then show ?thesis
      using b by (intro exI [of _ False] exI [of _ s1] exI [of _ ys]) simp
  next
    case True
    then obtain go' s' zs where "for_each body items s1 = Inr (go', s')" "log_on_time frame_of period (world s')"
      "steady \<longrightarrow> go'" "pushed (world s') @ zs = pushed (world s1) @ rest items s1"
      "go' \<longrightarrow> inv [] s' \<and> on_time frame_of period (world s') \<and> zs = []"
      using Cons.IH [of s1] b(5) by blast
    then show ?thesis
      using b True by (intro exI [of _ go'] exI [of _ s'] exI [of _ zs]) simp
  qed
qed

lemma run_steady:
  assumes "inv items s" and "on_time frame_of period (world s)" and steady
  shows "\<exists>s'. for_each body items s = Inr (True, s') \<and> inv [] s'
    \<and> pushed (world s') = pushed (world s) @ rest items s \<and> on_time frame_of period (world s')"
  using run [OF assms(1,2)] assms(3) by auto

end

end
