(* ===== verification/Live_Source.thy ===== *)
theory Live_Source
  imports Nal_Source Pacing
begin

section \<open>The live555 sources\<close>

text \<open>
  \<open>H265FramedSource\<close> of \<open>live555/source.cc\<close>, and \<open>H265LatencyFramedSource\<close> with the sink
  \<open>RTPSink_\<close> of \<open>live555/latency_sender.cc\<close>: objects that the live555 event loop asks for the next
  frame. A call is given what the framework has put into the object before: whether it waits
  for data, and \<open>fMaxSize\<close>. The clock of the \<open>world\<close> counts from \<open>s_tmr\<close>; its log holds what was
  copied to \<open>fTo\<close> and when. \<open>memmove\<close> and \<open>afterGetting\<close> together are \<open>push_frame\<close>, which takes
  an arbitrary time.
\<close>

subsection \<open>live555/source.cc\<close>

datatype delivery =
    Not_Awaiting
  | Handed_Over
  | Finished nat u64   \<comment> \<open>\<open>exit(EXIT_SUCCESS)\<close> after writing the bytes and milliseconds\<close>

record live_source =
  lv_initialized :: bool
  lv_cursor :: nal_cursor
  lv_current :: u64
  lv_bytes :: nat
  lv_truncated :: u32
  lv_e_tmr :: int
  lv_world :: world

text \<open>\<open>e_tmr\<close> starts as the epoch, which lies \<open>epoch\<close> microseconds before \<open>s_tmr\<close>.\<close>

definition live_init :: "nat \<Rightarrow> live_source" where
  "live_init epoch = \<lparr>lv_initialized = False, lv_cursor = nal_cursor_init, lv_current = 0, lv_bytes = 0,
     lv_truncated = 0, lv_e_tmr = - int epoch, lv_world = world_init\<rparr>"

text \<open>\<open>(uint64_t)duration_cast<milliseconds>(d).count()\<close>, which rounds towards zero.\<close>

definition ms_of_us :: "int \<Rightarrow> u64" where
  "ms_of_us d = word_of_int (if 0 \<le> d then d div 1000 else - ((- d) div 1000))"

definition deliverFrame ::
  "env \<Rightarrow> nat \<Rightarrow> u8 list \<Rightarrow> u64 \<Rightarrow> u32 \<Rightarrow> bool \<Rightarrow> live_source \<Rightarrow> (delivery \<times> live_source) res" where
  "deliverFrame env base data period fMaxSize awaiting s =
     (if \<not> awaiting then Inr (Not_Awaiting, s)
      else rbind (find_next_nal base data (lv_cursor s)) (\<lambda>(nal, c). let s = s\<lparr>lv_cursor := c\<rparr> in
        case nal of
          None \<Rightarrow> Inr (Finished (lv_bytes s) (ms_of_us (lv_e_tmr s)), s)
        | Some (n, q) \<Rightarrow>
          if n = 0 then Inr (Finished (lv_bytes s) (ms_of_us (lv_e_tmr s)), s)
          else let w = pace env period (lv_current s) (lv_world s);
                   current = (if 1500 < n then lv_current s + 1 else lv_current s);
                   newFrameSize = word_of_nat n;
                   bytes = lv_bytes s + unat newFrameSize;
                   (fFrameSize, truncated) = (if fMaxSize < newFrameSize then (fMaxSize, newFrameSize - fMaxSize)
                                              else (newFrameSize, lv_truncated s)) in
            rbind (push_frame env data q (unat fFrameSize) w) (\<lambda>(_, w).
            Inr (Handed_Over, s\<lparr>lv_current := current, lv_bytes := bytes, lv_truncated := truncated,
                                lv_e_tmr := int (w_now w), lv_world := w\<rparr>))))"

definition doGetNextFrame ::
  "env \<Rightarrow> nat \<Rightarrow> u8 list \<Rightarrow> u64 \<Rightarrow> u32 \<Rightarrow> bool \<Rightarrow> live_source \<Rightarrow> (delivery \<times> live_source) res" where
  "doGetNextFrame env base data period fMaxSize awaiting s =
     deliverFrame env base data period fMaxSize awaiting
       (if \<not> lv_initialized s then s\<lparr>lv_initialized := True\<rparr> else s)"

subsection \<open>live555/latency_sender.cc\<close>

text \<open>\<open>timestamps\<close> maps a frame size to when a frame of that size was sent, and the size again.\<close>

record lat_source =
  la_initialized :: bool
  la_cursor :: nal_cursor
  la_current :: u64
  la_timestamps :: "nat \<rightharpoonup> nat \<times> nat"
  la_truncated :: u32
  la_frames :: nat
  la_nintras :: nat
  la_ninters :: nat
  la_intra_total :: nat
  la_inter_total :: nat
  la_frame_total :: nat
  la_world :: world

definition lat_init :: lat_source where
  "lat_init = \<lparr>la_initialized = False, la_cursor = nal_cursor_init, la_current = 0, la_timestamps = Map.empty,
     la_truncated = 0, la_frames = 0, la_nintras = 0, la_ninters = 0, la_intra_total = 0, la_inter_total = 0,
     la_frame_total = 0, la_world = world_init\<rparr>"

datatype lat_outcome = Idle | Sent | Received | Exit_Failure | Exit_Success

definition lat_deliverFrame ::
  "env \<Rightarrow> nat \<Rightarrow> u8 list \<Rightarrow> u64 \<Rightarrow> u32 \<Rightarrow> bool \<Rightarrow> lat_source \<Rightarrow> (lat_outcome \<times> lat_source) res" where
  "lat_deliverFrame env base data period fMaxSize awaiting s =
     (if \<not> awaiting then Inr (Idle, s)
      else rbind (latency_find_next_nal base data (la_cursor s)) (\<lambda>(nal, c). let s = s\<lparr>la_cursor := c\<rparr> in
        case nal of
          None \<Rightarrow> Inr (Idle, s)
        | Some (n, q) \<Rightarrow>
          if n = 0 then Inr (Idle, s)
          else let w = pace env period (la_current s) (la_world s);
                   s = s\<lparr>la_current := (if 1500 < n then la_current s + 1 else la_current s), la_world := w\<rparr>;
                   key = n in
            if la_timestamps s key \<noteq> None then Inr (Exit_Failure, s)
            else let s = s\<lparr>la_timestamps := (la_timestamps s)(key \<mapsto> (w_now w, n))\<rparr>;
                     newFrameSize = word_of_nat n;
                     (fFrameSize, truncated) = (if fMaxSize < newFrameSize then (fMaxSize, newFrameSize - fMaxSize)
                                                else (newFrameSize, la_truncated s)) in
              rbind (push_frame env data q (unat fFrameSize) w) (\<lambda>(_, w).
              Inr (Sent, s\<lparr>la_truncated := truncated, la_world := w\<rparr>))))"

definition lat_doGetNextFrame ::
  "env \<Rightarrow> nat \<Rightarrow> u8 list \<Rightarrow> u64 \<Rightarrow> u32 \<Rightarrow> bool \<Rightarrow> lat_source \<Rightarrow> (lat_outcome \<times> lat_source) res" where
  "lat_doGetNextFrame env base data period fMaxSize awaiting s =
     lat_deliverFrame env base data period fMaxSize awaiting
       (if \<not> la_initialized s then s\<lparr>la_initialized := True\<rparr> else s)"

text \<open>
  \<open>RTPSink_::afterGettingFrame\<close> for a frame of \<open>frameSize\<close> bytes in \<open>fReceiveBuffer\<close>. Starting the
  monitor thread on the first frame does not change this state.
\<close>

definition lat_afterGettingFrame :: "u8 list \<Rightarrow> nat \<Rightarrow> lat_source \<Rightarrow> (lat_outcome \<times> lat_source) res" where
  "lat_afterGettingFrame fReceiveBuffer frameSize s =
     (let key = frameSize in
      case la_timestamps s key of
        None \<Rightarrow> Inr (Exit_Failure, s)
      | Some (sent, sz) \<Rightarrow>
        if sz \<noteq> frameSize then Inr (Exit_Failure, s)
        else let diff = w_now (la_world s) - sent;
                 s = s\<lparr>la_timestamps := (la_timestamps s)(key := None)\<rparr> in
          rbind (rd8 fReceiveBuffer 0) (\<lambda>b. let nal_type = drop_bit 1 b AND 0x3f;
            s = (if nal_type = 19 \<or> nal_type = 1 then
                   let s = (if nal_type = 19
                            then s\<lparr>la_nintras := la_nintras s + 1, la_intra_total := la_intra_total s + diff div 1000\<rparr>
                            else s\<lparr>la_ninters := la_ninters s + 1, la_inter_total := la_inter_total s + diff div 1000\<rparr>) in
                   s\<lparr>la_frame_total := la_frame_total s + diff div 1000\<rparr>
                 else s);
            s = s\<lparr>la_frames := la_frames s + 1\<rparr> in
          if la_frames s = 601 then Inr (Exit_Success, s) else Inr (Received, s)))"

text \<open>
  \<open>thread_func\<close>: the values of \<open>frames\<close> it finds every five seconds; true when it ends the
  program. \<open>prev_frames\<close> is an \<open>unsigned\<close>, compared with a \<open>size_t\<close>.
\<close>

fun lat_monitor :: "u32 \<Rightarrow> nat list \<Rightarrow> bool" where
  "lat_monitor prev_frames [] = False"
| "lat_monitor prev_frames (frames # later) =
     (if unat prev_frames = frames then True else lat_monitor (word_of_nat frames) later)"

definition lat_thread_func :: "nat list \<Rightarrow> bool" where
  "lat_thread_func samples = lat_monitor (- 1) samples"

subsection \<open>Delivering a stream\<close>

text \<open>Frames that hold the schedule back: the NAL units of more than 1500 bytes.\<close>

definition big_nals :: "u8 list list \<Rightarrow> nat" where
  "big_nals xs = length (filter (\<lambda>x. 1500 < length x) xs)"

text \<open>
  After the NAL units \<open>done\<close>: the cursor stands behind them, they have been handed over, each not
  before its time, cut to \<open>fMaxSize\<close>, and counted in full.
\<close>

definition live_after :: "u64 \<Rightarrow> u32 \<Rightarrow> u8 list list \<Rightarrow> nat \<Rightarrow> live_source \<Rightarrow> bool" where
  "live_after period fMaxSize done pos s \<longleftrightarrow>
     nc_open (lv_cursor s) \<and> nc_start (lv_cursor s) = pos
     \<and> unat (lv_current s) = big_nals done \<and> lv_bytes s = length (concat done)
     \<and> pushed (lv_world s) = map (take (unat fMaxSize)) done
     \<and> (\<forall>k < length done. big_nals (take k done) * unat period \<le> fst (w_log (lv_world s) ! k))"

lemma big_nals_snoc: "big_nals (xs @ [x]) = big_nals xs + (if 1500 < length x then 1 else 0)"
  by (simp add: big_nals_def)

lemma length_pushed: "length (w_log w) = length (pushed w)"
  by (simp add: pushed_def)

text \<open>What is common to both sources: the frame handed over after waiting.\<close>

lemma hand_over:
  assumes data: "data = pre @ start_code long @ nal @ rest" and small: "length nal < 2 ^ 32"
    and cur: "unat current * unat period < 2 ^ 64"
  shows "\<exists>w'. push_frame env data (length pre + length (start_code long))
       (unat (if fMaxSize < word_of_nat (length nal) then fMaxSize else word_of_nat (length nal) :: u32))
       (pace env period current w) = Inr (e_push_ok env (length (w_log w)), w')
    \<and> w_log w' = w_log w @ [(w_now (pace env period current w), take (unat fMaxSize) nal)]
    \<and> unat current * unat period \<le> w_now (pace env period current w)"
proof -
  have n: "unat (word_of_nat (length nal) :: u32) = length nal"
    using small by (simp add: unsigned_of_nat take_bit_nat_eq_self)
  let ?m = "unat (if fMaxSize < word_of_nat (length nal) then fMaxSize else word_of_nat (length nal) :: u32)"
  have m: "?m \<le> length nal" "take ?m nal = take (unat fMaxSize) nal"
    using n by (auto simp: word_less_nat_alt)
  have cut: "take ?m (drop (length pre + length (start_code long)) data) = take (unat fMaxSize) nal"
    using m by (simp add: data)
  have "length pre + length (start_code long) + ?m \<le> length data"
    using m(1) by (simp add: data)
  then show ?thesis
    using push_frame_ok [of "length pre + length (start_code long)" ?m data env "pace env period current w" length 0]
      pace_now [of current period env w] cur
    unfolding cut by auto
qed

lemma unat_count_u64:
  "unat (c :: u64) = k \<Longrightarrow> k < 2 ^ 64 - 1 \<Longrightarrow> unat (if b then c + 1 else c) = k + (if b then 1 else 0)"
  using unat_add_lem [of c 1] by auto

lemma live_step:
  assumes after: "live_after period fMaxSize done (length pre) s"
    and data: "data = pre @ annexb ((long, nal) # ps)" and nal: "nal_ok nal" and ps: "\<forall>x \<in> set ps. nal_ok (snd x)"
    and small: "length nal < 2 ^ 32" and cur: "big_nals done * unat period < 2 ^ 64" "big_nals done < 2 ^ 64 - 1"
  shows "\<exists>s'. deliverFrame env base data period fMaxSize True s = Inr (Handed_Over, s')
    \<and> live_after period fMaxSize (done @ [nal]) (length (pre @ start_code long @ nal)) s'
    \<and> lv_initialized s' = lv_initialized s"
proof -
  have n: "unat (word_of_nat (length nal) :: u32) = length nal" and pos: "length nal \<noteq> 0"
    using small nal by (simp_all add: unsigned_of_nat take_bit_nat_eq_self nal_ok_def)
  obtain c where c: "find_next_nal base data (lv_cursor s) = Inr (Some (length nal, length pre + length (start_code long)), c)"
    "nc_open c" "nc_start c = length (pre @ start_code long @ nal)"
    using ff_avc.next_nal_step [OF nal ps, of "lv_cursor s" pre base 0 long] after
    by (auto simp: data find_next_nal_def live_after_def)
  obtain ok w' where w': "push_frame env data (length pre + length (start_code long))
       (unat (if fMaxSize < word_of_nat (length nal) then fMaxSize else word_of_nat (length nal)))
       (pace env period (lv_current s) (lv_world s)) = Inr (ok, w')"
    and log: "w_log w' = w_log (lv_world s) @ [(w_now (pace env period (lv_current s) (lv_world s)), take (unat fMaxSize) nal)]"
    and time: "big_nals done * unat period \<le> w_now (pace env period (lv_current s) (lv_world s))"
    using hand_over [of data pre long nal "annexb ps" "lv_current s" period env fMaxSize "lv_world s"] after cur small
    by (auto simp: data live_after_def)
  define s' where "s' = s\<lparr>lv_cursor := c, lv_current := (if 1500 < length nal then lv_current s + 1 else lv_current s),
    lv_bytes := lv_bytes s + length nal,
    lv_truncated := (if fMaxSize < word_of_nat (length nal) then word_of_nat (length nal) - fMaxSize else lv_truncated s),
    lv_e_tmr := int (w_now w'), lv_world := w'\<rparr>"
  have "deliverFrame env base data period fMaxSize True s = Inr (Handed_Over, s')"
    using c(1) w' pos n by (cases "fMaxSize < word_of_nat (length nal)") (simp_all add: deliverFrame_def Let_def s'_def)
  moreover have "unat (lv_current s') = big_nals (done @ [nal])"
    using unat_count_u64 [of "lv_current s" "big_nals done"] after cur(2) by (simp add: s'_def live_after_def big_nals_snoc)
  moreover have "length (w_log (lv_world s)) = length done"
    using after length_pushed [of "lv_world s"] by (simp add: live_after_def)
  then have "\<forall>k < length (done @ [nal]). big_nals (take k (done @ [nal])) * unat period \<le> fst (w_log (lv_world s') ! k)"
    using after time by (auto simp: s'_def log live_after_def nth_append less_Suc_eq)
  ultimately show ?thesis
    using after c log by (intro exI [of _ s']) (simp add: live_after_def s'_def pushed_def)
qed

lemma live_end:
  assumes after: "live_after period fMaxSize done (length data) s"
  shows "\<exists>s' ms. deliverFrame env base data period fMaxSize True s = Inr (Finished (length (concat done)) ms, s')
    \<and> lv_world s' = lv_world s"
proof -
  obtain c where "find_next_nal base data (lv_cursor s) = Inr (None, c)"
    using after by (cases "lv_cursor s")
      (simp add: find_next_nal_def next_nal_def Let_def skip_zeros.simps live_after_def)
  then show ?thesis using after by (simp add: deliverFrame_def live_after_def Let_def)
qed

lemma schedule_fits': "(k::nat) \<le> l \<Longrightarrow> l * p < 2 ^ 64 \<Longrightarrow> k * p < 2 ^ 64"
  using mult_le_mono1 [of k l p] by linarith

lemma big_nals_prefix: "big_nals xs \<le> big_nals (xs @ ys)"
  by (simp add: big_nals_def)

lemma live_calls:
  assumes "live_after period fMaxSize done (length pre) s" and "lv_initialized s"
    and "\<forall>x \<in> set ps. nal_ok (snd x) \<and> length (snd x) < 2 ^ 32"
    and "big_nals (done @ map snd ps) * unat period < 2 ^ 64" and "big_nals (done @ map snd ps) < 2 ^ 64 - 1"
  shows "\<exists>s' ms. calls (Suc (length ps)) (doGetNextFrame env base (pre @ annexb ps) period fMaxSize True) s
      = Inr (replicate (length ps) Handed_Over @ [Finished (length (concat (done @ map snd ps))) ms], s')
    \<and> pushed (lv_world s') = map (take (unat fMaxSize)) (done @ map snd ps)
    \<and> (\<forall>k < length (done @ map snd ps). big_nals (take k (done @ map snd ps)) * unat period \<le> fst (w_log (lv_world s') ! k))"
  using assms
proof (induction ps arbitrary: "done" pre s)
  case Nil
  then show ?case
    using live_end [of period fMaxSize "done" pre s env base]
    by (auto simp: doGetNextFrame_def live_after_def)
next
  case (Cons x ps)
  obtain long nal where x: "x = (long, nal)" by fastforce
  let ?pre = "pre @ start_code long @ nal" and ?done = "done @ [nal]"
  have data: "pre @ annexb (x # ps) = ?pre @ annexb ps" by (simp add: x)
  have all: "?done @ map snd ps = done @ map snd (x # ps)" by (simp add: x)
  have le: "big_nals done \<le> big_nals (done @ map snd (x # ps))" by (rule big_nals_prefix)
  have fits: "big_nals done * unat period < 2 ^ 64" "big_nals done < 2 ^ 64 - 1"
    using schedule_fits' [OF le Cons.prems(4)] le Cons.prems(5) by linarith+
  obtain s1 where s1: "deliverFrame env base (pre @ annexb (x # ps)) period fMaxSize True s = Inr (Handed_Over, s1)"
    "live_after period fMaxSize ?done (length ?pre) s1" "lv_initialized s1"
    using live_step [OF Cons.prems(1), of "pre @ annexb (x # ps)" long nal ps env base] Cons.prems(2,3) fits
    by (auto simp: x)
  obtain s' ms where "calls (Suc (length ps)) (doGetNextFrame env base (?pre @ annexb ps) period fMaxSize True) s1
      = Inr (replicate (length ps) Handed_Over @ [Finished (length (concat (?done @ map snd ps))) ms], s')"
    "pushed (lv_world s') = map (take (unat fMaxSize)) (?done @ map snd ps)"
    "\<forall>k < length (?done @ map snd ps). big_nals (take k (?done @ map snd ps)) * unat period \<le> fst (w_log (lv_world s') ! k)"
    using Cons.IH [OF s1(2,3)] Cons.prems(3-5) unfolding all by auto
  moreover have "doGetNextFrame env base (?pre @ annexb ps) period fMaxSize True s = Inr (Handed_Over, s1)"
    using s1(1) Cons.prems(2) unfolding data by (simp add: doGetNextFrame_def)
  ultimately show ?case
    unfolding data all by (intro exI [of _ s'] exI [of _ ms]) (simp del: calls.simps add: calls.simps(2) [of "Suc (length ps)"])
qed

subsection \<open>The latency test: frames in flight\<close>

text \<open>
  The source, the sink and the network between them. The event loop runs source and sink on
  one thread, so their calls interleave in any order (\<open>lat_reach\<close>): time passes, the source is
  asked for a frame, and a frame in flight is lost or arrives whole. The list is what is in flight.
\<close>

inductive lat_reach :: "env \<Rightarrow> nat \<Rightarrow> u8 list \<Rightarrow> u64 \<Rightarrow> u32 \<Rightarrow> lat_source \<Rightarrow> u8 list list \<Rightarrow> bool"
  for env base data period fMaxSize where
  lat_start: "lat_reach env base data period fMaxSize lat_init []"
| lat_wait: "lat_reach env base data period fMaxSize s net \<Longrightarrow>
    lat_reach env base data period fMaxSize (s\<lparr>la_world := (la_world s)\<lparr>w_now := w_now (la_world s) + d\<rparr>\<rparr>) net"
| lat_send: "lat_reach env base data period fMaxSize s net \<Longrightarrow>
    lat_doGetNextFrame env base data period fMaxSize True s = Inr (Sent, s') \<Longrightarrow>
    pushed (la_world s') = xs @ [x] \<Longrightarrow> lat_reach env base data period fMaxSize s' (net @ [x])"
| lat_lose: "lat_reach env base data period fMaxSize s (xs @ x # ys) \<Longrightarrow> lat_reach env base data period fMaxSize s (xs @ ys)"
| lat_receive: "lat_reach env base data period fMaxSize s (xs @ x # ys) \<Longrightarrow>
    lat_afterGettingFrame x (length x) s = Inr (Received, s') \<Longrightarrow> lat_reach env base data period fMaxSize s' (xs @ ys)"

definition in_flight :: "lat_source \<Rightarrow> u8 list \<Rightarrow> bool" where
  "in_flight s x \<longleftrightarrow> x \<noteq> [] \<and> (\<exists>t. (t, x) \<in> set (w_log (la_world s)) \<and> t \<le> w_now (la_world s)
     \<and> la_timestamps s (length x) = Some (t, length x))"

definition lat_inv :: "u8 list \<Rightarrow> lat_source \<Rightarrow> u8 list list \<Rightarrow> bool" where
  "lat_inv data s net \<longleftrightarrow> nc_start (la_cursor s) \<le> length data \<and> distinct (map length net)
     \<and> (\<forall>x \<in> set net. in_flight s x) \<and> la_frame_total s = la_intra_total s + la_inter_total s"

text \<open>One call of the source, on any data.\<close>

lemma lat_deliver_cases:
  assumes start: "nc_start (la_cursor s) \<le> length data" and max: "length data \<le> unat fMaxSize"
  shows "\<exists>nal c. latency_find_next_nal base data (la_cursor s) = Inr (nal, c) \<and> nc_start c \<le> length data
    \<and> (case nal of
         None \<Rightarrow> lat_deliverFrame env base data period fMaxSize True s = Inr (Idle, s\<lparr>la_cursor := c\<rparr>)
       | Some (n, q) \<Rightarrow> q + n \<le> length data \<and>
           (if n = 0 then lat_deliverFrame env base data period fMaxSize True s = Inr (Idle, s\<lparr>la_cursor := c\<rparr>)
            else if la_timestamps s n \<noteq> None
            then \<exists>s'. lat_deliverFrame env base data period fMaxSize True s = Inr (Exit_Failure, s')
            else \<exists>s' t. lat_deliverFrame env base data period fMaxSize True s = Inr (Sent, s')
              \<and> la_cursor s' = c \<and> la_timestamps s' = (la_timestamps s)(n \<mapsto> (t, n))
              \<and> w_log (la_world s') = w_log (la_world s) @ [(t, take n (drop q data))]
              \<and> t \<le> w_now (la_world s') \<and> w_now (la_world s) \<le> t
              \<and> la_frame_total s' = la_frame_total s \<and> la_intra_total s' = la_intra_total s
              \<and> la_inter_total s' = la_inter_total s \<and> la_initialized s' = la_initialized s))"
proof -
  obtain nal c where c: "latency_find_next_nal base data (la_cursor s) = Inr (nal, c)" "nc_start c \<le> length data"
    and r: "case nal of None \<Rightarrow> nc_start c = length data
     | Some (n, p) \<Rightarrow> p + n = nc_start c \<and> p < length data \<and> (nc_open (la_cursor s) \<longrightarrow> nc_start (la_cursor s) < p)"
    using ff_avc.next_nal_progress [OF start, of base 4] unfolding latency_find_next_nal_def by blast
  show ?thesis
  proof (cases nal)
    case None
    then show ?thesis
      using c by (intro exI [of _ nal] exI [of _ c]) (simp add: lat_deliverFrame_def Let_def)
  next
    case (Some nq)
    obtain n q where nq: "nal = Some (n, q)" using Some by (cases nq) auto
    have q: "q + n \<le> length data" using r c(2) by (simp add: nq)
    consider "n = 0" | "n \<noteq> 0" "la_timestamps s n \<noteq> None" | "n \<noteq> 0" "la_timestamps s n = None" by blast
    then show ?thesis
    proof cases
      case 1
      then show ?thesis
        using c q by (intro exI [of _ nal] exI [of _ c]) (simp add: nq lat_deliverFrame_def Let_def)
    next
      case 2
      then show ?thesis
        using c q by (intro exI [of _ nal] exI [of _ c]) (simp add: nq lat_deliverFrame_def Let_def)
    next
      case 3
      let ?w = "pace env period (la_current s) (la_world s)"
      have "n < 4294967296" using q max unat_u32_less [of fMaxSize] by linarith
      then have n: "unat (word_of_nat n :: u32) = n" by (simp add: unsigned_of_nat take_bit_nat_eq_self)
      have not: "\<not> fMaxSize < word_of_nat n" using q max by (simp add: word_less_nat_alt n)
      obtain w' where w': "push_frame env data q n ?w = Inr (e_push_ok env (length (w_log (la_world s))), w')"
        "w_log w' = w_log (la_world s) @ [(w_now ?w, take n (drop q data))]" "w_now ?w \<le> w_now w'"
        using push_frame_ok [OF q, of env ?w length 0] by auto
      define s' where "s' = s\<lparr>la_cursor := c, la_current := (if 1500 < n then la_current s + 1 else la_current s),
        la_timestamps := (la_timestamps s)(n \<mapsto> (w_now ?w, n)), la_world := w'\<rparr>"
      have "lat_deliverFrame env base data period fMaxSize True s = Inr (Sent, s')"
        using 3 c(1) w'(1) not n by (simp add: nq lat_deliverFrame_def Let_def s'_def)
      moreover have "w_now (la_world s) \<le> w_now ?w" by (simp add: pace_def Let_def)
      ultimately show ?thesis
        using 3 c q w'(2,3) by (intro exI [of _ nal] exI [of _ c]) (force simp: nq s'_def)
    qed
  qed
qed

lemma in_flight_mono:
  assumes "in_flight s x" and "la_timestamps s' (length x) = la_timestamps s (length x)"
    and "set (w_log (la_world s)) \<subseteq> set (w_log (la_world s'))" and "w_now (la_world s) \<le> w_now (la_world s')"
  shows "in_flight s' x"
  using assms by (auto simp: in_flight_def intro: order_trans)

lemma lat_inv_send:
  assumes inv: "lat_inv data s net" and max: "length data \<le> unat fMaxSize"
    and send: "lat_deliverFrame env base data period fMaxSize True s = Inr (Sent, s')"
    and x: "pushed (la_world s') = xs @ [x]"
  shows "lat_inv data s' (net @ [x])"
proof -
  have start: "nc_start (la_cursor s) \<le> length data" using inv by (simp add: lat_inv_def)
  obtain nal c where le: "nc_start c \<le> length data" and cases: "case nal of
      None \<Rightarrow> lat_deliverFrame env base data period fMaxSize True s = Inr (Idle, s\<lparr>la_cursor := c\<rparr>)
    | Some (n, q) \<Rightarrow> q + n \<le> length data \<and>
        (if n = 0 then lat_deliverFrame env base data period fMaxSize True s = Inr (Idle, s\<lparr>la_cursor := c\<rparr>)
         else if la_timestamps s n \<noteq> None
         then \<exists>s'. lat_deliverFrame env base data period fMaxSize True s = Inr (Exit_Failure, s')
         else \<exists>s' t. lat_deliverFrame env base data period fMaxSize True s = Inr (Sent, s')
           \<and> la_cursor s' = c \<and> la_timestamps s' = (la_timestamps s)(n \<mapsto> (t, n))
           \<and> w_log (la_world s') = w_log (la_world s) @ [(t, take n (drop q data))]
           \<and> t \<le> w_now (la_world s') \<and> w_now (la_world s) \<le> t
           \<and> la_frame_total s' = la_frame_total s \<and> la_intra_total s' = la_intra_total s
           \<and> la_inter_total s' = la_inter_total s \<and> la_initialized s' = la_initialized s)"
    using lat_deliver_cases [OF start max, of base env period] by blast
  obtain n q where nq: "nal = Some (n, q)" using cases send by (cases nal) auto
  have n: "n \<noteq> 0" "la_timestamps s n = None" "q + n \<le> length data"
    using cases send by (auto simp: nq simp del: not_None_eq split: if_splits)
  obtain t where c: "la_cursor s' = c" "la_timestamps s' = (la_timestamps s)(n \<mapsto> (t, n))"
    and log: "w_log (la_world s') = w_log (la_world s) @ [(t, take n (drop q data))]"
    and t: "t \<le> w_now (la_world s')" "w_now (la_world s) \<le> t"
    and tot: "la_frame_total s' = la_frame_total s" "la_intra_total s' = la_intra_total s" "la_inter_total s' = la_inter_total s"
    using cases send n by (simp add: nq) blast
  have xn: "x = take n (drop q data)" "length x = n" using x log n(3) by (auto simp: pushed_def)
  have old: "length y \<noteq> n \<and> in_flight s' y" if "y \<in> set net" for y
  proof -
    have y: "in_flight s y" using inv that by (simp add: lat_inv_def)
    then have "length y \<noteq> n" using n(2) by (auto simp: in_flight_def)
    then show ?thesis using in_flight_mono [OF y, of s'] c(2) log t by auto
  qed
  have "in_flight s' x" using xn n(1) c(2) log t(1) by (auto simp: in_flight_def)
  moreover have "length x \<notin> length ` set net" using old xn(2) by fastforce
  ultimately show ?thesis using inv old c(1) le tot by (auto simp: lat_inv_def)
qed

text \<open>What the sink does with a frame in flight.\<close>

lemma lat_sink_step:
  assumes "in_flight s x"
  shows "\<exists>t out s'. (t, x) \<in> set (w_log (la_world s)) \<and> t \<le> w_now (la_world s)
    \<and> lat_afterGettingFrame x (length x) s = Inr (out, s') \<and> out = (if la_frames s + 1 = 601 then Exit_Success else Received)
    \<and> la_frames s' = la_frames s + 1 \<and> la_world s' = la_world s \<and> la_cursor s' = la_cursor s
    \<and> la_timestamps s' = (la_timestamps s)(length x := None)
    \<and> la_intra_total s' = la_intra_total s + (if drop_bit 1 (hd x) AND 0x3f = 19 then (w_now (la_world s) - t) div 1000 else 0)
    \<and> la_inter_total s' = la_inter_total s + (if drop_bit 1 (hd x) AND 0x3f = 1 then (w_now (la_world s) - t) div 1000 else 0)
    \<and> (la_frame_total s = la_intra_total s + la_inter_total s \<longrightarrow> la_frame_total s' = la_intra_total s' + la_inter_total s')"
proof -
  obtain t where t: "(t, x) \<in> set (w_log (la_world s))" "t \<le> w_now (la_world s)"
    "la_timestamps s (length x) = Some (t, length x)" and x: "x \<noteq> []"
    using assms by (auto simp: in_flight_def)
  have b: "rd8 x 0 = Inr (hd x)" using x by (simp add: rd8_def hd_conv_nth)
  show ?thesis
    by (intro exI [of _ t]) (use t b in \<open>simp add: lat_afterGettingFrame_def Let_def\<close>)
qed

lemma lat_inv_drop:
  assumes "lat_inv data s (xs @ x # ys)"
  shows "lat_inv data s (xs @ ys)"
  using assms by (auto simp: lat_inv_def)

lemma lat_reach_inv:
  assumes "lat_reach env base data period fMaxSize s net" and "length data \<le> unat fMaxSize"
  shows "lat_inv data s net"
  using assms
proof (induction rule: lat_reach.induct)
  case lat_start
  show ?case by (simp add: lat_inv_def lat_init_def nal_cursor_init_def)
next
  case (lat_wait s net d)
  then show ?case
    by (auto simp: lat_inv_def intro: in_flight_mono)
next
  case (lat_send s net s' xs x)
  let ?s = "if \<not> la_initialized s then s\<lparr>la_initialized := True\<rparr> else s"
  have "lat_inv data ?s net"
    using lat_send by (auto simp: lat_inv_def intro: in_flight_mono)
  then show ?case
    using lat_inv_send lat_send unfolding lat_doGetNextFrame_def by blast
next
  case (lat_lose s xs x ys)
  then show ?case using lat_inv_drop by blast
next
  case (lat_receive s xs x ys s')
  have inv: "lat_inv data s (xs @ x # ys)" using lat_receive by blast
  then have x: "in_flight s x" by (simp add: lat_inv_def)
  have s': "la_world s' = la_world s" "la_cursor s' = la_cursor s" "la_timestamps s' = (la_timestamps s)(length x := None)"
    "la_frame_total s' = la_intra_total s' + la_inter_total s'"
    using lat_sink_step [OF x] lat_receive.hyps(2) inv by (auto simp: lat_inv_def)
  have "in_flight s' y" if "y \<in> set (xs @ ys)" for y
  proof -
    have "in_flight s y" "length y \<noteq> length x" using inv that by (auto simp: lat_inv_def image_iff)
    then show ?thesis using in_flight_mono [of s y s'] s' by simp
  qed
  then show ?case using inv s' by (auto simp: lat_inv_def)
qed

text \<open>A whole stream, from the first request.\<close>

lemma live_source_run:
  assumes "\<forall>x \<in> set ps. nal_ok (snd x) \<and> length (snd x) < 2 ^ 32"
    and "big_nals (map snd ps) * unat period < 2 ^ 64" and "big_nals (map snd ps) < 2 ^ 64 - 1"
  shows "\<exists>s ms. calls (Suc (length ps)) (doGetNextFrame env base (annexb ps) period fMaxSize True) (live_init epoch)
      = Inr (replicate (length ps) Handed_Over @ [Finished (length (concat (map snd ps))) ms], s)
    \<and> pushed (lv_world s) = map (take (unat fMaxSize)) (map snd ps)
    \<and> (\<forall>k < length ps. big_nals (take k (map snd ps)) * unat period \<le> fst (w_log (lv_world s) ! k))"
proof -
  let ?f = "doGetNextFrame env base (annexb ps) period fMaxSize True"
  define s0 where "s0 = (live_init epoch)\<lparr>lv_initialized := True,
    lv_cursor := \<lparr>nc_open = True, nc_len = 0, nc_start = 0, nc_end = 0\<rparr>\<rparr>"
  have "find_next_nal base (annexb ps) nal_cursor_init
      = find_next_nal base (annexb ps) \<lparr>nc_open = True, nc_len = 0, nc_start = 0, nc_end = 0\<rparr>"
    using ff_avc.finder_first [of ps base] assms(1)
    by (simp add: find_next_nal_def next_nal_def nal_cursor_init_def Let_def)
  then have "?f (live_init epoch) = ?f s0"
    by (simp add: doGetNextFrame_def deliverFrame_def live_init_def s0_def)
  then have eq: "calls (Suc (length ps)) ?f (live_init epoch) = calls (Suc (length ps)) ?f s0"
    by simp
  have "live_after period fMaxSize [] 0 s0"
    by (simp add: live_after_def s0_def live_init_def world_init_def pushed_def big_nals_def)
  then show ?thesis
    using live_calls [of period fMaxSize "[]" "[]" s0 ps env base] assms
    unfolding eq by (simp add: s0_def del: calls.simps)
qed

subsection \<open>Properties\<close>

text \<open>
  The live555 throughput source. On an Annex B stream every request hands over the next NAL
  unit, cut to the size the framework has room for; when all are sent the next request writes
  the result, whose byte count is that of the whole NAL units even if they were cut, and ends the
  program. A NAL unit with \<open>k\<close> units of more than 1500 bytes before it is handed over not
  before \<open>k * period\<close>.
\<close>

theorem live_source_delivers:
  assumes "\<forall>x \<in> set ps. nal_ok (snd x) \<and> length (snd x) < 2 ^ 32"
    and "big_nals (map snd ps) * unat period < 2 ^ 64" and "big_nals (map snd ps) < 2 ^ 64 - 1"
  shows "\<exists>s ms. calls (Suc (length ps)) (doGetNextFrame env base (annexb ps) period fMaxSize True) (live_init epoch)
      = Inr (replicate (length ps) Handed_Over @ [Finished (length (concat (map snd ps))) ms], s)
    \<and> pushed (lv_world s) = map (take (unat fMaxSize)) (map snd ps)
    \<and> (\<forall>k < length ps. big_nals (take k (map snd ps)) * unat period \<le> fst (w_log (lv_world s) ! k))"
  by (rule live_source_run [OF assms])

theorem live_source_delivers_witness:
  "\<exists>s ms. calls (Suc (length demo_nals)) (doGetNextFrame \<lparr>e_push_ok = \<lambda>_. True, e_cost = \<lambda>k. k, e_late = \<lambda>_. 1\<rparr>
        3 (annexb demo_nals) 33333 4 True) (live_init 1700000000000000)
      = Inr (replicate (length demo_nals) Handed_Over @ [Finished (length (concat (map snd demo_nals))) ms], s)
    \<and> pushed (lv_world s) = map (take (unat (4 :: u32))) (map snd demo_nals)
    \<and> (\<forall>k < length demo_nals. big_nals (take k (map snd demo_nals)) * unat (33333 :: u64) \<le> fst (w_log (lv_world s) ! k))"
  by (rule live_source_delivers)
    (auto simp: demo_nals_def nal_ok_def is_code_def less_Suc_eq big_nals_def)


definition demo_live_env :: env where
  "demo_live_env = \<lparr>e_push_ok = \<lambda>_. True, e_cost = \<lambda>k. k, e_late = \<lambda>_. 1\<rparr>"

definition demo_live_data :: "u8 list" where
  "demo_live_data = annexb [(False, [0x26, 9])]"

lemma demo_live_reach: "\<exists>s. lat_reach demo_live_env 0 demo_live_data 33333 0x10000 s [[0x26, 9]]"
proof -
  let ?ps = "[(False, [0x26, 9])] :: (bool \<times> u8 list) list"
  have ok: "\<forall>x \<in> set ?ps. nal_ok (snd x)" by (simp add: nal_ok_def is_code_def less_Suc_eq)
  then obtain c where c: "latency_find_next_nal 0 demo_live_data nal_cursor_init = Inr (Some (2, 3), c)"
    using ff_avc.next_nal_annexb [OF ok, of 0 4]
    by (auto simp: demo_live_data_def latency_find_next_nal_def rbind_eq_Inr start_code_def)
  let ?s = "lat_init\<lparr>la_initialized := True\<rparr>"
  have len: "length demo_live_data \<le> unat (0x10000 :: u32)"
    by (simp add: demo_live_data_def start_code_def)
  have start: "nc_start (la_cursor ?s) \<le> length demo_live_data"
    by (simp add: lat_init_def nal_cursor_init_def)
  obtain s' t where s': "lat_deliverFrame demo_live_env 0 demo_live_data 33333 0x10000 True ?s = Inr (Sent, s')"
    "w_log (la_world s') = w_log (la_world ?s) @ [(t, take 2 (drop 3 demo_live_data))]"
    using lat_deliver_cases [OF start len, of 0 demo_live_env 33333] c by (auto simp: lat_init_def)
  have "take 2 (drop 3 demo_live_data) = [0x26, 9]" by (simp add: demo_live_data_def start_code_def)
  then have "pushed (la_world s') = [] @ [[0x26, 9]]"
    using s'(2) by (simp add: pushed_def lat_init_def world_init_def)
  moreover have "lat_doGetNextFrame demo_live_env 0 demo_live_data 33333 0x10000 True lat_init = Inr (Sent, s')"
    using s'(1) by (simp add: lat_doGetNextFrame_def lat_init_def)
  ultimately show ?thesis
    using lat_send [OF lat_start] by fastforce
qed


text \<open>
  The frame size is the key. A request of the latency source never faults; it hands over the
  next NAL unit if no frame of the same size waits in \<open>timestamps\<close>, and otherwise ends the program
  with a failure, in particular whenever a frame of that size is still in flight.
\<close>

theorem lat_source_collision:
  assumes "lat_reach env base data period fMaxSize s net" and "length data \<le> unat fMaxSize"
    and "latency_find_next_nal base data (la_cursor s) = Inr (Some (n, q), c)" and "n \<noteq> 0"
  shows "\<exists>out s'. lat_doGetNextFrame env base data period fMaxSize True s = Inr (out, s')
    \<and> out = (if la_timestamps s n = None then Sent else Exit_Failure)
    \<and> ((\<exists>x \<in> set net. length x = n) \<longrightarrow> out = Exit_Failure)
    \<and> (out = Sent \<longrightarrow> pushed (la_world s') = pushed (la_world s) @ [take n (drop q data)])"
proof -
  let ?s = "if \<not> la_initialized s then s\<lparr>la_initialized := True\<rparr> else s"
  have inv: "lat_inv data s net" by (rule lat_reach_inv [OF assms(1,2)])
  have start: "nc_start (la_cursor ?s) \<le> length data" using inv by (simp add: lat_inv_def)
  have same: "la_timestamps ?s = la_timestamps s" "la_cursor ?s = la_cursor s" "la_world ?s = la_world s" by simp_all
  have flight: "(\<exists>x \<in> set net. length x = n) \<longrightarrow> la_timestamps s n \<noteq> None"
    using inv by (auto simp: lat_inv_def in_flight_def)
  show ?thesis
  proof (cases "la_timestamps s n = None")
    case True
    then obtain s' t where "lat_deliverFrame env base data period fMaxSize True ?s = Inr (Sent, s')"
      "w_log (la_world s') = w_log (la_world s) @ [(t, take n (drop q data))]"
      using lat_deliver_cases [OF start assms(2), of base env period] assms(3,4) by (auto simp only: same) force
    then show ?thesis
      using True flight by (auto simp: lat_doGetNextFrame_def pushed_def)
  next
    case False
    then obtain s' where "lat_deliverFrame env base data period fMaxSize True ?s = Inr (Exit_Failure, s')"
      using lat_deliver_cases [OF start assms(2), of base env period] assms(3,4) by (auto simp only: same) force
    then show ?thesis
      using False by (auto simp: lat_doGetNextFrame_def)
  qed
qed

theorem lat_source_collision_witness:
  "\<exists>c. latency_find_next_nal 0 demo_live_data nal_cursor_init = Inr (Some (2, 3), c)
    \<and> (\<exists>out s'. lat_doGetNextFrame demo_live_env 0 demo_live_data 33333 0x10000 True lat_init = Inr (out, s')
    \<and> out = (if la_timestamps lat_init 2 = None then Sent else Exit_Failure)
    \<and> ((\<exists>x \<in> set ([] :: u8 list list). length x = 2) \<longrightarrow> out = Exit_Failure)
    \<and> (out = Sent \<longrightarrow> pushed (la_world s') = pushed (la_world lat_init) @ [take 2 (drop 3 demo_live_data)]))"
proof -
  let ?ps = "[(False, [0x26, 9])] :: (bool \<times> u8 list) list"
  have ok: "\<forall>x \<in> set ?ps. nal_ok (snd x)" by (simp add: nal_ok_def is_code_def less_Suc_eq)
  then obtain c where c: "latency_find_next_nal 0 demo_live_data nal_cursor_init = Inr (Some (2, 3), c)"
    using ff_avc.next_nal_annexb [OF ok, of 0 4]
    by (auto simp: demo_live_data_def latency_find_next_nal_def rbind_eq_Inr start_code_def)
  have len: "length demo_live_data \<le> unat (0x10000 :: u32)"
    by (simp add: demo_live_data_def start_code_def)
  have "latency_find_next_nal 0 demo_live_data (la_cursor lat_init) = Inr (Some (2, 3), c)"
    using c by (simp add: lat_init_def)
  from lat_source_collision [OF lat_start len this, of demo_live_env 33333] show ?thesis
    using c by simp
qed

end
