(* ===== verification/Framed_Source.thy ===== *)
theory Framed_Source
  imports Nal_Source Bytes
begin

section \<open>The custom live555 source\<close>

text \<open>
  \<open>FramedSourceCustom\<close> of \<open>util/live555_util.cc\<close>: a file of chunks (each behind its size, eight
  bytes) is queued chunk by chunk, a chunk is split into NAL units, and each request of the
  event loop sends a NAL unit or, when it is large, the next 1444 bytes of it.

  Pointers are offsets into the file. What has been copied to \<open>fTo\<close> is logged in \<open>fs_sent\<close>;
  \<open>afterGetting\<close>, the call by which the framework takes the frame, is taken not to ask for the next
  frame before it returns. Timers are left out.
\<close>

definition MAX_WRITE_SIZE :: nat where
  "MAX_WRITE_SIZE = 1444"

record framed =
  fs_len :: int
  fs_chunks :: "(nat \<times> nat) list"       \<comment> \<open>\<open>chunks_\<close>: sizes and positions\<close>
  fs_chunk :: "(nat \<times> nat) option"      \<comment> \<open>\<open>c_chunk_len_\<close> and \<open>c_chunk_\<close>, none for the null pointer\<close>
  fs_nals :: "(nat \<times> nat) list"         \<comment> \<open>\<open>nals_\<close>\<close>
  fs_nal :: "nat option"                \<comment> \<open>\<open>c_nal_\<close>\<close>
  fs_nal_len :: nat
  fs_nal_off :: nat
  fs_n_calls :: nat
  fs_total_size :: nat
  fs_stop :: bool
  fs_sent :: "u8 list list"

subsection \<open>startFramedSource\<close>

text \<open>
  The loop over the chunks of the file, at most \<open>rounds\<close> more; \<open>i\<close> and \<open>total_size_\<close> are
  64-bit. The constructor sets \<open>len_\<close> and \<open>off_\<close> to 0, and nothing but \<open>sendFrame\<close> ever sets
  \<open>c_nal_\<close>: its first value is \<open>garbage\<close>.
\<close>

fun queue_chunks :: "u8 list \<Rightarrow> nat \<Rightarrow> nat \<Rightarrow> (nat \<times> nat) list \<Rightarrow> nat \<Rightarrow> ((nat \<times> nat) list \<times> nat) res" where
  "queue_chunks mem 0 i chunks total_size = Inr (chunks, total_size)"
| "queue_chunks mem (Suc rounds) i chunks total_size =
     (if i < length mem then
        rbind (rd_bytes mem i 8) (\<lambda>bs. let chunk_size = of_le bs; i = i + 8 in
        queue_chunks mem rounds ((i + chunk_size) mod 2 ^ 64) (chunks @ [(chunk_size, i)]) ((total_size + chunk_size) mod 2 ^ 64))
      else Inr (chunks, total_size))"

definition startFramedSource :: "u8 list \<Rightarrow> nat option \<Rightarrow> framed res" where
  "startFramedSource mem garbage =
     rbind (queue_chunks mem 3000 0 [] 0) (\<lambda>(chunks, total_size).
     Inr \<lparr>fs_len = sint (word_of_nat (length mem) :: u32), fs_chunks = chunks, fs_chunk = None, fs_nals = [],
          fs_nal = garbage, fs_nal_len = 0, fs_nal_off = 0, fs_n_calls = 0, fs_total_size = total_size,
          fs_stop = False, fs_sent = []\<rparr>)"

subsection \<open>splitIntoNals\<close>

text \<open>
  The result of \<open>get_next_frame_start\<close> is an \<open>int\<close> that is passed on as an unsigned 32-bit
  offset. Each call that finds a start goes past the last one, which is why the loop ends.
\<close>

lemma frame_start_progress:
  assumes "frame_start_loop data offset data_len zeros pos start_len = Inr (r, sl)" and "r \<noteq> - 1" and "data_len < 2 ^ 32"
  shows "offset + pos < unat (word_of_int r :: u32) \<and> unat (word_of_int r :: u32) \<le> data_len"
  using assms
proof (induction data offset data_len zeros pos start_len rule: frame_start_loop.induct)
  case (1 data offset data_len zeros pos start_len)
  have lt: "offset + pos < data_len"
    using 1(2,3) by (subst (asm) frame_start_loop.simps) (auto split: if_splits)
  obtain b where b: "rd8 data (offset + pos) = Inr b"
    using 1(2) lt by (subst (asm) frame_start_loop.simps) (auto simp: rbind_eq_Inr)
  show ?case
  proof (cases "2 \<le> unat zeros \<and> b = 1")
    case True
    then have "r = sint (word_of_nat (offset + pos + 1) :: u32)"
      using 1(2) lt b by (subst (asm) frame_start_loop.simps) auto
    then have "word_of_int r = (word_of_nat (offset + pos + 1) :: u32)" by simp
    moreover have "unat (word_of_nat (offset + pos + 1) :: u32) = offset + pos + 1"
      using lt 1(4) by (simp add: unsigned_of_nat take_bit_nat_eq_self del: of_nat_Suc of_nat_add)
    ultimately show ?thesis using lt by simp
  next
    case False
    have "frame_start_loop data offset data_len (if b = 0 then zeros + 1 else 0) (pos + 1) start_len = Inr (r, sl)"
      using 1(2) lt b False by (subst (asm) frame_start_loop.simps) auto
    then have "offset + (pos + 1) < unat (word_of_int r :: u32) \<and> unat (word_of_int r :: u32) \<le> data_len"
      by (rule 1(1) [OF lt b False _ 1(3,4)])
    then show ?thesis by simp
  qed
qed

text \<open>\<open>nals_.push(std::make_pair(...))\<close> turns the \<open>int\<close> size into a \<open>size_t\<close>.\<close>

definition size_of_int :: "int \<Rightarrow> nat" where
  "size_of_int x = unat (word_of_int x :: u64)"

function split_loop ::
  "u8 list \<Rightarrow> u32 \<Rightarrow> int \<Rightarrow> int \<Rightarrow> u8 \<Rightarrow> (nat \<times> int) list \<Rightarrow> (int \<times> (nat \<times> int) list) res" where
  "split_loop chunk len offset prev_offset start_len nals =
     (if offset \<noteq> - 1 then
        rbind (get_next_frame_start chunk (unat (word_of_int offset :: u32)) (unat len) start_len) (\<lambda>(offset, start_len).
        if 4 < offset \<and> offset \<noteq> - 1
        then split_loop chunk len offset offset start_len
               (nals @ [(size_of_int (offset - prev_offset - int (unat start_len)), prev_offset)])
        else split_loop chunk len offset prev_offset start_len nals)
      else Inr (prev_offset, nals))"
  by pat_completeness auto
termination
proof (relation "measure (\<lambda>(chunk, len, offset, prev, sl, nals).
    if offset = - 1 then 0 else Suc (2 ^ 32 - unat (word_of_int offset :: u32)))", goal_cases)
  case 1
  then show ?case by simp
next
  case (2 chunk len offset prev sl nals r offset' sl')
  then have "unat (word_of_int offset :: u32) < unat (word_of_int offset' :: u32)"
    using frame_start_progress [of chunk "unat (word_of_int offset :: u32)" "unat len" 0 0 sl offset' sl']
      unat_u32_less [of len]
    by (auto simp: get_next_frame_start_def)
  moreover have "unat (word_of_int offset' :: u32) < 2 ^ 32" using unat_u32_less [of "word_of_int offset'"] by simp
  ultimately show ?case using 2 by simp
next
  case (3 chunk len offset prev sl nals r offset' sl')
  show ?case
  proof (cases "offset' = - 1")
    case False
    then have "unat (word_of_int offset :: u32) < unat (word_of_int offset' :: u32)"
      using 3 frame_start_progress [of chunk "unat (word_of_int offset :: u32)" "unat len" 0 0 sl offset' sl']
        unat_u32_less [of len]
      by (auto simp: get_next_frame_start_def)
    moreover have "unat (word_of_int offset' :: u32) < 2 ^ 32" using unat_u32_less [of "word_of_int offset'"] by simp
    ultimately show ?thesis using 3 False by (simp add: diff_less_mono2)
  qed (use 3 in simp)
qed

declare split_loop.simps [simp del]

text \<open>The chunk at \<open>c_chunk\<close>; the NAL units are appended to \<open>nals_\<close>.\<close>

definition splitIntoNals :: "u8 list \<Rightarrow> nat \<times> nat \<Rightarrow> (nat \<times> nat) list \<Rightarrow> (nat \<times> nat) list res" where
  "splitIntoNals mem = (\<lambda>(c_chunk_len, c_chunk) nals.
     let len = word_of_nat c_chunk_len; chunk = drop c_chunk mem in
     rbind (get_next_frame_start chunk 0 (unat (len :: u32)) 0) (\<lambda>(offset, start_len).
     rbind (split_loop chunk len offset offset start_len []) (\<lambda>(prev_offset, found).
     let prev_offset = (if prev_offset = - 1 then 0 else prev_offset);
         found = found @ [(size_of_int (int c_chunk_len - prev_offset), prev_offset)] in
     Inr (nals @ map (\<lambda>(n, p). (n, nat (int c_chunk + p))) found))))"

subsection \<open>sendFrame\<close>

text \<open>
  \<open>printStats\<close> sets the stop flag and divides by the number of chunks sent. \<open>front\<close> of an empty
  queue is undefined behaviour.
\<close>

definition printStats :: "framed \<Rightarrow> framed res" where
  "printStats s = (let s = s\<lparr>fs_stop := True\<rparr> in if fs_n_calls s = 0 then Inl Div_By_Zero else Inr s)"

definition next_chunk :: "u8 list \<Rightarrow> framed \<Rightarrow> framed res" where
  "next_chunk mem s =
     (if fs_chunk s \<noteq> None then Inr s
      else rbind (if fs_chunks s = [] then printStats s else Inr s) (\<lambda>s.
        case fs_chunks s of
          [] \<Rightarrow> Inl Empty_Container
        | cinfo # chunks \<Rightarrow>
          rbind (splitIntoNals mem cinfo (fs_nals s)) (\<lambda>nals.
          Inr (s\<lparr>fs_chunks := chunks, fs_chunk := Some cinfo, fs_nals := nals\<rparr>))))"

definition next_unit_of_chunk :: "framed \<Rightarrow> framed res" where
  "next_unit_of_chunk s =
     (if fs_nal s \<noteq> None then Inr s
      else case fs_nals s of
          [] \<Rightarrow> Inl Empty_Container
        | (n, p) # nals \<Rightarrow> Inr (s\<lparr>fs_nals := nals, fs_nal := Some p, fs_nal_len := n, fs_nal_off := 0\<rparr>))"

datatype framed_outcome = Empty_Frame | Frame_Sent

text \<open>\<open>fTo\<close> has room for \<open>fMaxSize\<close> bytes, which the code does not look at.\<close>

definition sendFrame :: "u8 list \<Rightarrow> nat \<Rightarrow> framed \<Rightarrow> (framed_outcome \<times> framed) res" where
  "sendFrame mem fMaxSize s =
     (if fs_len s = 0 then Inr (Empty_Frame, s)
      else rbind (next_chunk mem s) (\<lambda>s. rbind (next_unit_of_chunk s) (\<lambda>s.
        rbind (of_option Bad_Pointer (fs_nal s)) (\<lambda>c_nal.
        let (send_len, send_off) =
              (if fs_nal_len s < MAX_WRITE_SIZE then (fs_nal_len s, 0)
               else let left = sint (word_of_int (int (fs_nal_len s) - int (fs_nal_off s)) :: u32) in
                 (if left < int MAX_WRITE_SIZE then size_of_int left else MAX_WRITE_SIZE, fs_nal_off s)) in
        rbind (rd_bytes mem (c_nal + send_off) send_len) (\<lambda>x.
        if fMaxSize < send_len then Inl Out_Of_Bounds
        else let s = s\<lparr>fs_sent := fs_sent s @ [x]\<rparr>;
                 nal_written_fully = (fs_nal_len s \<le> fs_nal_off s + send_len) in
          Inr (Frame_Sent,
            if nal_written_fully \<and> fs_nals s = []
            then s\<lparr>fs_chunk := None, fs_n_calls := fs_n_calls s + 1\<rparr>
            else if \<not> nal_written_fully then s\<lparr>fs_nal_off := fs_nal_off s + send_len\<rparr>
            else s\<lparr>fs_nal := None\<rparr>)))))) "

subsection \<open>Splitting an Annex B chunk\<close>

lemma zero_run_start_code:
  assumes "nal = [] \<or> last nal \<noteq> 0" and "data = pre @ nal @ start_code long @ rest"
  shows "zero_run data (length pre) (length pre + length nal + length (start_code long) - 1) = length (start_code long) - 1"
proof -
  let ?p = "length pre + length nal"
  have z0: "zero_run data (length pre) ?p = 0"
  proof (cases "nal = []")
    case True
    then show ?thesis by (cases "length pre") auto
  next
    case False
    then obtain n where n: "length nal = Suc n" by (cases nal) auto
    have "data ! (length pre + n) = last nal"
      using False n by (simp add: assms(2) nth_append last_conv_nth)
    then show ?thesis using assms(1) False n by simp
  qed
  have d: "i + 1 < length (start_code long) \<Longrightarrow> data ! (?p + i) = 0" for i
    by (auto simp: assms(2) nth_append start_code_def less_Suc_eq numeral_3_eq_3 split: if_splits)
  have "i < length (start_code long) \<Longrightarrow> zero_run data (length pre) (?p + i) = i" for i
    by (induction i) (use z0 d in auto)
  from this [of "length (start_code long) - 1"] show ?thesis
    by (simp add: length_start_code split: if_splits)
qed

lemma zero_run_le: "zero_run data offset i \<ge> Suc (Suc 0) \<Longrightarrow> offset + 2 \<le> i \<and> data ! (i - 1) = 0 \<and> data ! (i - 2) = 0"
  by (cases i; cases "i - 1") (auto split: if_splits)

lemma no_frame_start_inside:
  assumes "nal = [] \<or> nal_ok nal" and "data = pre @ nal @ rest" and "length pre \<le> i" and "i < length pre + length nal"
  shows "\<not> frame_start_at data (length pre) i"
proof
  assume f: "frame_start_at data (length pre) i"
  then have "Suc (Suc 0) \<le> zero_run data (length pre) i"
  proof -
    have "2 \<le> zero_run data (length pre) i mod 256" using f by (simp add: frame_start_at_def)
    also have "\<dots> \<le> zero_run data (length pre) i" by (rule mod_less_eq_dividend)
    finally show ?thesis by simp
  qed
  then have z: "length pre + 2 \<le> i" "data ! (i - 1) = 0" "data ! (i - 2) = 0"
    using zero_run_le by auto
  have "i < length data" using assms(2,4) by simp
  then have "is_code data (i - 2)"
    using f z by (simp add: is_code_def frame_start_at_def Suc_diff_Suc numeral_2_eq_2)
  moreover have "nal_ok nal" using assms(1,3,4) by auto
  ultimately show False
    using no_code_inside [of nal "length pre" "i - 2" pre rest] assms(2,4) z(1) by simp
qed

text \<open>The search from the first byte of a NAL unit (or the first byte of the chunk).\<close>

lemma next_start:
  assumes nal: "nal = [] \<or> nal_ok nal" and data: "data = pre @ nal @ start_code long @ rest"
    and len: "length pre + length nal + length (start_code long) \<le> len" "len \<le> length data" "len < 2 ^ 31"
  shows "get_next_frame_start data (length pre) len sl
    = Inr (int (length pre + length nal + length (start_code long)), word_of_nat (length (start_code long)))"
proof -
  let ?q = "length pre + length nal + length (start_code long) - 1"
  have sc: "3 \<le> length (start_code long)" "length (start_code long) \<le> 4" by (simp_all add: length_start_code)
  have z: "zero_run data (length pre) ?q = length (start_code long) - 1"
    using zero_run_start_code [of nal data pre long rest] nal data by (auto simp: nal_ok_def)
  have one: "data ! (length pre + length nal + (length (start_code long) - 1)) = 1"
    unfolding data nth_append_length_plus by (simp add: nth_append start_code_def)
  have "first_from (frame_start_at data (length pre)) (length pre) len = Some ?q"
    unfolding first_from_Some
  proof (intro conjI allI impI)
    show "frame_start_at data (length pre) ?q"
      using one z sc by (simp add: frame_start_at_def add.assoc)
    fix r assume r: "length pre \<le> r \<and> r < ?q"
    show "\<not> frame_start_at data (length pre) r"
    proof (cases "r < length pre + length nal")
      case True
      then show ?thesis using r by (intro no_frame_start_inside [OF nal data]) auto
    next
      case False
      then obtain i where i: "r = length pre + length nal + i"
        using le_Suc_ex by (meson not_less)
      then have "i + 1 < length (start_code long)" using r sc by linarith
      then have "data ! r = 0"
        using i by (auto simp: data nth_append start_code_def less_Suc_eq numeral_3_eq_3 split: if_splits)
      then show ?thesis by (simp add: frame_start_at_def)
    qed
  qed (use len sc in auto)
  then show ?thesis
    using get_next_frame_start_eq [of "length pre" len data sl] len sc z by simp
qed

lemma last_start:
  assumes nal: "nal_ok nal" and data: "data = pre @ nal @ rest" and len: "len = length pre + length nal" "len < 2 ^ 31"
  shows "get_next_frame_start data (length pre) len sl = Inr (- 1, sl)"
proof -
  have "first_from (frame_start_at data (length pre)) (length pre) len = None"
    unfolding first_from_None using no_frame_start_inside [of nal data pre rest] nal data len by auto
  then show ?thesis
    using get_next_frame_start_eq [of "length pre" len data sl] len data by simp
qed

lemma size_of_int_nat [simp]: "n < 2 ^ 64 \<Longrightarrow> size_of_int (int n) = n"
  by (simp add: size_of_int_def unsigned_of_nat take_bit_nat_eq_self)

lemma unat_len: "n < 2 ^ 31 \<Longrightarrow> unat (word_of_nat n :: u32) = n"
  by (simp add: unsigned_of_nat take_bit_nat_eq_self)

definition int_span :: "nat \<times> nat \<Rightarrow> nat \<times> int" where
  "int_span = (\<lambda>(n, p). (n, int p))"

text \<open>
  From the first byte of a NAL unit with the units \<open>ps\<close> behind it: every unit but the last is
  found by the loop.
\<close>

lemma split_loop_annexb:
  assumes "nal_ok nal" and "\<forall>x \<in> set ps. nal_ok (snd x)" and "chunk = pre @ nal @ annexb ps @ post"
    and "len = length pre + length nal + length (annexb ps)" and "len < 2 ^ 31" and "3 \<le> length pre"
  shows "\<exists>ns n p. (length nal, length pre) # nal_spans_of (length pre + length nal) ps = ns @ [(n, p)]
    \<and> split_loop chunk (word_of_nat len) (int (length pre)) (int (length pre)) sl acc = Inr (int p, acc @ map int_span ns)
    \<and> p + n = len"
  using assms
proof (induction ps arbitrary: nal pre sl acc)
  case Nil
  have l: "unat (word_of_nat len :: u32) = len" and o: "unat (word_of_int (int (length pre)) :: u32) = length pre"
    using Nil.prems(4,5) unat_len [of len] unat_len [of "length pre"] by simp_all
  have "get_next_frame_start chunk (length pre) len sl = Inr (- 1, sl)"
    using Nil.prems by (intro last_start [of nal _ _ post]) simp_all
  then have "split_loop chunk (word_of_nat len) (int (length pre)) (int (length pre)) sl acc = Inr (int (length pre), acc)"
    by (subst split_loop.simps, simp only: l o) (simp add: split_loop.simps)
  then show ?case using Nil.prems(4) by (intro exI [of _ "[]"]) simp
next
  case (Cons x ps)
  obtain long nal' where x: "x = (long, nal')" by fastforce
  let ?pre = "pre @ nal @ start_code long" and ?sc = "length (start_code long)"
  have l: "unat (word_of_nat len :: u32) = len" and o: "unat (word_of_int (int (length pre)) :: u32) = length pre"
    using Cons.prems(4,5) unat_len [of len] unat_len [of "length pre"] by simp_all
  have sc: "3 \<le> ?sc" "?sc \<le> 4" by (simp_all add: length_start_code)
  have chunk: "chunk = pre @ nal @ start_code long @ nal' @ annexb ps @ post"
    using Cons.prems(3) by (simp add: x)
  have len: "len = length pre + length nal + ?sc + length nal' + length (annexb ps)"
    using Cons.prems(4) by (simp add: x)
  have found: "get_next_frame_start chunk (length pre) len sl = Inr (int (length ?pre), word_of_nat ?sc)"
    using next_start [of nal chunk pre long "nal' @ annexb ps @ post" len sl] Cons.prems(1,5) chunk len
    by (simp add: add.assoc)
  have sl: "uint (word_of_nat ?sc :: u8) = int ?sc"
    using sc by (simp add: unsigned_of_nat take_bit_nat_eq_self)
  have "size_of_int (int (length ?pre) - int (length pre) - int ?sc) = length nal"
    using len Cons.prems(5) by simp
  then have step: "split_loop chunk (word_of_nat len) (int (length pre)) (int (length pre)) sl acc
      = split_loop chunk (word_of_nat len) (int (length ?pre)) (int (length ?pre)) (word_of_nat ?sc)
          (acc @ [(length nal, int (length pre))])"
    using Cons.prems(6) sc by (subst split_loop.simps, simp only: l o found rbind_Inr) (simp add: sl)
  obtain ns n p where *: "(length nal', length ?pre) # nal_spans_of (length ?pre + length nal') ps = ns @ [(n, p)]"
    "split_loop chunk (word_of_nat len) (int (length ?pre)) (int (length ?pre)) (word_of_nat ?sc)
          (acc @ [(length nal, int (length pre))]) = Inr (int p, (acc @ [(length nal, int (length pre))]) @ map int_span ns)"
    "p + n = len"
    using Cons.IH [of nal' ?pre "word_of_nat ?sc" "acc @ [(length nal, int (length pre))]"] Cons.prems chunk len
    by (auto simp: x)
  have "(length nal, length pre) # nal_spans_of (length pre + length nal) (x # ps)
      = ((length nal, length pre) # ns) @ [(n, p)]"
    using *(1) by (simp add: x add.assoc)
  then show ?case
    using step *(2,3) by (intro exI [of _ "(length nal, length pre) # ns"] exI [of _ n] exI [of _ p]) (simp add: int_span_def)
qed

lemma nal_spans_shift: "map (\<lambda>(n, p). (n, d + p)) (nal_spans_of q ps) = nal_spans_of (d + q) ps"
proof (induction ps arbitrary: q)
  case (Cons x ps)
  obtain long nal where "x = (long, nal)" by fastforce
  then show ?case using Cons by (simp add: add.assoc)
qed simp

text \<open>A chunk that starts with a start code is split into its NAL units.\<close>

lemma split_annexb:
  assumes ps: "\<forall>x \<in> set ps. nal_ok (snd x)" "ps \<noteq> []" and mem: "mem = before @ annexb ps @ after"
    and len: "length (annexb ps) < 2 ^ 31"
  shows "splitIntoNals mem (length (annexb ps), length before) nals = Inr (nals @ nal_spans_of (length before) ps)"
proof -
  obtain long nal ps' where x: "ps = (long, nal) # ps'" using ps(2) by (cases ps) auto
  let ?len = "length (annexb ps)" and ?pre = "start_code long" and ?chunk = "drop (length before) mem"
  have sc: "3 \<le> length ?pre" "length ?pre \<le> 4" by (simp_all add: length_start_code)
  have l: "unat (word_of_nat ?len :: u32) = ?len" using len by (simp add: unsigned_of_nat take_bit_nat_eq_self)
  have chunk: "?chunk = ?pre @ nal @ annexb ps' @ after" by (simp add: mem x)
  have first: "get_next_frame_start ?chunk 0 ?len 0 = Inr (int (length ?pre), word_of_nat (length ?pre))"
    using next_start [of "[]" ?chunk "[]" long "nal @ annexb ps' @ after" ?len 0] chunk len by (simp add: x)
  obtain ns n p where *: "(length nal, length ?pre) # nal_spans_of (length ?pre + length nal) ps' = ns @ [(n, p)]"
    "split_loop ?chunk (word_of_nat ?len) (int (length ?pre)) (int (length ?pre)) (word_of_nat (length ?pre)) []
      = Inr (int p, [] @ map int_span ns)" "p + n = ?len"
    using split_loop_annexb [of nal ps' ?chunk ?pre after ?len "word_of_nat (length ?pre)" "[]"] ps chunk len sc
    by (auto simp: x)
  have n: "size_of_int (int ?len - int p) = n"
  proof -
    have "int ?len - int p = int n" using *(3) by simp
    moreover have "n < 2 ^ 64" using *(3) len by simp
    ultimately show ?thesis by (simp only: size_of_int_nat)
  qed
  have "splitIntoNals mem (?len, length before) nals
      = Inr (nals @ map (\<lambda>(n, p). (n, nat (int (length before) + p))) (map int_span ns @ [(n, int p)]))"
    unfolding splitIntoNals_def Let_def prod.case l first rbind_Inr *(2) using n by simp
  also have "map (\<lambda>(n, p). (n, nat (int (length before) + p))) (map int_span ns @ [(n, int p)])
      = map (\<lambda>(n, p). (n, length before + p)) (ns @ [(n, p)])"
    by (auto simp: int_span_def nat_add_distrib)
  also have "\<dots> = map (\<lambda>(n, p). (n, length before + p)) (nal_spans_of 0 ps)"
    using *(1) by (simp add: x)
  also have "\<dots> = nal_spans_of (length before) ps"
    using nal_spans_shift [of "length before" 0 ps] by simp
  finally show ?thesis .
qed

subsection \<open>Sending a NAL unit in pieces\<close>

function pieces :: "u8 list \<Rightarrow> u8 list list" where
  "pieces x = (if length x \<le> MAX_WRITE_SIZE then [x] else take MAX_WRITE_SIZE x # pieces (drop MAX_WRITE_SIZE x))"
  by pat_completeness auto
termination
  by (relation "measure length") (auto simp: MAX_WRITE_SIZE_def)

declare pieces.simps [simp del]

lemma pieces_not_Nil [simp]: "pieces x \<noteq> []"
  by (subst pieces.simps) simp

lemma concat_pieces: "concat (pieces x) = x"
  by (induction x rule: pieces.induct) (subst pieces.simps, simp)

lemma pieces_small: "\<forall>y \<in> set (pieces x). length y \<le> MAX_WRITE_SIZE"
  by (induction x rule: pieces.induct) (subst pieces.simps, simp)

text \<open>
  The last piece, the one the position stays on. \<open>at_piece mem s y\<close>: the current NAL unit has the
  bytes \<open>y\<close> left.
\<close>

definition at_piece :: "u8 list \<Rightarrow> framed \<Rightarrow> u8 list \<Rightarrow> bool" where
  "at_piece mem s y \<longleftrightarrow> (\<exists>p. fs_nal s = Some p \<and> p + fs_nal_len s \<le> length mem \<and> fs_nal_len s < 2 ^ 31
     \<and> fs_nal_off s \<le> fs_nal_len s \<and> (fs_nal_len s < MAX_WRITE_SIZE \<longrightarrow> fs_nal_off s = 0)
     \<and> y = drop (fs_nal_off s) (take (fs_nal_len s) (drop p mem)))"

lemma at_piece_cong:
  "fs_nal s' = fs_nal s \<Longrightarrow> fs_nal_len s' = fs_nal_len s \<Longrightarrow> fs_nal_off s' = fs_nal_off s \<Longrightarrow> at_piece mem s' y = at_piece mem s y"
  by (simp add: at_piece_def)

lemma at_piece_length: "at_piece mem s y \<Longrightarrow> length y = fs_nal_len s - fs_nal_off s"
  by (auto simp: at_piece_def)

text \<open>One call, on the current NAL unit of the current chunk.\<close>

lemma send_piece:
  assumes "fs_len s \<noteq> 0" and "fs_chunk s \<noteq> None" and at: "at_piece mem s y" and max: "MAX_WRITE_SIZE \<le> fMaxSize"
  shows "sendFrame mem fMaxSize s = Inr (Frame_Sent,
    if length y \<le> MAX_WRITE_SIZE
    then if fs_nals s = [] then s\<lparr>fs_sent := fs_sent s @ [y], fs_chunk := None, fs_n_calls := fs_n_calls s + 1\<rparr>
      else s\<lparr>fs_sent := fs_sent s @ [y], fs_nal := None\<rparr>
    else s\<lparr>fs_sent := fs_sent s @ [take MAX_WRITE_SIZE y], fs_nal_off := fs_nal_off s + MAX_WRITE_SIZE\<rparr>)"
proof -
  obtain p where p: "fs_nal s = Some p" "p + fs_nal_len s \<le> length mem" "fs_nal_len s < 2 ^ 31"
    "fs_nal_off s \<le> fs_nal_len s" "fs_nal_len s < MAX_WRITE_SIZE \<longrightarrow> fs_nal_off s = 0"
    and y: "y = drop (fs_nal_off s) (take (fs_nal_len s) (drop p mem))"
    using at by (auto simp: at_piece_def)
  have len: "length y = fs_nal_len s - fs_nal_off s" using p(2) by (simp add: y)
  let ?left = "fs_nal_len s - fs_nal_off s"
  have left: "sint (word_of_int (int (fs_nal_len s) - int (fs_nal_off s)) :: u32) = int ?left"
    using p(3,4) sint_u32_small [of ?left] by (simp add: of_nat_diff)
  let ?m = "min MAX_WRITE_SIZE ?left"
  have choice: "(if fs_nal_len s < MAX_WRITE_SIZE then (fs_nal_len s, 0)
      else (if int ?left < int MAX_WRITE_SIZE then size_of_int (int ?left) else MAX_WRITE_SIZE, fs_nal_off s))
    = (?m, fs_nal_off s)"
    using p(3,5) by (auto simp: min_def)
  have "take ?m (drop (p + fs_nal_off s) mem) = take MAX_WRITE_SIZE y"
    by (simp add: y drop_take take_take add.commute min.commute)
  then have read: "rd_bytes mem (p + fs_nal_off s) ?m = Inr (take MAX_WRITE_SIZE y)"
    using p(2,4) by (simp add: rd_bytes_def)
  have nc: "next_chunk mem s = Inr s" "next_unit_of_chunk s = Inr s"
    using assms(2) p(1) by (simp_all add: next_chunk_def next_unit_of_chunk_def)
  have "sendFrame mem fMaxSize s = (let s' = s\<lparr>fs_sent := fs_sent s @ [take MAX_WRITE_SIZE y]\<rparr>;
        full = (fs_nal_len s \<le> fs_nal_off s + ?m) in
      Inr (Frame_Sent, if full \<and> fs_nals s = [] then s'\<lparr>fs_chunk := None, fs_n_calls := fs_n_calls s + 1\<rparr>
        else if \<not> full then s'\<lparr>fs_nal_off := fs_nal_off s + ?m\<rparr> else s'\<lparr>fs_nal := None\<rparr>))"
    unfolding sendFrame_def using assms(1) max
    by (simp only: if_False nc rbind_Inr p(1) of_option_simps Let_def left choice prod.case read) simp
  then show ?thesis
    using len by (auto simp: Let_def min_def)
qed

lemma calls_append:
  "calls (m + n) f c = rbind (calls m f c) (\<lambda>(rs, c). rbind (calls n f c) (\<lambda>(rs', c). Inr (rs @ rs', c)))"
proof (induction m arbitrary: c)
  case 0
  show ?case by (cases "calls n f c") auto
next
  case (Suc m)
  show ?case by (simp add: Suc) (auto simp: rbind_def split: sum.splits prod.splits)
qed

lemma calls_trans:
  "calls m f c = Inr (rs, c1) \<Longrightarrow> calls n f c1 = Inr (rs', c2) \<Longrightarrow> calls (m + n) f c = Inr (rs @ rs', c2)"
  by (simp add: calls_append)

text \<open>All pieces of the current NAL unit. Behind them the position is still on the last one.\<close>

lemma send_nal:
  assumes "fs_len s \<noteq> 0" and "fs_chunk s \<noteq> None" and "at_piece mem s y" and "MAX_WRITE_SIZE \<le> fMaxSize"
  shows "\<exists>off. calls (length (pieces y)) (sendFrame mem fMaxSize) s = Inr (replicate (length (pieces y)) Frame_Sent,
      if fs_nals s = []
      then s\<lparr>fs_sent := fs_sent s @ pieces y, fs_chunk := None, fs_n_calls := fs_n_calls s + 1, fs_nal_off := off\<rparr>
      else s\<lparr>fs_sent := fs_sent s @ pieces y, fs_nal := None, fs_nal_off := off\<rparr>)
    \<and> at_piece mem (s\<lparr>fs_nal_off := off\<rparr>) (last (pieces y))"
  using assms
proof (induction y arbitrary: s rule: pieces.induct)
  case (1 y)
  show ?case
  proof (cases "length y \<le> MAX_WRITE_SIZE")
    case True
    then have "pieces y = [y]" by (subst pieces.simps) simp
    then show ?thesis
      using 1(2-) send_piece [OF 1(2-)] True by (intro exI [of _ "fs_nal_off s"]) auto
  next
    case False
    let ?y = "drop MAX_WRITE_SIZE y"
    let ?s = "s\<lparr>fs_sent := fs_sent s @ [take MAX_WRITE_SIZE y], fs_nal_off := fs_nal_off s + MAX_WRITE_SIZE\<rparr>"
    have p: "pieces y = take MAX_WRITE_SIZE y # pieces ?y" using False by (subst pieces.simps) simp
    have at: "at_piece mem ?s ?y"
      using 1(4) False by (auto simp: at_piece_def drop_drop add.commute)
    obtain off where "calls (length (pieces ?y)) (sendFrame mem fMaxSize) ?s = Inr (replicate (length (pieces ?y)) Frame_Sent,
      if fs_nals ?s = []
      then ?s\<lparr>fs_sent := fs_sent ?s @ pieces ?y, fs_chunk := None, fs_n_calls := fs_n_calls ?s + 1, fs_nal_off := off\<rparr>
      else ?s\<lparr>fs_sent := fs_sent ?s @ pieces ?y, fs_nal := None, fs_nal_off := off\<rparr>)"
      "at_piece mem (?s\<lparr>fs_nal_off := off\<rparr>) (last (pieces ?y))"
      using 1(1) [OF False, of ?s] 1(2,3,5) at by auto
    then show ?thesis
      using send_piece [OF 1(2-)] False
      by (intro exI [of _ off]) (simp add: p at_piece_cong [of "s\<lparr>fs_nal_off := off\<rparr>" "?s\<lparr>fs_nal_off := off\<rparr>"])
  qed
qed

subsection \<open>Sending a chunk, and the next one\<close>

lemma calls_cong_first: "f s = f s' \<Longrightarrow> 0 < k \<Longrightarrow> calls k f s = calls k f s'"
  by (cases k) auto

definition span_ok :: "u8 list \<Rightarrow> nat \<times> nat \<Rightarrow> bool" where
  "span_ok mem = (\<lambda>(n, p). p + n \<le> length mem \<and> n < 2 ^ 31)"

definition span_bytes :: "u8 list \<Rightarrow> nat \<times> nat \<Rightarrow> u8 list" where
  "span_bytes mem = (\<lambda>(n, p). take n (drop p mem))"

definition all_pieces :: "u8 list list \<Rightarrow> u8 list list" where
  "all_pieces xs = concat (map pieces xs)"

lemma all_pieces_simps [simp]: "all_pieces [] = []" "all_pieces (x # xs) = pieces x @ all_pieces xs"
  by (simp_all add: all_pieces_def)

lemma send_nals:
  assumes "fs_len s \<noteq> 0" and "fs_chunk s \<noteq> None" and "fs_nal s = None" and "fs_nals s = ns" and "ns \<noteq> []"
    and "\<forall>x \<in> set ns. span_ok mem x" and max: "MAX_WRITE_SIZE \<le> fMaxSize"
  shows "\<exists>s'. calls (length (all_pieces (map (span_bytes mem) ns))) (sendFrame mem fMaxSize) s
      = Inr (replicate (length (all_pieces (map (span_bytes mem) ns))) Frame_Sent, s')
    \<and> fs_sent s' = fs_sent s @ all_pieces (map (span_bytes mem) ns) \<and> fs_chunk s' = None \<and> fs_nals s' = []
    \<and> fs_chunks s' = fs_chunks s \<and> fs_len s' = fs_len s \<and> 0 < fs_n_calls s'
    \<and> at_piece mem s' (last (all_pieces (map (span_bytes mem) ns)))"
  using assms
proof (induction ns arbitrary: s)
  case (Cons np ns)
  obtain n p where np: "np = (n, p)" by fastforce
  let ?x = "span_bytes mem np"
  let ?s = "s\<lparr>fs_nals := ns, fs_nal := Some p, fs_nal_len := n, fs_nal_off := 0\<rparr>"
  have at: "at_piece mem ?s ?x"
    using Cons.prems(6) by (simp add: at_piece_def np span_ok_def span_bytes_def)
  have "next_unit_of_chunk s = next_unit_of_chunk ?s" "next_chunk mem s = Inr s" "next_chunk mem ?s = Inr ?s"
    using Cons.prems(2-4) by (simp_all add: next_unit_of_chunk_def next_chunk_def np)
  then have first: "sendFrame mem fMaxSize s = sendFrame mem fMaxSize ?s"
    using Cons.prems(1) by (simp add: sendFrame_def)
  obtain off where off: "calls (length (pieces ?x)) (sendFrame mem fMaxSize) ?s = Inr (replicate (length (pieces ?x)) Frame_Sent,
      if fs_nals ?s = []
      then ?s\<lparr>fs_sent := fs_sent ?s @ pieces ?x, fs_chunk := None, fs_n_calls := fs_n_calls ?s + 1, fs_nal_off := off\<rparr>
      else ?s\<lparr>fs_sent := fs_sent ?s @ pieces ?x, fs_nal := None, fs_nal_off := off\<rparr>)"
    and last: "at_piece mem (?s\<lparr>fs_nal_off := off\<rparr>) (last (pieces ?x))"
    using send_nal [of ?s mem ?x fMaxSize] Cons.prems(1,2) at max by auto
  have run: "calls (length (pieces ?x)) (sendFrame mem fMaxSize) s = calls (length (pieces ?x)) (sendFrame mem fMaxSize) ?s"
    by (rule calls_cong_first [OF first]) simp
  show ?case
  proof (cases "ns = []")
    case True
    then show ?thesis
      using run off last by (simp add: at_piece_def)
  next
    case False
    let ?s1 = "?s\<lparr>fs_sent := fs_sent ?s @ pieces ?x, fs_nal := None, fs_nal_off := off\<rparr>"
    have one: "calls (length (pieces ?x)) (sendFrame mem fMaxSize) s = Inr (replicate (length (pieces ?x)) Frame_Sent, ?s1)"
      using run off False by simp
    obtain s' where "calls (length (all_pieces (map (span_bytes mem) ns))) (sendFrame mem fMaxSize) ?s1
      = Inr (replicate (length (all_pieces (map (span_bytes mem) ns))) Frame_Sent, s')"
      "fs_sent s' = fs_sent ?s1 @ all_pieces (map (span_bytes mem) ns)" "fs_chunk s' = None" "fs_nals s' = []"
      "fs_chunks s' = fs_chunks ?s1" "fs_len s' = fs_len ?s1" "0 < fs_n_calls s'"
      "at_piece mem s' (last (all_pieces (map (span_bytes mem) ns)))"
      using Cons.IH [of ?s1] Cons.prems False by auto
    moreover have "all_pieces (map (span_bytes mem) ns) \<noteq> []" using False by (cases ns) auto
    ultimately show ?thesis
      using one by (intro exI [of _ s']) (simp add: calls_append replicate_add)
  qed
qed simp

text \<open>
  Between two chunks nothing is queued and \<open>c_nal_\<close> is null before the first chunk only: it is
  not reset at the end of one, and still stands on the last piece \<open>y\<close>.
\<close>

definition between :: "u8 list \<Rightarrow> u8 list option \<Rightarrow> framed \<Rightarrow> bool" where
  "between mem prev s \<longleftrightarrow> fs_len s \<noteq> 0 \<and> fs_chunk s = None \<and> fs_nals s = []
     \<and> (case prev of None \<Rightarrow> fs_nal s = None | Some y \<Rightarrow> at_piece mem s y \<and> length y \<le> MAX_WRITE_SIZE \<and> 0 < fs_n_calls s)"

definition again :: "u8 list option \<Rightarrow> u8 list list" where
  "again prev = (case prev of None \<Rightarrow> [] | Some y \<Rightarrow> [y])"

lemma last_all_pieces: "xs \<noteq> [] \<Longrightarrow> last (all_pieces xs) \<in> set (all_pieces xs)"
  by (rule last_in_set) (cases xs, auto)

lemma all_pieces_small: "y \<in> set (all_pieces xs) \<Longrightarrow> length y \<le> MAX_WRITE_SIZE"
  using pieces_small by (auto simp: all_pieces_def)

lemma nal_spans_bounds:
  "(n, p) \<in> set (nal_spans_of q ps) \<Longrightarrow> q \<le> p \<and> p + n \<le> q + length (annexb ps)"
  by (induction q ps rule: nal_spans_of.induct) (fastforce simp: length_start_code)+

lemma nal_spans_content_in:
  "map (\<lambda>(n, p). take n (drop p (pre @ annexb ps @ post))) (nal_spans_of (length pre) ps) = map snd ps"
proof (induction ps arbitrary: pre)
  case (Cons x ps)
  obtain long nal where x: "x = (long, nal)" by fastforce
  show ?case
    using Cons.IH [of "pre @ start_code long @ nal"] by (simp add: x add.assoc)
qed simp

lemma send_next_chunk:
  assumes s: "between mem prev s" and cs: "fs_chunks s = (length (annexb ps), length before) # cs"
    and mem: "mem = before @ annexb ps @ after" and ps: "\<forall>x \<in> set ps. nal_ok (snd x)" "ps \<noteq> []"
    and len: "length (annexb ps) < 2 ^ 31" and max: "MAX_WRITE_SIZE \<le> fMaxSize"
  shows "\<exists>s'. calls (length (again prev @ all_pieces (map snd ps))) (sendFrame mem fMaxSize) s
      = Inr (replicate (length (again prev @ all_pieces (map snd ps))) Frame_Sent, s')
    \<and> fs_sent s' = fs_sent s @ again prev @ all_pieces (map snd ps)
    \<and> between mem (Some (last (all_pieces (map snd ps)))) s' \<and> fs_chunks s' = cs"
proof -
  let ?ns = "nal_spans_of (length before) ps"
  let ?s = "s\<lparr>fs_chunks := cs, fs_chunk := Some (length (annexb ps), length before), fs_nals := ?ns\<rparr>"
  have ns: "?ns \<noteq> []" using ps(2) by (cases ps) auto
  have content: "map (span_bytes mem) ?ns = map snd ps"
    using nal_spans_content_in [of before ps after] by (simp add: mem span_bytes_def)
  have ok: "\<forall>x \<in> set ?ns. span_ok mem x"
    using nal_spans_bounds [of _ _ "length before" ps] len by (fastforce simp: span_ok_def mem)
  have "next_chunk mem s = Inr ?s" "next_chunk mem ?s = Inr ?s"
    using s cs split_annexb [OF ps mem len, of "[]"] by (simp_all add: next_chunk_def between_def)
  then have first: "sendFrame mem fMaxSize s = sendFrame mem fMaxSize ?s"
    using s by (simp add: sendFrame_def between_def)
  have pos: "0 < length (again prev @ all_pieces (map snd ps))" using ps(2) by (cases ps) auto
  have "\<exists>s1. calls (length (again prev)) (sendFrame mem fMaxSize) ?s = Inr (replicate (length (again prev)) Frame_Sent, s1)
    \<and> fs_sent s1 = fs_sent s @ again prev \<and> fs_nal s1 = None \<and> fs_nals s1 = ?ns \<and> fs_chunk s1 \<noteq> None
    \<and> fs_chunks s1 = cs \<and> fs_len s1 = fs_len s"
  proof (cases prev)
    case None
    then show ?thesis using s by (simp add: again_def between_def)
  next
    case (Some y)
    then have at: "at_piece mem ?s y" "length y \<le> MAX_WRITE_SIZE"
      using s by (simp_all add: between_def at_piece_def)
    have "fs_len ?s \<noteq> 0" "fs_chunk ?s \<noteq> None" using s by (simp_all add: between_def)
    then show ?thesis using send_piece [OF _ _ at(1) max] at(2) ns Some by (simp add: again_def)
  qed
  then obtain s1 where s1: "calls (length (again prev)) (sendFrame mem fMaxSize) ?s = Inr (replicate (length (again prev)) Frame_Sent, s1)"
    "fs_sent s1 = fs_sent s @ again prev" "fs_nal s1 = None" "fs_nals s1 = ?ns" "fs_chunk s1 \<noteq> None" "fs_chunks s1 = cs"
    "fs_len s1 = fs_len s" by blast
  obtain s' where s': "calls (length (all_pieces (map snd ps))) (sendFrame mem fMaxSize) s1
      = Inr (replicate (length (all_pieces (map snd ps))) Frame_Sent, s')"
    "fs_sent s' = fs_sent s1 @ all_pieces (map snd ps)" "fs_chunk s' = None" "fs_nals s' = []" "fs_chunks s' = fs_chunks s1"
    "fs_len s' = fs_len s1" "0 < fs_n_calls s'" "at_piece mem s' (last (all_pieces (map snd ps)))"
    using send_nals [OF _ s1(5,3,4) ns ok max] s s1(7) unfolding content by (auto simp: between_def)
  have "length (last (all_pieces (map snd ps))) \<le> MAX_WRITE_SIZE"
    using last_all_pieces [of "map snd ps"] all_pieces_small ps(2) by simp
  then show ?thesis
    using calls_cong_first [OF first pos] s1 s' s
    by (intro exI [of _ s']) (simp add: calls_append replicate_add between_def)
qed

text \<open>All chunks: what is sent in the end.\<close>

fun delivered :: "u8 list option \<Rightarrow> u8 list list list \<Rightarrow> u8 list list" where
  "delivered prev [] = []"
| "delivered prev (xs # cs) = again prev @ all_pieces xs @ delivered (Some (last (all_pieces xs))) cs"

definition chunk_file :: "(bool \<times> u8 list) list list \<Rightarrow> u8 list" where
  "chunk_file pss = concat (map (\<lambda>ps. le_bytes 8 (length (annexb ps)) @ annexb ps) pss)"

fun chunk_spans :: "nat \<Rightarrow> (bool \<times> u8 list) list list \<Rightarrow> (nat \<times> nat) list" where
  "chunk_spans p [] = []"
| "chunk_spans p (ps # pss) = (length (annexb ps), p + 8) # chunk_spans (p + 8 + length (annexb ps)) pss"

lemma chunk_file_simps [simp]:
  "chunk_file [] = []" "chunk_file (ps # pss) = le_bytes 8 (length (annexb ps)) @ annexb ps @ chunk_file pss"
  by (simp_all add: chunk_file_def)

lemma send_chunks:
  assumes "between mem prev s" and "fs_chunks s = chunk_spans (length before) pss" and "mem = before @ chunk_file pss"
    and "\<forall>ps \<in> set pss. ps \<noteq> [] \<and> (\<forall>x \<in> set ps. nal_ok (snd x))" and "length mem < 2 ^ 31" and "MAX_WRITE_SIZE \<le> fMaxSize"
  shows "\<exists>s'. calls (length (delivered prev (map (map snd) pss))) (sendFrame mem fMaxSize) s
      = Inr (replicate (length (delivered prev (map (map snd) pss))) Frame_Sent, s')
    \<and> fs_sent s' = fs_sent s @ delivered prev (map (map snd) pss) \<and> fs_chunks s' = []
    \<and> (\<exists>prev'. between mem prev' s' \<and> (pss \<noteq> [] \<or> prev \<noteq> None \<longrightarrow> prev' \<noteq> None))"
  using assms
proof (induction pss arbitrary: prev s before)
  case Nil
  then show ?case by auto
next
  case (Cons ps pss)
  let ?b = "before @ le_bytes 8 (length (annexb ps))" and ?a = "chunk_file pss"
  have cs: "fs_chunks s = (length (annexb ps), length ?b) # chunk_spans (length (?b @ annexb ps)) pss"
    using Cons.prems(2) by (simp add: add.assoc)
  have mem: "mem = ?b @ annexb ps @ ?a" and ok: "\<forall>x \<in> set ps. nal_ok (snd x)" "ps \<noteq> []"
    and len: "length (annexb ps) < 2 ^ 31"
    using Cons.prems(3-5) by auto
  obtain s1 where s1: "calls (length (again prev @ all_pieces (map snd ps))) (sendFrame mem fMaxSize) s
      = Inr (replicate (length (again prev @ all_pieces (map snd ps))) Frame_Sent, s1)"
    "fs_sent s1 = fs_sent s @ again prev @ all_pieces (map snd ps)"
    "between mem (Some (last (all_pieces (map snd ps)))) s1"
    "fs_chunks s1 = chunk_spans (length (?b @ annexb ps)) pss"
    using send_next_chunk [OF Cons.prems(1) cs mem ok len Cons.prems(6)] by blast
  let ?m = "length (again prev @ all_pieces (map snd ps))"
    and ?d = "delivered (Some (last (all_pieces (map snd ps)))) (map (map snd) pss)"
  obtain s' where s': "calls (length ?d) (sendFrame mem fMaxSize) s1 = Inr (replicate (length ?d) Frame_Sent, s')"
    "fs_sent s' = fs_sent s1 @ ?d" "fs_chunks s' = []" "\<exists>prev'. between mem prev' s' \<and> prev' \<noteq> None"
    using Cons.IH [OF s1(3,4)] Cons.prems(3-6) by auto
  have d: "delivered prev (map (map snd) (ps # pss)) = (again prev @ all_pieces (map snd ps)) @ ?d" by simp
  have "calls (?m + length ?d) (sendFrame mem fMaxSize) s = Inr (replicate (?m + length ?d) Frame_Sent, s')"
    unfolding replicate_add by (rule calls_trans [OF s1(1) s'(1)])
  then show ?case
    using s1(2) s'(2-4) unfolding d length_append [of _ ?d] by (intro exI [of _ s']) simp
qed

lemma queue_chunk_file:
  assumes "mem = before @ chunk_file pss" and "length pss \<le> rounds" and "length mem < 2 ^ 31"
  shows "\<exists>tot'. queue_chunks mem rounds (length before) chunks tot = Inr (chunks @ chunk_spans (length before) pss, tot')"
  using assms
proof (induction pss arbitrary: before rounds chunks tot)
  case Nil
  then show ?case by (cases rounds) auto
next
  case (Cons ps pss)
  obtain r where r: "rounds = Suc r" using Cons.prems(2) by (cases rounds) auto
  let ?n = "length (annexb ps)" and ?b = "before @ le_bytes 8 (length (annexb ps)) @ annexb ps"
  have "length ?b \<le> length mem" using Cons.prems(1) by simp
  then have n: "?n < 2 ^ 31" "(length before + 8 + ?n) mod 2 ^ 64 = length ?b"
    using Cons.prems(3) by simp_all
  have "rd_bytes mem (length before) 8 = Inr (le_bytes 8 ?n)"
    using rd_bytes_append [of 8 "le_bytes 8 ?n" before "annexb ps @ chunk_file pss"] Cons.prems(1) by simp
  moreover have "of_le (le_bytes 8 ?n) = ?n" using n(1) by (simp add: of_le_bytes)
  moreover obtain tot' where "queue_chunks mem r (length ?b) (chunks @ [(?n, length before + 8)]) ((tot + ?n) mod 2 ^ 64)
      = Inr ((chunks @ [(?n, length before + 8)]) @ chunk_spans (length ?b) pss, tot')"
    using Cons.IH [of ?b r "chunks @ [(?n, length before + 8)]" "(tot + ?n) mod 2 ^ 64"] Cons.prems r by auto
  ultimately show ?case using Cons.prems(1) n(2) by (simp add: r Let_def add.assoc)
qed

subsection \<open>Properties\<close>

text \<open>
  C35: \<open>splitIntoNals\<close> cuts a chunk that is an Annex B stream of less than 2 GiB into exactly its NAL
  units, in order, and queues them behind those already there, whatever surrounds the chunk in
  the file.
\<close>

theorem splitIntoNals_annexb:
  assumes "\<forall>x \<in> set ps. nal_ok (snd x)" and "ps \<noteq> []" and "mem = before @ annexb ps @ after"
    and "length (annexb ps) < 2 ^ 31"
  shows "\<exists>ns. splitIntoNals mem (length (annexb ps), length before) nals = Inr (nals @ ns)
    \<and> map (span_bytes mem) ns = map snd ps"
  using split_annexb [OF assms, of nals] nal_spans_content_in [of before ps after] assms(3)
  by (intro exI [of _ "nal_spans_of (length before) ps"]) (simp add: span_bytes_def)

theorem splitIntoNals_annexb_witness:
  "\<exists>ns. splitIntoNals ([7, 7] @ annexb demo_nals @ [0, 0, 1]) (length (annexb demo_nals), length [7, 7 :: u8]) [(3, 9)]
      = Inr ([(3, 9)] @ ns)
    \<and> map (span_bytes ([7, 7] @ annexb demo_nals @ [0, 0, 1])) ns = map snd demo_nals"
  by (rule splitIntoNals_annexb)
    (auto simp: demo_nals_def nal_ok_def is_code_def less_Suc_eq length_start_code)



end
