(* ===== verification/Senders.thy ===== *)
theory Senders
  imports Pacing V3C_Types
begin

section \<open>The senders\<close>

text \<open>
  The send loops of \<open>uvgrtp/sender.cc\<close>, \<open>uvgrtp/vpcc_sender.cc\<close>, \<open>uvgrtp/vpcc_latency_sender.cc\<close>,
  \<open>uvgrtp/latency_sender.cc\<close> and \<open>ffmpeg/sender.cc\<close>. Each loop body is proved to keep the
  contract \<open>paced\<close>; what is proved of every sender follows from it.

  \<open>period\<close>, which the code computes with floating point from the frame rate, is a parameter;
  so is the library (\<open>env\<close>). \<open>mem\<close> is the mapped input file.
\<close>

subsection \<open>Chunk by chunk: uvgrtp/sender.cc\<close>

record chunk_state =
  cs_bytes_sent :: nat
  cs_current_frame :: u64
  cs_world :: world

definition chunk_init :: chunk_state where
  "chunk_init = \<lparr>cs_bytes_sent = 0, cs_current_frame = 0, cs_world = world_init\<rparr>"

definition chunk_body :: "env \<Rightarrow> u8 list \<Rightarrow> u64 \<Rightarrow> nat \<Rightarrow> chunk_state \<Rightarrow> (bool \<times> chunk_state) res" where
  "chunk_body env mem period chunk_size s =
     rbind (push_frame env mem (cs_bytes_sent s) chunk_size (cs_world s)) (\<lambda>(ok, w).
     if \<not> ok then Inr (False, s\<lparr>cs_world := sleep_us env 500000 w\<rparr>)
     else let bytes_sent = cs_bytes_sent s + chunk_size; current_frame = cs_current_frame s + 1 in
       Inr (True, \<lparr>cs_bytes_sent = bytes_sent, cs_current_frame = current_frame,
                   cs_world = pace env period current_frame w\<rparr>))"

text \<open>
  \<open>sender_thread\<close>: the bytes and milliseconds that are written to the result file, or none
  when a push fails.
\<close>

definition sender_thread :: "env \<Rightarrow> u8 list \<Rightarrow> u64 \<Rightarrow> nat list \<Rightarrow> ((nat \<times> nat) option \<times> chunk_state) res" where
  "sender_thread env mem period chunk_sizes =
     rbind (for_each (chunk_body env mem period) chunk_sizes chunk_init) (\<lambda>(go, s).
     Inr (if go then Some (cs_bytes_sent s, w_now (cs_world s) div 1000) else None, s))"

text \<open>The specification: the file cut at the chunk sizes.\<close>

fun slices :: "u8 list \<Rightarrow> nat \<Rightarrow> nat list \<Rightarrow> u8 list list" where
  "slices mem p [] = []"
| "slices mem p (n # ns) = take n (drop p mem) # slices mem (p + n) ns"

lemma length_slices [simp]: "length (slices mem p ns) = length ns"
  by (induction mem p ns rule: slices.induct) auto

lemma concat_slices: "concat (slices mem p ns) = take (sum_list ns) (drop p mem)"
proof (induction mem p ns rule: slices.induct)
  case (2 mem p n ns)
  then show ?case by (simp add: take_add drop_drop add.commute)
qed simp

text \<open>
  The invariant with chunks to come: the frame counter is the number of pushes, the chunks to
  come lie in the file, and the schedule does not overflow up to \<open>lim\<close> pushes.
\<close>

definition chunk_inv :: "u8 list \<Rightarrow> u64 \<Rightarrow> nat \<Rightarrow> nat list \<Rightarrow> chunk_state \<Rightarrow> bool" where
  "chunk_inv mem period lim ns s \<longleftrightarrow> unat (cs_current_frame s) = length (pushed (cs_world s))
     \<and> cs_bytes_sent s + sum_list ns \<le> length mem
     \<and> length (pushed (cs_world s)) + length ns \<le> lim \<and> lim * unat period < 2 ^ 64 \<and> lim < 2 ^ 64"

definition chunk_rest :: "u8 list \<Rightarrow> nat list \<Rightarrow> chunk_state \<Rightarrow> u8 list list" where
  "chunk_rest mem ns s = slices mem (cs_bytes_sent s) ns"

lemma unat_Suc_u64: "unat (x :: u64) + 1 < 2 ^ 64 \<Longrightarrow> unat (x + 1) = unat x + 1"
  using unat_add_lem [of x 1] by simp

lemma schedule_fits:
  assumes "k \<le> (lim :: nat)" and "lim * p < 2 ^ 64"
  shows "k * p < 18446744073709551616"
proof -
  have "lim * p < 18446744073709551616" using assms(2) by simp
  then show ?thesis by (rule le_less_trans [OF mult_le_mono1 [OF assms(1)]])
qed

lemma chunk_body_ok:
  assumes inv: "chunk_inv mem period lim (n # ns) s" and time: "on_time length (unat period) (cs_world s)"
  shows "\<exists>go s' ys. chunk_body env mem period n s = Inr (go, s')
    \<and> log_on_time length (unat period) (cs_world s') \<and> ((\<forall>k. e_push_ok env k) \<longrightarrow> go)
    \<and> pushed (cs_world s') @ ys = pushed (cs_world s) @ chunk_rest mem (n # ns) s
    \<and> (go \<longrightarrow> chunk_inv mem period lim ns s' \<and> on_time length (unat period) (cs_world s') \<and> ys = chunk_rest mem ns s')"
proof -
  let ?k = "length (w_log (cs_world s))" and ?cf = "cs_current_frame s + 1"
  obtain w where w: "push_frame env mem (cs_bytes_sent s) n (cs_world s) = Inr (e_push_ok env ?k, w)"
    and p: "pushed w = pushed (cs_world s) @ [take n (drop (cs_bytes_sent s) mem)]"
    and l: "log_on_time length (unat period) w"
    using push_frame_ok [of "cs_bytes_sent s" n mem env "cs_world s" length "unat period"] inv time
    by (auto simp: chunk_inv_def)
  have cf: "unat ?cf = length (pushed w)"
    using inv p unat_Suc_u64 [of "cs_current_frame s"] by (simp add: chunk_inv_def)
  have fits: "unat ?cf * unat period < 18446744073709551616"
    using inv p cf by (intro schedule_fits [of _ lim]) (auto simp: chunk_inv_def)
  have on: "on_time length (unat period) (pace env period ?cf w)"
    using cf by (intro pace_on_time [OF l _ fits]) simp
  show ?thesis
  proof (cases "e_push_ok env ?k")
    case True
    let ?s = "\<lparr>cs_bytes_sent = cs_bytes_sent s + n, cs_current_frame = ?cf, cs_world = pace env period ?cf w\<rparr>"
    have "chunk_body env mem period n s = Inr (True, ?s)"
      by (simp add: chunk_body_def w True Let_def)
    moreover have "chunk_inv mem period lim ns ?s"
      using inv p cf by (simp add: chunk_inv_def)
    moreover have "log_on_time length (unat period) (pace env period ?cf w)"
      using on by (simp only: on_time_def)
    ultimately show ?thesis
      using p on by (intro exI [of _ True] exI [of _ ?s] exI [of _ "chunk_rest mem ns ?s"]) (simp add: chunk_rest_def)
  next
    case False
    let ?s = "s\<lparr>cs_world := sleep_us env 500000 w\<rparr>"
    have "chunk_body env mem period n s = Inr (False, ?s)"
      by (simp add: chunk_body_def w False)
    moreover have "log_on_time length (unat period) (sleep_us env 500000 w)"
      using l by (simp add: log_on_time_def)
    ultimately show ?thesis
      using p False by (intro exI [of _ False] exI [of _ ?s] exI [of _ "slices mem (cs_bytes_sent s + n) ns"])
        (auto simp: chunk_rest_def)
  qed
qed

lemma chunk_bytes:
  assumes "for_each (chunk_body env mem period) ns s = Inr (True, s')"
  shows "cs_bytes_sent s' = cs_bytes_sent s + sum_list ns"
  using assms
proof (induction ns arbitrary: s)
  case (Cons n ns)
  obtain go s1 where s1: "chunk_body env mem period n s = Inr (go, s1)" "go"
    "for_each (chunk_body env mem period) ns s1 = Inr (True, s')"
    using Cons.prems by (auto simp: rbind_eq_Inr split: if_splits)
  then have "cs_bytes_sent s1 = cs_bytes_sent s + n"
    by (auto simp: chunk_body_def rbind_eq_Inr Let_def split: if_splits prod.splits)
  then show ?case using Cons.IH [OF s1(3)] by simp
qed simp

interpretation chunk: paced "chunk_body env mem period" cs_world length "unat period"
    "chunk_inv mem period lim" "chunk_rest mem" "\<forall>k. e_push_ok env k"
  for env mem period lim
proof
  show "chunk_rest mem [] s = []" for s by (simp add: chunk_rest_def)
qed (rule chunk_body_ok)

subsection \<open>Atlas data, NAL unit by NAL unit: uvgrtp/sender.cc\<close>

definition nalu_type :: "u8 \<Rightarrow> u8" where
  "nalu_type b = drop_bit 1 b AND 0x3f"

definition atlas_body :: "env \<Rightarrow> u8 list \<Rightarrow> u64 \<Rightarrow> nal_info \<Rightarrow> chunk_state \<Rightarrow> (bool \<times> chunk_state) res" where
  "atlas_body env cbuf period i s =
     rbind (rd8 cbuf (nal_location i)) (\<lambda>b.
     if 30 \<le> nalu_type b then Inr (True, s)
     else rbind (push_frame env cbuf (nal_location i) (nal_size i) (cs_world s)) (\<lambda>(ok, w).
       if \<not> ok then Inr (False, s\<lparr>cs_world := sleep_us env 500000 w\<rparr>)
       else let bytes_sent = cs_bytes_sent s + nal_size i; current_frame = cs_current_frame s + 1 in
         Inr (True, \<lparr>cs_bytes_sent = bytes_sent, cs_current_frame = current_frame,
                     cs_world = pace env period current_frame w\<rparr>)))"

definition sender_func ::
  "env \<Rightarrow> u8 list \<Rightarrow> u64 \<Rightarrow> v3c_unit_info list \<Rightarrow> ((nat \<times> nat) option \<times> chunk_state) res" where
  "sender_func env cbuf period units =
     rbind (for_each (\<lambda>p. for_each (atlas_body env cbuf period) (ui_nal_infos p)) units chunk_init) (\<lambda>(go, s).
     Inr (if go then Some (cs_bytes_sent s, w_now (cs_world s) div 1000) else None, s))"

definition nal_bytes :: "u8 list \<Rightarrow> nal_info \<Rightarrow> u8 list" where
  "nal_bytes mem i = take (nal_size i) (drop (nal_location i) mem)"

definition nal_in :: "u8 list \<Rightarrow> nal_info \<Rightarrow> bool" where
  "nal_in mem i \<longleftrightarrow> 0 < nal_size i \<and> nal_location i + nal_size i \<le> length mem"

text \<open>An atlas coding layer unit: a type below 30.\<close>

definition is_acl :: "u8 list \<Rightarrow> nal_info \<Rightarrow> bool" where
  "is_acl mem i \<longleftrightarrow> \<not> 30 \<le> nalu_type (mem ! nal_location i)"

definition atlas_rest :: "u8 list \<Rightarrow> nal_info list \<Rightarrow> chunk_state \<Rightarrow> u8 list list" where
  "atlas_rest mem is s = map (nal_bytes mem) (filter (is_acl mem) is)"

definition atlas_inv :: "u8 list \<Rightarrow> u64 \<Rightarrow> nat \<Rightarrow> nal_info list \<Rightarrow> chunk_state \<Rightarrow> bool" where
  "atlas_inv mem period lim is s \<longleftrightarrow> unat (cs_current_frame s) = length (pushed (cs_world s))
     \<and> (\<forall>i \<in> set is. nal_in mem i)
     \<and> length (pushed (cs_world s)) + length is \<le> lim \<and> lim * unat period < 2 ^ 64 \<and> lim < 2 ^ 64"

text \<open>One push, one frame, one wait: what every single-frame body does.\<close>

lemma push_and_pace:
  assumes "offset + n \<le> length mem" and "on_time length (unat period) w0"
    and "unat cf = length (pushed w0)" and "length (pushed w0) < lim" "lim * unat period < 2 ^ 64" "lim < 2 ^ 64"
  shows "\<exists>w. push_frame env mem offset n w0 = Inr (e_push_ok env (length (w_log w0)), w)
    \<and> pushed w = pushed w0 @ [take n (drop offset mem)] \<and> log_on_time length (unat period) w
    \<and> unat (cf + 1) = length (pushed w) \<and> on_time length (unat period) (pace env period (cf + 1) w)"
proof -
  obtain w where w: "push_frame env mem offset n w0 = Inr (e_push_ok env (length (w_log w0)), w)"
    and p: "pushed w = pushed w0 @ [take n (drop offset mem)]" and l: "log_on_time length (unat period) w"
    using push_frame_ok [OF assms(1), of env w0 length "unat period"] assms(2) by blast
  have cf: "unat (cf + 1) = length (pushed w)"
    using assms(3,4,6) p unat_Suc_u64 [of cf] by simp
  have "unat (cf + 1) * unat period < 18446744073709551616"
    using assms(3-5) p cf by (intro schedule_fits [of _ lim]) auto
  then have "on_time length (unat period) (pace env period (cf + 1) w)"
    using cf by (intro pace_on_time [OF l]) simp_all
  then show ?thesis using w p l cf by blast
qed

lemma log_on_time_sleep [simp]: "log_on_time f p (sleep_us env d w) \<longleftrightarrow> log_on_time f p w"
  by (simp add: log_on_time_def)

lemma on_time_log: "on_time f p w \<Longrightarrow> log_on_time f p w"
  by (simp add: on_time_def)

lemma atlas_body_ok:
  assumes inv: "atlas_inv mem period lim (i # is) s" and time: "on_time length (unat period) (cs_world s)"
  shows "\<exists>go s' ys. atlas_body env mem period i s = Inr (go, s')
    \<and> log_on_time length (unat period) (cs_world s') \<and> ((\<forall>k. e_push_ok env k) \<longrightarrow> go)
    \<and> pushed (cs_world s') @ ys = pushed (cs_world s) @ atlas_rest mem (i # is) s
    \<and> (go \<longrightarrow> atlas_inv mem period lim is s' \<and> on_time length (unat period) (cs_world s') \<and> ys = atlas_rest mem is s')"
proof -
  have i: "nal_location i < length mem" "nal_location i + nal_size i \<le> length mem"
    using inv by (auto simp: atlas_inv_def nal_in_def)
  show ?thesis
  proof (cases "is_acl mem i")
    case False
    then have "atlas_body env mem period i s = Inr (True, s)"
      using i by (simp add: atlas_body_def is_acl_def)
    moreover have "atlas_inv mem period lim is s" using inv by (simp add: atlas_inv_def)
    ultimately show ?thesis
      using False time on_time_log [OF time]
      by (intro exI [of _ True] exI [of _ s] exI [of _ "atlas_rest mem is s"]) (simp add: atlas_rest_def)
  next
    case acl: True
    obtain w where w: "push_frame env mem (nal_location i) (nal_size i) (cs_world s)
        = Inr (e_push_ok env (length (w_log (cs_world s))), w)"
      and p: "pushed w = pushed (cs_world s) @ [nal_bytes mem i]" and l: "log_on_time length (unat period) w"
      and cf: "unat (cs_current_frame s + 1) = length (pushed w)"
      and on: "on_time length (unat period) (pace env period (cs_current_frame s + 1) w)"
      using push_and_pace [OF i(2) time, of "cs_current_frame s" lim env] inv
      by (auto simp: atlas_inv_def nal_bytes_def)
    show ?thesis
    proof (cases "e_push_ok env (length (w_log (cs_world s)))")
      case True
      let ?s = "\<lparr>cs_bytes_sent = cs_bytes_sent s + nal_size i, cs_current_frame = cs_current_frame s + 1,
                 cs_world = pace env period (cs_current_frame s + 1) w\<rparr>"
      have "atlas_body env mem period i s = Inr (True, ?s)"
        using i acl by (simp add: atlas_body_def is_acl_def w True Let_def)
      moreover have "atlas_inv mem period lim is ?s"
        using inv p cf by (simp add: atlas_inv_def)
      ultimately show ?thesis
        using p on acl on_time_log [OF on]
        by (intro exI [of _ True] exI [of _ ?s] exI [of _ "atlas_rest mem is ?s"]) (simp add: atlas_rest_def)
    next
      case False
      let ?s = "s\<lparr>cs_world := sleep_us env 500000 w\<rparr>"
      have "atlas_body env mem period i s = Inr (False, ?s)"
        using i acl by (simp add: atlas_body_def is_acl_def w False)
      then show ?thesis
        using p l acl False
        by (intro exI [of _ False] exI [of _ ?s] exI [of _ "atlas_rest mem is s"]) (auto simp: atlas_rest_def)
    qed
  qed
qed

interpretation atlas: paced "atlas_body env mem period" cs_world length "unat period"
    "atlas_inv mem period lim" "atlas_rest mem" "\<forall>k. e_push_ok env k"
  for env mem period lim
proof
  show "atlas_rest mem [] s = []" for s by (simp add: atlas_rest_def)
qed (rule atlas_body_ok)

subsection \<open>Four NAL units to a frame: uvgrtp/vpcc_sender.cc and vpcc_latency_sender.cc\<close>

definition param_set :: "V3C_UNIT_TYPE \<Rightarrow> u8 \<Rightarrow> bool" where
  "param_set fmt nalu_t \<longleftrightarrow>
     (if fmt = V3C_AD \<and> 35 < nalu_t then True else if 32 \<le> nalu_t \<and> nalu_t \<le> 34 then True else False)"

text \<open>
  What both functions do behind \<open>if (param_set) continue;\<close>: count the NAL unit, and at the
  end of a frame count the frame and wait for the next one.
\<close>

definition vpcc_tail :: "env \<Rightarrow> V3C_UNIT_TYPE \<Rightarrow> u64 \<Rightarrow> u64 \<times> u64 \<times> world \<Rightarrow> u64 \<times> u64 \<times> world" where
  "vpcc_tail env fmt period = (\<lambda>(temp_nalu, current_frame, w).
     let temp_nalu = temp_nalu + 1 in
     if fmt = V3C_GVD \<or> fmt = V3C_AVD then
       if temp_nalu < 4 then (temp_nalu, current_frame, w)
       else (0, current_frame + 1, pace env period (current_frame + 1) w)
     else (0, current_frame + 1, pace env period (current_frame + 1) w))"

record vpcc_state =
  vs_temp_nalu :: u64
  vs_current_frame :: u64
  vs_bytes_sent :: nat
  vs_world :: world

definition vpcc_init :: vpcc_state where
  "vpcc_init = \<lparr>vs_temp_nalu = 0, vs_current_frame = 0, vs_bytes_sent = 0, vs_world = world_init\<rparr>"

text \<open>A push that fails is only reported on the console.\<close>

definition vpcc_body ::
  "env \<Rightarrow> u8 list \<Rightarrow> V3C_UNIT_TYPE \<Rightarrow> u64 \<Rightarrow> nal_info \<Rightarrow> vpcc_state \<Rightarrow> (bool \<times> vpcc_state) res" where
  "vpcc_body env bytes fmt period i s =
     rbind (rd8 bytes (nal_location i)) (\<lambda>b.
     let param = param_set fmt (nalu_type b) in
     rbind (push_frame env bytes (nal_location i) (nal_size i) (vs_world s)) (\<lambda>(_, w).
     let s = s\<lparr>vs_bytes_sent := vs_bytes_sent s + nal_size i, vs_world := w\<rparr> in
     if param then Inr (True, s)
     else let (temp_nalu, current_frame, w) = vpcc_tail env fmt period (vs_temp_nalu s, vs_current_frame s, w) in
       Inr (True, s\<lparr>vs_temp_nalu := temp_nalu, vs_current_frame := current_frame, vs_world := w\<rparr>)))"

text \<open>\<open>res.bytes_sent\<close> and the time between \<open>res.start\<close> and \<open>res.end\<close>.\<close>

definition vpcc_sender_func ::
  "env \<Rightarrow> u8 list \<Rightarrow> V3C_UNIT_TYPE \<Rightarrow> u64 \<Rightarrow> v3c_unit_info list \<Rightarrow> ((nat \<times> nat) \<times> vpcc_state) res" where
  "vpcc_sender_func env cbuf fmt period units =
     rbind (for_each (\<lambda>p. for_each (vpcc_body env cbuf fmt period) (ui_nal_infos p)) units vpcc_init) (\<lambda>(_, s).
     Inr ((vs_bytes_sent s, w_now (vs_world s)), s))"

record vpcc_latency_state =
  vl_temp_nalu :: u64
  vl_current_frame :: u64
  vl_send_times :: "nat list"
  vl_world :: world

definition vpcc_latency_init :: vpcc_latency_state where
  "vpcc_latency_init = \<lparr>vl_temp_nalu = 0, vl_current_frame = 0, vl_send_times = [], vl_world = world_init\<rparr>"

definition vpcc_latency_body ::
  "env \<Rightarrow> u8 list \<Rightarrow> V3C_UNIT_TYPE \<Rightarrow> u64 \<Rightarrow> nal_info \<Rightarrow> vpcc_latency_state \<Rightarrow> (bool \<times> vpcc_latency_state) res" where
  "vpcc_latency_body env bytes fmt period i s =
     rbind (rd8 bytes (nal_location i)) (\<lambda>b.
     let param = param_set fmt (nalu_type b);
         s = (if \<not> param then s\<lparr>vl_send_times := vl_send_times s @ [w_now (vl_world s)]\<rparr> else s) in
     rbind (push_frame env bytes (nal_location i) (nal_size i) (vl_world s)) (\<lambda>(_, w).
     let s = s\<lparr>vl_world := w\<rparr> in
     if param then Inr (True, s)
     else let (temp_nalu, current_frame, w) = vpcc_tail env fmt period (vl_temp_nalu s, vl_current_frame s, w) in
       Inr (True, s\<lparr>vl_temp_nalu := temp_nalu, vl_current_frame := current_frame, vl_world := w\<rparr>)))"

definition vpcc_latency_sender_func ::
  "env \<Rightarrow> u8 list \<Rightarrow> V3C_UNIT_TYPE \<Rightarrow> u64 \<Rightarrow> v3c_unit_info list \<Rightarrow> (bool \<times> vpcc_latency_state) res" where
  "vpcc_latency_sender_func env cbuf fmt period units =
     for_each (\<lambda>p. for_each (vpcc_latency_body env cbuf fmt period) (ui_nal_infos p)) units vpcc_latency_init"

text \<open>
  The frames among the pushes: every NAL unit that is not a parameter set, or every fourth
  one for geometry and attribute video. \<open>tail_ok\<close> ties the two counters of the code to it.
\<close>

definition multi_nal :: "V3C_UNIT_TYPE \<Rightarrow> bool" where
  "multi_nal fmt \<longleftrightarrow> fmt = V3C_GVD \<or> fmt = V3C_AVD"

definition frame_nal :: "V3C_UNIT_TYPE \<Rightarrow> u8 list \<Rightarrow> bool" where
  "frame_nal fmt x \<longleftrightarrow> \<not> param_set fmt (nalu_type (hd x))"

definition frame_nals :: "V3C_UNIT_TYPE \<Rightarrow> u8 list list \<Rightarrow> nat" where
  "frame_nals fmt xs = length (filter (frame_nal fmt) xs)"

definition vpcc_frames :: "V3C_UNIT_TYPE \<Rightarrow> u8 list list \<Rightarrow> nat" where
  "vpcc_frames fmt xs = (if multi_nal fmt then frame_nals fmt xs div 4 else frame_nals fmt xs)"

definition tail_ok :: "V3C_UNIT_TYPE \<Rightarrow> u64 \<times> u64 \<times> world \<Rightarrow> bool" where
  "tail_ok fmt = (\<lambda>(temp_nalu, current_frame, w).
     unat temp_nalu = (if multi_nal fmt then frame_nals fmt (pushed w) mod 4 else 0)
     \<and> unat current_frame = vpcc_frames fmt (pushed w))"

lemma vpcc_frames_le: "vpcc_frames fmt xs \<le> length xs"
proof -
  have "frame_nals fmt xs \<le> length xs" by (simp add: frame_nals_def)
  then show ?thesis by (simp add: vpcc_frames_def) (meson div_le_dividend order_trans)
qed

lemma vpcc_tail_ok:
  assumes pre: "tail_ok fmt (temp, cf, w0)" and x: "pushed w = pushed w0 @ [x]" "frame_nal fmt x"
    and l: "log_on_time (vpcc_frames fmt) (unat period) w"
    and same: "vpcc_frames fmt (pushed w) = vpcc_frames fmt (pushed w0) \<Longrightarrow> on_time (vpcc_frames fmt) (unat period) w"
    and lim: "length (pushed w) \<le> lim" "lim * unat period < 2 ^ 64" "lim < 2 ^ 64"
  shows "\<exists>temp' cf' w'. vpcc_tail env fmt period (temp, cf, w) = (temp', cf', w') \<and> tail_ok fmt (temp', cf', w')
    \<and> pushed w' = pushed w \<and> on_time (vpcc_frames fmt) (unat period) w'"
proof -
  let ?c = "frame_nals fmt (pushed w0)"
  have c: "frame_nals fmt (pushed w) = ?c + 1" using x by (simp add: frame_nals_def)
  have temp: "unat temp = (if multi_nal fmt then ?c mod 4 else 0)" and cf: "unat cf = vpcc_frames fmt (pushed w0)"
    using pre by (simp_all add: tail_ok_def)
  have "unat temp < 4" using temp by auto
  then have temp1: "unat (temp + 1) = unat temp + 1" by (intro unat_Suc_u64) simp
  have four: "temp + 1 < 4 \<longleftrightarrow> unat temp + 1 < 4"
    by (simp add: word_less_nat_alt temp1)
  show ?thesis
  proof (cases "multi_nal fmt \<and> unat temp + 1 < 4")
    case True
    then have m: "(?c + 1) div 4 = ?c div 4" "(?c + 1) mod 4 = ?c mod 4 + 1"
      using temp by (auto simp: div_Suc mod_Suc)
    then have f: "vpcc_frames fmt (pushed w) = vpcc_frames fmt (pushed w0)"
      using True c by (simp add: vpcc_frames_def)
    have "vpcc_tail env fmt period (temp, cf, w) = (temp + 1, cf, w)"
      using True four by (simp add: vpcc_tail_def multi_nal_def Let_def)
    moreover have "tail_ok fmt (temp + 1, cf, w)"
      using True temp temp1 cf c m f by (simp add: tail_ok_def)
    ultimately show ?thesis using same [OF f] by blast
  next
    case False
    then have m: "multi_nal fmt \<Longrightarrow> (?c + 1) div 4 = ?c div 4 + 1 \<and> (?c + 1) mod 4 = 0"
      using temp by (auto simp: div_Suc mod_Suc split: if_splits)
    then have f: "vpcc_frames fmt (pushed w) = unat cf + 1"
      using c cf by (simp add: vpcc_frames_def)
    have "unat cf + 1 \<le> lim" using vpcc_frames_le [of fmt "pushed w"] f lim(1) by simp
    then have cf1: "unat (cf + 1) = unat cf + 1" using lim(3) by (intro unat_Suc_u64) simp
    have "vpcc_tail env fmt period (temp, cf, w) = (0, cf + 1, pace env period (cf + 1) w)"
      using False four by (auto simp: vpcc_tail_def multi_nal_def Let_def)
    moreover have "tail_ok fmt (0, cf + 1, pace env period (cf + 1) w)"
      using m c f cf1 by (simp add: tail_ok_def)
    moreover have "on_time (vpcc_frames fmt) (unat period) (pace env period (cf + 1) w)"
    proof (rule pace_on_time [OF l])
      show "vpcc_frames fmt (pushed w) \<le> unat (cf + 1)" using f cf1 by simp
      show "unat (cf + 1) * unat period < 18446744073709551616"
        using cf1 \<open>unat cf + 1 \<le> lim\<close> lim(2) by (intro schedule_fits [of _ lim]) simp_all
    qed
    ultimately show ?thesis by simp
  qed
qed

text \<open>The invariants of the two loops, with the NAL units \<open>is\<close> to come: all of them are pushed.\<close>

definition nals_inv :: "u8 list \<Rightarrow> u64 \<Rightarrow> nat \<Rightarrow> nal_info list \<Rightarrow> world \<Rightarrow> bool" where
  "nals_inv mem period lim is w \<longleftrightarrow> (\<forall>i \<in> set is. nal_in mem i) \<and> length (pushed w) + length is \<le> lim
     \<and> lim * unat period < 2 ^ 64 \<and> lim < 2 ^ 64"

definition vpcc_inv :: "u8 list \<Rightarrow> V3C_UNIT_TYPE \<Rightarrow> u64 \<Rightarrow> nat \<Rightarrow> nal_info list \<Rightarrow> vpcc_state \<Rightarrow> bool" where
  "vpcc_inv mem fmt period lim is s \<longleftrightarrow> tail_ok fmt (vs_temp_nalu s, vs_current_frame s, vs_world s)
     \<and> nals_inv mem period lim is (vs_world s) \<and> vs_bytes_sent s = length (concat (pushed (vs_world s)))"

definition sends_logged :: "V3C_UNIT_TYPE \<Rightarrow> vpcc_latency_state \<Rightarrow> bool" where
  "sends_logged fmt s \<longleftrightarrow>
     vl_send_times s = map fst (filter (\<lambda>(t, x). frame_nal fmt x) (w_log (vl_world s)))"

definition vpcc_latency_inv ::
  "u8 list \<Rightarrow> V3C_UNIT_TYPE \<Rightarrow> u64 \<Rightarrow> nat \<Rightarrow> nal_info list \<Rightarrow> vpcc_latency_state \<Rightarrow> bool" where
  "vpcc_latency_inv mem fmt period lim is s \<longleftrightarrow> tail_ok fmt (vl_temp_nalu s, vl_current_frame s, vl_world s)
     \<and> nals_inv mem period lim is (vl_world s) \<and> sends_logged fmt s"

lemma hd_nal_bytes: "nal_in mem i \<Longrightarrow> hd (nal_bytes mem i) = mem ! nal_location i"
  by (simp add: nal_in_def nal_bytes_def hd_drop_conv_nth hd_take)

text \<open>The push of one NAL unit, before the tail.\<close>

lemma push_nal:
  assumes inv: "nals_inv mem period lim (i # is) w0" and time: "on_time (vpcc_frames fmt) (unat period) w0"
  shows "\<exists>b ok w. rd8 mem (nal_location i) = Inr b \<and> (param_set fmt (nalu_type b) \<longleftrightarrow> \<not> frame_nal fmt (nal_bytes mem i))
    \<and> push_frame env mem (nal_location i) (nal_size i) w0 = Inr (ok, w)
    \<and> pushed w = pushed w0 @ [nal_bytes mem i] \<and> w_log w = w_log w0 @ [(w_now w0, nal_bytes mem i)]
    \<and> log_on_time (vpcc_frames fmt) (unat period) w \<and> nals_inv mem period lim is w \<and> length (pushed w) \<le> lim
    \<and> (vpcc_frames fmt (pushed w) = vpcc_frames fmt (pushed w0) \<longrightarrow> on_time (vpcc_frames fmt) (unat period) w)
    \<and> (\<not> frame_nal fmt (nal_bytes mem i) \<longrightarrow> vpcc_frames fmt (pushed w) = vpcc_frames fmt (pushed w0)
         \<and> frame_nals fmt (pushed w) = frame_nals fmt (pushed w0))"
proof -
  have i: "nal_in mem i" using inv by (simp add: nals_inv_def)
  then have b: "nal_location i < length mem" "nal_location i + nal_size i \<le> length mem"
    by (auto simp: nal_in_def)
  obtain w where w: "push_frame env mem (nal_location i) (nal_size i) w0 = Inr (e_push_ok env (length (w_log w0)), w)"
    "pushed w = pushed w0 @ [nal_bytes mem i]" "w_log w = w_log w0 @ [(w_now w0, nal_bytes mem i)]"
    "log_on_time (vpcc_frames fmt) (unat period) w"
    "vpcc_frames fmt (pushed w0 @ [nal_bytes mem i]) = vpcc_frames fmt (pushed w0) \<longrightarrow> on_time (vpcc_frames fmt) (unat period) w"
    using push_frame_ok [OF b(2), of env w0 "vpcc_frames fmt" "unat period"] time
    unfolding nal_bytes_def by blast
  have "param_set fmt (nalu_type (mem ! nal_location i)) \<longleftrightarrow> \<not> frame_nal fmt (nal_bytes mem i)"
    by (simp add: frame_nal_def hd_nal_bytes [OF i])
  then show ?thesis
    using w b inv by (auto simp: nals_inv_def vpcc_frames_def frame_nals_def)
qed

lemma vpcc_body_ok:
  assumes inv: "vpcc_inv mem fmt period lim (i # is) s" and time: "on_time (vpcc_frames fmt) (unat period) (vs_world s)"
  shows "\<exists>s'. vpcc_body env mem fmt period i s = Inr (True, s')
    \<and> pushed (vs_world s') = pushed (vs_world s) @ [nal_bytes mem i]
    \<and> vpcc_inv mem fmt period lim is s' \<and> on_time (vpcc_frames fmt) (unat period) (vs_world s')"
proof -
  have ninv: "nals_inv mem period lim (i # is) (vs_world s)" using inv by (simp add: vpcc_inv_def)
  obtain b ok w where b: "rd8 mem (nal_location i) = Inr b" "param_set fmt (nalu_type b) \<longleftrightarrow> \<not> frame_nal fmt (nal_bytes mem i)"
    and w: "push_frame env mem (nal_location i) (nal_size i) (vs_world s) = Inr (ok, w)"
      "pushed w = pushed (vs_world s) @ [nal_bytes mem i]" "log_on_time (vpcc_frames fmt) (unat period) w"
      "nals_inv mem period lim is w" "length (pushed w) \<le> lim"
    and same: "vpcc_frames fmt (pushed w) = vpcc_frames fmt (pushed (vs_world s)) \<longrightarrow> on_time (vpcc_frames fmt) (unat period) w"
    and param: "\<not> frame_nal fmt (nal_bytes mem i) \<longrightarrow> vpcc_frames fmt (pushed w) = vpcc_frames fmt (pushed (vs_world s))
         \<and> frame_nals fmt (pushed w) = frame_nals fmt (pushed (vs_world s))"
    using push_nal [OF ninv time, of env] by blast
  have len: "length (nal_bytes mem i) = nal_size i"
    using ninv by (auto simp: nals_inv_def nal_in_def nal_bytes_def)
  show ?thesis
  proof (cases "frame_nal fmt (nal_bytes mem i)")
    case False
    let ?s = "s\<lparr>vs_bytes_sent := vs_bytes_sent s + nal_size i, vs_world := w\<rparr>"
    have "vpcc_body env mem fmt period i s = Inr (True, ?s)"
      using b w False by (simp add: vpcc_body_def Let_def)
    moreover have "vpcc_inv mem fmt period lim is ?s"
      using inv w param False len by (simp add: vpcc_inv_def tail_ok_def)
    ultimately show ?thesis using w(2) same param False by (intro exI [of _ ?s]) simp
  next
    case True
    have pre: "tail_ok fmt (vs_temp_nalu s, vs_current_frame s, vs_world s)" using inv by (simp add: vpcc_inv_def)
    obtain temp cf w' where t: "vpcc_tail env fmt period (vs_temp_nalu s, vs_current_frame s, w) = (temp, cf, w')"
      "tail_ok fmt (temp, cf, w')" "pushed w' = pushed w" "on_time (vpcc_frames fmt) (unat period) w'"
      using vpcc_tail_ok [OF pre w(2) True w(3) _ w(5), of env] same w(4) by (auto simp: nals_inv_def)
    let ?s = "s\<lparr>vs_temp_nalu := temp, vs_current_frame := cf, vs_bytes_sent := vs_bytes_sent s + nal_size i, vs_world := w'\<rparr>"
    have "vpcc_body env mem fmt period i s = Inr (True, ?s)"
      using b w(1) True t(1) by (simp add: vpcc_body_def Let_def)
    moreover have "vpcc_inv mem fmt period lim is ?s"
      using inv w(2,4) t len by (simp add: vpcc_inv_def nals_inv_def)
    ultimately show ?thesis using w(2) t by (intro exI [of _ ?s]) simp
  qed
qed

lemma pushed_log: "map snd (w_log w) = pushed w"
  by (simp add: pushed_def)

lemma vpcc_tail_log: "vpcc_tail env fmt period (temp, cf, w) = (temp', cf', w') \<Longrightarrow> w_log w' = w_log w"
  by (auto simp: vpcc_tail_def Let_def split: if_splits)

lemma vpcc_latency_body_ok:
  assumes inv: "vpcc_latency_inv mem fmt period lim (i # is) s" and time: "on_time (vpcc_frames fmt) (unat period) (vl_world s)"
  shows "\<exists>s'. vpcc_latency_body env mem fmt period i s = Inr (True, s')
    \<and> pushed (vl_world s') = pushed (vl_world s) @ [nal_bytes mem i]
    \<and> vpcc_latency_inv mem fmt period lim is s' \<and> on_time (vpcc_frames fmt) (unat period) (vl_world s')"
proof -
  have ninv: "nals_inv mem period lim (i # is) (vl_world s)" using inv by (simp add: vpcc_latency_inv_def)
  obtain b ok w where b: "rd8 mem (nal_location i) = Inr b" "param_set fmt (nalu_type b) \<longleftrightarrow> \<not> frame_nal fmt (nal_bytes mem i)"
    and w: "push_frame env mem (nal_location i) (nal_size i) (vl_world s) = Inr (ok, w)"
      "pushed w = pushed (vl_world s) @ [nal_bytes mem i]" "log_on_time (vpcc_frames fmt) (unat period) w"
      "nals_inv mem period lim is w" "length (pushed w) \<le> lim"
      "w_log w = w_log (vl_world s) @ [(w_now (vl_world s), nal_bytes mem i)]"
    and same: "vpcc_frames fmt (pushed w) = vpcc_frames fmt (pushed (vl_world s)) \<longrightarrow> on_time (vpcc_frames fmt) (unat period) w"
    and param: "\<not> frame_nal fmt (nal_bytes mem i) \<longrightarrow> vpcc_frames fmt (pushed w) = vpcc_frames fmt (pushed (vl_world s))
         \<and> frame_nals fmt (pushed w) = frame_nals fmt (pushed (vl_world s))"
    using push_nal [OF ninv time, of env] by blast
  show ?thesis
  proof (cases "frame_nal fmt (nal_bytes mem i)")
    case False
    let ?s = "s\<lparr>vl_world := w\<rparr>"
    have "vpcc_latency_body env mem fmt period i s = Inr (True, ?s)"
      using b w False by (simp add: vpcc_latency_body_def Let_def)
    moreover have "vpcc_latency_inv mem fmt period lim is ?s"
      using inv w param False by (simp add: vpcc_latency_inv_def tail_ok_def sends_logged_def)
    ultimately show ?thesis using w(2) same param False by (intro exI [of _ ?s]) simp
  next
    case True
    have pre: "tail_ok fmt (vl_temp_nalu s, vl_current_frame s, vl_world s)" using inv by (simp add: vpcc_latency_inv_def)
    obtain temp cf w' where t: "vpcc_tail env fmt period (vl_temp_nalu s, vl_current_frame s, w) = (temp, cf, w')"
      "tail_ok fmt (temp, cf, w')" "pushed w' = pushed w" "on_time (vpcc_frames fmt) (unat period) w'"
      using vpcc_tail_ok [OF pre w(2) True w(3) _ w(5), of env] same w(4) by (auto simp: nals_inv_def)
    let ?s = "s\<lparr>vl_temp_nalu := temp, vl_current_frame := cf,
      vl_send_times := vl_send_times s @ [w_now (vl_world s)], vl_world := w'\<rparr>"
    have "vpcc_latency_body env mem fmt period i s = Inr (True, ?s)"
      using b w(1) True t(1) by (simp add: vpcc_latency_body_def Let_def)
    moreover have "vpcc_latency_inv mem fmt period lim is ?s"
      using inv w(2,4,6) t True vpcc_tail_log [OF t(1)]
      by (simp add: vpcc_latency_inv_def nals_inv_def sends_logged_def)
    ultimately show ?thesis using w(2) t by (intro exI [of _ ?s]) simp
  qed
qed

interpretation vpcc: paced "vpcc_body env mem fmt period" vs_world "vpcc_frames fmt" "unat period"
    "vpcc_inv mem fmt period lim" "\<lambda>is _. map (nal_bytes mem) is" True
  for env mem fmt period lim
proof
  fix i "is" s
  assume "vpcc_inv mem fmt period lim (i # is) s" "on_time (vpcc_frames fmt) (unat period) (vs_world s)"
  from vpcc_body_ok [OF this, of env]
  show "\<exists>go s' ys. vpcc_body env mem fmt period i s = Inr (go, s')
    \<and> log_on_time (vpcc_frames fmt) (unat period) (vs_world s') \<and> (True \<longrightarrow> go)
    \<and> pushed (vs_world s') @ ys = pushed (vs_world s) @ map (nal_bytes mem) (i # is)
    \<and> (go \<longrightarrow> vpcc_inv mem fmt period lim is s' \<and> on_time (vpcc_frames fmt) (unat period) (vs_world s')
         \<and> ys = map (nal_bytes mem) is)"
    using on_time_log by force
qed simp

interpretation vpcc_latency: paced "vpcc_latency_body env mem fmt period" vl_world "vpcc_frames fmt" "unat period"
    "vpcc_latency_inv mem fmt period lim" "\<lambda>is _. map (nal_bytes mem) is" True
  for env mem fmt period lim
proof
  fix i "is" s
  assume "vpcc_latency_inv mem fmt period lim (i # is) s" "on_time (vpcc_frames fmt) (unat period) (vl_world s)"
  from vpcc_latency_body_ok [OF this, of env]
  show "\<exists>go s' ys. vpcc_latency_body env mem fmt period i s = Inr (go, s')
    \<and> log_on_time (vpcc_frames fmt) (unat period) (vl_world s') \<and> (True \<longrightarrow> go)
    \<and> pushed (vl_world s') @ ys = pushed (vl_world s) @ map (nal_bytes mem) (i # is)
    \<and> (go \<longrightarrow> vpcc_latency_inv mem fmt period lim is s' \<and> on_time (vpcc_frames fmt) (unat period) (vl_world s')
         \<and> ys = map (nal_bytes mem) is)"
    using on_time_log by force
qed simp

subsection \<open>One frame at a time, timed: uvgrtp/latency_sender.cc\<close>

text \<open>
  The globals the sending side writes. The receive hook, which runs on another thread and
  reads \<open>frame_send_time\<close>, is modelled in \<open>Latency\<close>.
\<close>

record latency_state =
  lt_frame_send_time :: nat
  lt_send_times :: "nat list"
  lt_inter_send :: "nat list"
  lt_intra_send :: "nat list"
  lt_after_send_times :: "nat list"
  lt_current_frame :: u64
  lt_offset :: nat
  lt_world :: world

definition latency_init :: latency_state where
  "latency_init = \<lparr>lt_frame_send_time = 0, lt_send_times = [], lt_inter_send = [], lt_intra_send = [],
     lt_after_send_times = [], lt_current_frame = 0, lt_offset = 0, lt_world = world_init\<rparr>"

definition latency_chunk_body :: "env \<Rightarrow> u8 list \<Rightarrow> u64 \<Rightarrow> nat \<Rightarrow> latency_state \<Rightarrow> (bool \<times> latency_state) res" where
  "latency_chunk_body env mem period chunk_size s =
     (let s = s\<lparr>lt_frame_send_time := w_now (lt_world s)\<rparr> in
      rbind (push_frame env mem (lt_offset s) chunk_size (lt_world s)) (\<lambda>(ok, w).
      if \<not> ok then Inr (False, s\<lparr>lt_world := w\<rparr>)
      else let current_frame = lt_current_frame s + 1 in
        Inr (True, s\<lparr>lt_current_frame := current_frame, lt_offset := lt_offset s + chunk_size,
                     lt_world := pace env period current_frame w\<rparr>)))"

definition latency_atlas_body ::
  "env \<Rightarrow> u8 list \<Rightarrow> u64 \<Rightarrow> nal_info \<Rightarrow> latency_state \<Rightarrow> (bool \<times> latency_state) res" where
  "latency_atlas_body env bytes period i s =
     rbind (rd8 bytes (nal_location i)) (\<lambda>b. let nalu_t = nalu_type b in
     if 30 \<le> nalu_t then Inr (True, s)
     else let ms = w_now (lt_world s);
              s = s\<lparr>lt_frame_send_time := ms, lt_send_times := lt_send_times s @ [ms]\<rparr>;
              s = (if nalu_t \<le> 15 then s\<lparr>lt_inter_send := lt_inter_send s @ [ms]\<rparr>
                   else if 16 \<le> nalu_t \<and> nalu_t \<le> 29 then s\<lparr>lt_intra_send := lt_intra_send s @ [ms]\<rparr>
                   else s) in
       rbind (push_frame env bytes (nal_location i) (nal_size i) (lt_world s)) (\<lambda>(ok, w).
       if \<not> ok then Inr (False, s\<lparr>lt_world := w\<rparr>)
       else let current_frame = lt_current_frame s + 1 in
         Inr (True, s\<lparr>lt_after_send_times := lt_after_send_times s @ [w_now w], lt_current_frame := current_frame,
                      lt_world := pace env period current_frame w\<rparr>)))"

text \<open>The test loop of \<open>sender\<close>: false is \<open>return EXIT_FAILURE\<close>.\<close>

definition latency_sender ::
  "env \<Rightarrow> u8 list \<Rightarrow> u64 \<Rightarrow> bool \<Rightarrow> v3c_unit_info list \<Rightarrow> nat list \<Rightarrow> (bool \<times> latency_state) res" where
  "latency_sender env mem period atlas_enabled units chunk_sizes =
     (if atlas_enabled
      then for_each (\<lambda>p. for_each (latency_atlas_body env mem period) (ui_nal_infos p)) units latency_init
      else if chunk_sizes = [] then Inr (False, latency_init)
      else for_each (latency_chunk_body env mem period) chunk_sizes latency_init)"

text \<open>Both loops are, on what they push and when, the loops of the throughput sender.\<close>

definition latency_view :: "latency_state \<Rightarrow> chunk_state" where
  "latency_view s = \<lparr>cs_bytes_sent = lt_offset s, cs_current_frame = lt_current_frame s, cs_world = lt_world s\<rparr>"

definition latency_chunk_inv :: "u8 list \<Rightarrow> u64 \<Rightarrow> nat \<Rightarrow> nat list \<Rightarrow> latency_state \<Rightarrow> bool" where
  "latency_chunk_inv mem period lim ns s \<longleftrightarrow> chunk_inv mem period lim ns (latency_view s)"

definition inter_nal :: "u8 list \<Rightarrow> bool" where
  "inter_nal x \<longleftrightarrow> nalu_type (hd x) \<le> 15"

definition intra_nal :: "u8 list \<Rightarrow> bool" where
  "intra_nal x \<longleftrightarrow> 16 \<le> nalu_type (hd x) \<and> nalu_type (hd x) \<le> 29"

definition latency_atlas_inv :: "u8 list \<Rightarrow> u64 \<Rightarrow> nat \<Rightarrow> nal_info list \<Rightarrow> latency_state \<Rightarrow> bool" where
  "latency_atlas_inv mem period lim is s \<longleftrightarrow> atlas_inv mem period lim is (latency_view s)
     \<and> lt_send_times s = map fst (w_log (lt_world s))
     \<and> lt_inter_send s = map fst (filter (\<lambda>(t, x). inter_nal x) (w_log (lt_world s)))
     \<and> lt_intra_send s = map fst (filter (\<lambda>(t, x). intra_nal x) (w_log (lt_world s)))"

lemma latency_view_simps [simp]:
  "cs_bytes_sent (latency_view s) = lt_offset s" "cs_current_frame (latency_view s) = lt_current_frame s"
  "cs_world (latency_view s) = lt_world s"
  by (simp_all add: latency_view_def)

lemma latency_chunk_body_ok:
  assumes inv: "latency_chunk_inv mem period lim (n # ns) s" and time: "on_time length (unat period) (lt_world s)"
  shows "\<exists>go s' ys. latency_chunk_body env mem period n s = Inr (go, s')
    \<and> log_on_time length (unat period) (lt_world s') \<and> ((\<forall>k. e_push_ok env k) \<longrightarrow> go)
    \<and> pushed (lt_world s') @ ys = pushed (lt_world s) @ slices mem (lt_offset s) (n # ns)
    \<and> (go \<longrightarrow> latency_chunk_inv mem period lim ns s' \<and> on_time length (unat period) (lt_world s')
         \<and> ys = slices mem (lt_offset s') ns)"
proof -
  obtain w where w: "push_frame env mem (lt_offset s) n (lt_world s) = Inr (e_push_ok env (length (w_log (lt_world s))), w)"
    and p: "pushed w = pushed (lt_world s) @ [take n (drop (lt_offset s) mem)]" and l: "log_on_time length (unat period) w"
    and cf: "unat (lt_current_frame s + 1) = length (pushed w)"
    and on: "on_time length (unat period) (pace env period (lt_current_frame s + 1) w)"
    using push_and_pace [of "lt_offset s" n mem period "lt_world s" "lt_current_frame s" lim env] time inv
    by (auto simp: latency_chunk_inv_def chunk_inv_def)
  show ?thesis
  proof (cases "e_push_ok env (length (w_log (lt_world s)))")
    case True
    let ?s = "s\<lparr>lt_frame_send_time := w_now (lt_world s), lt_current_frame := lt_current_frame s + 1,
      lt_offset := lt_offset s + n, lt_world := pace env period (lt_current_frame s + 1) w\<rparr>"
    have "latency_chunk_body env mem period n s = Inr (True, ?s)"
      by (simp add: latency_chunk_body_def w True Let_def)
    moreover have "latency_chunk_inv mem period lim ns ?s"
      using inv p cf by (simp add: latency_chunk_inv_def chunk_inv_def)
    ultimately show ?thesis
      using p on on_time_log [OF on]
      by (intro exI [of _ True] exI [of _ ?s] exI [of _ "slices mem (lt_offset s + n) ns"]) simp
  next
    case False
    let ?s = "s\<lparr>lt_frame_send_time := w_now (lt_world s), lt_world := w\<rparr>"
    have "latency_chunk_body env mem period n s = Inr (False, ?s)"
      by (simp add: latency_chunk_body_def w False Let_def)
    then show ?thesis
      using p l False by (intro exI [of _ False] exI [of _ ?s] exI [of _ "slices mem (lt_offset s + n) ns"]) auto
  qed
qed

interpretation latency_chunk: paced "latency_chunk_body env mem period" lt_world length "unat period"
    "latency_chunk_inv mem period lim" "\<lambda>ns s. slices mem (lt_offset s) ns" "\<forall>k. e_push_ok env k"
  for env mem period lim
  by unfold_locales (simp, rule latency_chunk_body_ok)

lemma latency_atlas_body_ok:
  assumes inv: "latency_atlas_inv mem period lim (i # is) s" and time: "on_time length (unat period) (lt_world s)"
  shows "\<exists>go s' ys. latency_atlas_body env mem period i s = Inr (go, s')
    \<and> log_on_time length (unat period) (lt_world s') \<and> ((\<forall>k. e_push_ok env k) \<longrightarrow> go)
    \<and> pushed (lt_world s') @ ys = pushed (lt_world s) @ map (nal_bytes mem) (filter (is_acl mem) (i # is))
    \<and> (go \<longrightarrow> latency_atlas_inv mem period lim is s' \<and> on_time length (unat period) (lt_world s')
         \<and> ys = map (nal_bytes mem) (filter (is_acl mem) is))"
proof -
  have i: "nal_location i < length mem" "nal_location i + nal_size i \<le> length mem"
    using inv by (auto simp: latency_atlas_inv_def atlas_inv_def nal_in_def)
  let ?b = "mem ! nal_location i"
  show ?thesis
  proof (cases "is_acl mem i")
    case False
    then have "latency_atlas_body env mem period i s = Inr (True, s)"
      using i by (simp add: latency_atlas_body_def is_acl_def)
    moreover have "latency_atlas_inv mem period lim is s"
      using inv by (simp add: latency_atlas_inv_def atlas_inv_def)
    ultimately show ?thesis
      using False time on_time_log [OF time]
      by (intro exI [of _ True] exI [of _ s] exI [of _ "map (nal_bytes mem) (filter (is_acl mem) is)"]) simp
  next
    case acl: True
    obtain w where w: "push_frame env mem (nal_location i) (nal_size i) (lt_world s)
        = Inr (e_push_ok env (length (w_log (lt_world s))), w)"
      and p: "pushed w = pushed (lt_world s) @ [nal_bytes mem i]" and l: "log_on_time length (unat period) w"
      and cf: "unat (lt_current_frame s + 1) = length (pushed w)"
      and on: "on_time length (unat period) (pace env period (lt_current_frame s + 1) w)"
      using push_and_pace [OF i(2) time, of "lt_current_frame s" lim env] inv
      by (auto simp: latency_atlas_inv_def atlas_inv_def nal_bytes_def)
    have log: "w_log w = w_log (lt_world s) @ [(w_now (lt_world s), nal_bytes mem i)]"
      using w i(2) by (auto simp: push_frame_def rd_bytes_def Let_def nal_bytes_def)
    let ?ms = "w_now (lt_world s)"
    let ?s0 = "s\<lparr>lt_frame_send_time := ?ms, lt_send_times := lt_send_times s @ [?ms]\<rparr>"
    let ?s1 = "if nalu_type ?b \<le> 15 then ?s0\<lparr>lt_inter_send := lt_inter_send s @ [?ms]\<rparr>
      else if 16 \<le> nalu_type ?b \<and> nalu_type ?b \<le> 29 then ?s0\<lparr>lt_intra_send := lt_intra_send s @ [?ms]\<rparr> else ?s0"
    have hd_x: "hd (nal_bytes mem i) = ?b"
      using inv by (intro hd_nal_bytes) (simp add: latency_atlas_inv_def atlas_inv_def)
    have kind: "intra_nal (nal_bytes mem i) \<longleftrightarrow> \<not> inter_nal (nal_bytes mem i)"
      "inter_nal (nal_bytes mem i) \<longleftrightarrow> nalu_type ?b \<le> 15"
      using acl by (auto simp: is_acl_def inter_nal_def intra_nal_def hd_x word_le_nat_alt)
    show ?thesis
    proof (cases "e_push_ok env (length (w_log (lt_world s)))")
      case True
      let ?s = "?s1\<lparr>lt_after_send_times := lt_after_send_times ?s1 @ [w_now w],
        lt_current_frame := lt_current_frame s + 1, lt_world := pace env period (lt_current_frame s + 1) w\<rparr>"
      have "latency_atlas_body env mem period i s = Inr (True, ?s)"
        using i acl w True by (simp add: latency_atlas_body_def is_acl_def Let_def)
      moreover have "latency_atlas_inv mem period lim is ?s"
        using inv p cf log kind by (simp add: latency_atlas_inv_def atlas_inv_def intra_nal_def hd_x)
      moreover have "lt_world ?s = pace env period (lt_current_frame s + 1) w" by simp
      ultimately show ?thesis
        using p on acl on_time_log [OF on]
        by (intro exI [of _ True] exI [of _ ?s] exI [of _ "map (nal_bytes mem) (filter (is_acl mem) is)"]) simp
    next
      case False
      let ?s = "?s1\<lparr>lt_world := w\<rparr>"
      have "latency_atlas_body env mem period i s = Inr (False, ?s)"
        using i acl w False by (simp add: latency_atlas_body_def is_acl_def Let_def)
      then show ?thesis
        using p l acl False
        by (intro exI [of _ False] exI [of _ ?s] exI [of _ "map (nal_bytes mem) (filter (is_acl mem) is)"]) auto
    qed
  qed
qed

interpretation latency_atlas: paced "latency_atlas_body env mem period" lt_world length "unat period"
    "latency_atlas_inv mem period lim" "\<lambda>is _. map (nal_bytes mem) (filter (is_acl mem) is)" "\<forall>k. e_push_ok env k"
  for env mem period lim
  by unfold_locales (simp, rule latency_atlas_body_ok)

subsection \<open>FFmpeg: ffmpeg/sender.cc\<close>

text \<open>The packet size is an \<open>int\<close>; what \<open>av_interleaved_write_frame\<close> returns is not looked at.\<close>

definition pkt_size :: "nat \<Rightarrow> nat" where
  "pkt_size chunk_size = nat (sint (word_of_nat chunk_size :: u32))"

definition ffmpeg_body :: "env \<Rightarrow> u8 list \<Rightarrow> u64 \<Rightarrow> nat \<Rightarrow> chunk_state \<Rightarrow> (bool \<times> chunk_state) res" where
  "ffmpeg_body env mem period chunk_size s =
     rbind (push_frame env mem (cs_bytes_sent s) (pkt_size chunk_size) (cs_world s)) (\<lambda>(_, w).
     let current_frame = cs_current_frame s + 1; bytes_sent = cs_bytes_sent s + chunk_size in
     Inr (True, \<lparr>cs_bytes_sent = bytes_sent, cs_current_frame = current_frame,
                 cs_world = pace env period current_frame w\<rparr>))"

definition ffmpeg_thread :: "env \<Rightarrow> u8 list \<Rightarrow> u64 \<Rightarrow> nat list \<Rightarrow> ((nat \<times> nat) \<times> chunk_state) res" where
  "ffmpeg_thread env mem period chunk_sizes =
     rbind (for_each (ffmpeg_body env mem period) chunk_sizes chunk_init) (\<lambda>(_, s).
     Inr ((cs_bytes_sent s, w_now (cs_world s) div 1000), s))"

definition ffmpeg_inv :: "u8 list \<Rightarrow> u64 \<Rightarrow> nat \<Rightarrow> nat list \<Rightarrow> chunk_state \<Rightarrow> bool" where
  "ffmpeg_inv mem period lim ns s \<longleftrightarrow> chunk_inv mem period lim ns s \<and> (\<forall>n \<in> set ns. n < 2147483648)"

lemma pkt_size_small: "n < 2147483648 \<Longrightarrow> pkt_size n = n"
  by (simp add: pkt_size_def signed_of_nat signed_take_bit_int_eq_self)

lemma ffmpeg_body_ok:
  assumes inv: "ffmpeg_inv mem period lim (n # ns) s" and time: "on_time length (unat period) (cs_world s)"
  shows "\<exists>s'. ffmpeg_body env mem period n s = Inr (True, s') \<and> on_time length (unat period) (cs_world s')
    \<and> pushed (cs_world s') @ chunk_rest mem ns s' = pushed (cs_world s) @ chunk_rest mem (n # ns) s
    \<and> ffmpeg_inv mem period lim ns s'"
proof -
  obtain ok w where w: "push_frame env mem (cs_bytes_sent s) n (cs_world s) = Inr (ok, w)"
    and p: "pushed w = pushed (cs_world s) @ [take n (drop (cs_bytes_sent s) mem)]"
    and cf: "unat (cs_current_frame s + 1) = length (pushed w)"
    and on: "on_time length (unat period) (pace env period (cs_current_frame s + 1) w)"
    using push_and_pace [of "cs_bytes_sent s" n mem period "cs_world s" "cs_current_frame s" lim env] time inv
    by (auto simp: ffmpeg_inv_def chunk_inv_def)
  let ?s = "\<lparr>cs_bytes_sent = cs_bytes_sent s + n, cs_current_frame = cs_current_frame s + 1,
    cs_world = pace env period (cs_current_frame s + 1) w\<rparr>"
  have "ffmpeg_body env mem period n s = Inr (True, ?s)"
    using inv w by (simp add: ffmpeg_body_def ffmpeg_inv_def pkt_size_small Let_def)
  moreover have "ffmpeg_inv mem period lim ns ?s"
    using inv p cf by (simp add: ffmpeg_inv_def chunk_inv_def)
  ultimately show ?thesis using p on by (intro exI [of _ ?s]) (simp add: chunk_rest_def)
qed

lemma ffmpeg_bytes:
  assumes "for_each (ffmpeg_body env mem period) ns s = Inr (True, s')"
  shows "cs_bytes_sent s' = cs_bytes_sent s + sum_list ns"
  using assms
proof (induction ns arbitrary: s)
  case (Cons n ns)
  obtain go s1 where s1: "ffmpeg_body env mem period n s = Inr (go, s1)" "go"
    "for_each (ffmpeg_body env mem period) ns s1 = Inr (True, s')"
    using Cons.prems by (auto simp: rbind_eq_Inr split: if_splits)
  then have "cs_bytes_sent s1 = cs_bytes_sent s + n"
    by (auto simp: ffmpeg_body_def rbind_eq_Inr Let_def split: prod.splits)
  then show ?case using Cons.IH [OF s1(3)] by simp
qed simp

interpretation ffmpeg: paced "ffmpeg_body env mem period" cs_world length "unat period"
    "ffmpeg_inv mem period lim" "chunk_rest mem" True
  for env mem period lim
proof
  fix i "is" s
  assume "ffmpeg_inv mem period lim (i # is) s" "on_time length (unat period) (cs_world s)"
  from ffmpeg_body_ok [OF this, of env]
  show "\<exists>go s' ys. ffmpeg_body env mem period i s = Inr (go, s') \<and> log_on_time length (unat period) (cs_world s')
    \<and> (True \<longrightarrow> go) \<and> pushed (cs_world s') @ ys = pushed (cs_world s) @ chunk_rest mem (i # is) s
    \<and> (go \<longrightarrow> ffmpeg_inv mem period lim is s' \<and> on_time length (unat period) (cs_world s') \<and> ys = chunk_rest mem is s')"
    using on_time_log by blast
qed (simp add: chunk_rest_def)

subsection \<open>Properties\<close>

lemma log_on_time_length:
  "log_on_time length p w \<Longrightarrow> \<forall>k < length (w_log w). k * p \<le> fst (w_log w ! k)"
  by (simp add: log_on_time_def pushed_def)

text \<open>Elapsed time in whole milliseconds loses less than one.\<close>

lemma ms_bound: "(m::nat) < 1000 * (m div 1000 + 1)"
  using dividend_less_times_div [of 1000 m] by (simp add: distrib_left)

lemma sender_thread_run:
  assumes "sum_list chunk_sizes \<le> length mem" and "length chunk_sizes * unat period < 2 ^ 64"
    and "length chunk_sizes < 2 ^ 64"
  shows "\<exists>r s ys. sender_thread env mem period chunk_sizes = Inr (r, s)
    \<and> (\<forall>k < length (w_log (cs_world s)). k * unat period \<le> fst (w_log (cs_world s) ! k))
    \<and> pushed (cs_world s) @ ys = slices mem 0 chunk_sizes
    \<and> ((\<forall>k. e_push_ok env k) \<longrightarrow> ys = [] \<and> (\<exists>ms. r = Some (sum_list chunk_sizes, ms)
         \<and> length chunk_sizes * unat period < 1000 * (ms + 1)))"
proof -
  have inv: "chunk_inv mem period (length chunk_sizes) chunk_sizes chunk_init"
    using assms by (simp add: chunk_inv_def chunk_init_def world_init_def pushed_def)
  have start: "on_time length (unat period) (cs_world chunk_init)"
    by (simp add: chunk_init_def on_time_init)
  obtain go s ys where run: "for_each (chunk_body env mem period) chunk_sizes chunk_init = Inr (go, s)"
    and l: "log_on_time length (unat period) (cs_world s)" and st: "(\<forall>k. e_push_ok env k) \<longrightarrow> go"
    and p: "pushed (cs_world s) @ ys = slices mem 0 chunk_sizes"
    and g: "go \<longrightarrow> chunk_inv mem period (length chunk_sizes) [] s \<and> on_time length (unat period) (cs_world s) \<and> ys = []"
    using chunk.run [OF inv start, of env]
    by (auto simp: chunk_rest_def chunk_init_def world_init_def pushed_def)
  have bytes: "cs_bytes_sent s = sum_list chunk_sizes" if go
    using run that chunk_bytes [of env mem period chunk_sizes chunk_init s] by (simp add: chunk_init_def)
  have "length chunk_sizes * unat period < 1000 * (w_now (cs_world s) div 1000 + 1)" if go
  proof -
    have "length (pushed (cs_world s)) = length chunk_sizes"
      using p g that by (metis append_Nil2 length_slices)
    then have "length chunk_sizes * unat period \<le> w_now (cs_world s)"
      using g that by (simp add: on_time_def)
    then show ?thesis using ms_bound [of "w_now (cs_world s)"] by (rule order.strict_trans1)
  qed
  then have ms: "length chunk_sizes * unat period < 1000 * (w_now (cs_world s) div 1000 + 1)" if go
    using that .
  have sched: "\<forall>k < length (w_log (cs_world s)). k * unat period \<le> fst (w_log (cs_world s) ! k)"
    using l by (rule log_on_time_length)
  define r where "r = (if go then Some (cs_bytes_sent s, w_now (cs_world s) div 1000) else None)"
  have thread: "sender_thread env mem period chunk_sizes = Inr (r, s)"
    using run by (simp add: sender_thread_def r_def)
  have steady: "ys = [] \<and> (\<exists>ms. r = Some (sum_list chunk_sizes, ms) \<and> length chunk_sizes * unat period < 1000 * (ms + 1))"
    if "\<forall>k. e_push_ok env k"
  proof -
    have go: go using st that by blast
    then show ?thesis using g bytes ms by (simp add: r_def)
  qed
  show ?thesis
    by (intro exI [of _ r] exI [of _ s] exI [of _ ys]) (use thread sched p steady in blast)
qed

text \<open>
  C10: the throughput sender. For chunk sizes that fit the file and a schedule that does not
  overflow 64 bits, \<open>sender_thread\<close> never reads outside the file, whatever the library does; frame
  \<open>k\<close> is never pushed before \<open>k * period\<close>; what has been pushed is a beginning of the
  file cut at the chunk sizes; and if no push fails it is all of it, the reported byte count is
  the sum of the chunk sizes, and the reported time covers all frame periods.
\<close>

theorem sender_thread_schedule:
  assumes "sum_list chunk_sizes \<le> length mem" and "length chunk_sizes * unat period < 2 ^ 64"
    and "length chunk_sizes < 2 ^ 64"
  shows "\<exists>r s ys. sender_thread env mem period chunk_sizes = Inr (r, s)
    \<and> (\<forall>k < length (w_log (cs_world s)). k * unat period \<le> fst (w_log (cs_world s) ! k))
    \<and> pushed (cs_world s) @ ys = slices mem 0 chunk_sizes
    \<and> ((\<forall>k. e_push_ok env k) \<longrightarrow> ys = [] \<and> (\<exists>ms. r = Some (sum_list chunk_sizes, ms)
         \<and> length chunk_sizes * unat period < 1000 * (ms + 1)))"
  by (rule sender_thread_run [OF assms])

definition demo_env :: env where
  "demo_env = \<lparr>e_push_ok = \<lambda>k. k \<noteq> 7, e_cost = \<lambda>k. 3 * k, e_late = \<lambda>_. 1\<rparr>"

theorem sender_thread_schedule_witness:
  "\<exists>r s ys. sender_thread demo_env [1, 2, 3, 4, 5] 40 [2, 0, 3] = Inr (r, s)
    \<and> (\<forall>k < length (w_log (cs_world s)). k * unat (40 :: u64) \<le> fst (w_log (cs_world s) ! k))
    \<and> pushed (cs_world s) @ ys = slices [1, 2, 3, 4, 5] 0 [2, 0, 3]
    \<and> ((\<forall>k. e_push_ok demo_env k) \<longrightarrow> ys = [] \<and> (\<exists>ms. r = Some (sum_list [2, 0, 3], ms)
         \<and> length [2, 0, 3 :: nat] * unat (40 :: u64) < 1000 * (ms + 1)))"
  by (rule sender_thread_schedule) simp_all

text \<open>The schedule, round by round, when pushes take at most a period and sleeps are exact.\<close>

lemma chunk_exact:
  assumes env: "\<forall>k. e_push_ok env k \<and> e_late env k = 0 \<and> e_cost env k \<le> unat period"
    and inv: "chunk_inv mem period lim ns s"
    and now: "w_now (cs_world s) = length (pushed (cs_world s)) * unat period"
  shows "\<exists>s'. for_each (chunk_body env mem period) ns s = Inr (True, s')
    \<and> w_log (cs_world s') = w_log (cs_world s) @ zip (map (\<lambda>k. k * unat period)
          [length (pushed (cs_world s))..<length (pushed (cs_world s)) + length ns]) (slices mem (cs_bytes_sent s) ns)
    \<and> w_now (cs_world s') = (length (pushed (cs_world s)) + length ns) * unat period"
  using inv now
proof (induction ns arbitrary: s)
  case Nil
  then show ?case by simp
next
  case (Cons n ns)
  let ?k = "length (pushed (cs_world s))" and ?cf = "cs_current_frame s + 1"
  let ?x = "take n (drop (cs_bytes_sent s) mem)"
  obtain w where w: "push_frame env mem (cs_bytes_sent s) n (cs_world s) = Inr (e_push_ok env (length (w_log (cs_world s))), w)"
    and p: "pushed w = pushed (cs_world s) @ [?x]"
    and wn: "w_now w = w_now (cs_world s) + e_cost env (length (w_log (cs_world s)))"
    and wl: "w_log w = w_log (cs_world s) @ [(w_now (cs_world s), ?x)]"
    using push_frame_ok [of "cs_bytes_sent s" n mem env "cs_world s" length 0] Cons.prems(1)
    by (auto simp: chunk_inv_def)
  have lim: "?k + 1 \<le> lim" "lim * unat period < 2 ^ 64" "lim < 2 ^ 64" and cf0: "unat (cs_current_frame s) = ?k"
    using Cons.prems(1) by (simp_all add: chunk_inv_def)
  have cf: "unat ?cf = ?k + 1"
    using lim cf0 unat_Suc_u64 [of "cs_current_frame s"] by simp
  have fits: "(?k + 1) * unat period < 18446744073709551616"
    using lim by (intro schedule_fits [of _ lim]) simp_all
  have le: "w_now w \<le> (?k + 1) * unat period"
    using env wn Cons.prems(2) by (simp add: algebra_simps)
  have now': "w_now (pace env period ?cf w) = (?k + 1) * unat period"
    using pace_exact [of ?cf period w env] cf fits le env by (auto split: if_splits)
  let ?s = "\<lparr>cs_bytes_sent = cs_bytes_sent s + n, cs_current_frame = ?cf, cs_world = pace env period ?cf w\<rparr>"
  have b: "chunk_body env mem period n s = Inr (True, ?s)"
    using env by (simp add: chunk_body_def w Let_def)
  have "chunk_inv mem period lim ns ?s"
    using Cons.prems(1) p cf by (simp add: chunk_inv_def)
  moreover have "w_now (cs_world ?s) = length (pushed (cs_world ?s)) * unat period"
    using now' p by simp
  ultimately obtain s' where s': "for_each (chunk_body env mem period) ns ?s = Inr (True, s')"
    "w_log (cs_world s') = w_log (cs_world ?s) @ zip (map (\<lambda>k. k * unat period)
          [length (pushed (cs_world ?s))..<length (pushed (cs_world ?s)) + length ns]) (slices mem (cs_bytes_sent ?s) ns)"
    "w_now (cs_world s') = (length (pushed (cs_world ?s)) + length ns) * unat period"
    using Cons.IH [of ?s] by blast
  have "[?k..<?k + length (n # ns)] = ?k # [?k + 1..<?k + 1 + length ns]"
    by (subst upt_rec) simp
  then show ?case
    using b s' p wl Cons.prems(2) by (intro exI [of _ s']) simp
qed

text \<open>
  The throughput sender on an undisturbed machine. If every push succeeds within one period
  and sleeps do not overshoot, frame \<open>k\<close> is pushed exactly \<open>k\<close> periods after the start, the
  frames are the file cut at the chunk sizes, and the reported result is the number of bytes
  and \<open>n\<close> periods in milliseconds.
\<close>

theorem sender_thread_exact_schedule:
  assumes "sum_list chunk_sizes \<le> length mem" and "length chunk_sizes * unat period < 2 ^ 64"
    and "length chunk_sizes < 2 ^ 64"
    and "\<forall>k. e_push_ok env k \<and> e_late env k = 0 \<and> e_cost env k \<le> unat period"
  shows "\<exists>s. sender_thread env mem period chunk_sizes
      = Inr (Some (sum_list chunk_sizes, length chunk_sizes * unat period div 1000), s)
    \<and> w_log (cs_world s) = zip (map (\<lambda>k. k * unat period) [0..<length chunk_sizes]) (slices mem 0 chunk_sizes)"
proof -
  have inv: "chunk_inv mem period (length chunk_sizes) chunk_sizes chunk_init"
    using assms by (simp add: chunk_inv_def chunk_init_def world_init_def pushed_def)
  obtain s where "for_each (chunk_body env mem period) chunk_sizes chunk_init = Inr (True, s)"
    "w_log (cs_world s) = zip (map (\<lambda>k. k * unat period) [0..<length chunk_sizes]) (slices mem 0 chunk_sizes)"
    "w_now (cs_world s) = length chunk_sizes * unat period"
    using chunk_exact [OF assms(4) inv] by (auto simp: chunk_init_def world_init_def pushed_def)
  then show ?thesis
    using chunk_bytes [of env mem period chunk_sizes chunk_init s]
    by (simp add: sender_thread_def chunk_init_def)
qed

theorem sender_thread_exact_schedule_witness:
  "\<exists>s. sender_thread \<lparr>e_push_ok = \<lambda>_. True, e_cost = \<lambda>k. k mod 40, e_late = \<lambda>_. 0\<rparr> [1, 2, 3, 4, 5] 40 [2, 0, 3]
      = Inr (Some (sum_list [2, 0, 3], length [2, 0, 3 :: nat] * unat (40 :: u64) div 1000), s)
    \<and> w_log (cs_world s) = zip (map (\<lambda>k. k * unat (40 :: u64)) [0..<length [2, 0, 3 :: nat]]) (slices [1, 2, 3, 4, 5] 0 [2, 0, 3])"
  by (rule sender_thread_exact_schedule) (simp_all add: less_imp_le)

text \<open>
  The atlas sender. For NAL units that lie in the file, \<open>sender_func\<close> pushes the atlas
  coding layer units (types below 30) of all V3C units, in order, each the bytes its entry
  names and the \<open>k\<close>-th not before \<open>k * period\<close>; everything else is skipped without
  touching the schedule. It completes if no push fails, and otherwise stops at the failure.
\<close>

theorem sender_func_schedule:
  assumes "items = concat (map ui_nal_infos units)" and "\<forall>i \<in> set items. nal_in cbuf i"
    and "length items * unat period < 2 ^ 64" and "length items < 2 ^ 64"
  shows "\<exists>r s ys. sender_func env cbuf period units = Inr (r, s)
    \<and> (\<forall>k < length (w_log (cs_world s)). k * unat period \<le> fst (w_log (cs_world s) ! k))
    \<and> pushed (cs_world s) @ ys = map (nal_bytes cbuf) (filter (is_acl cbuf) items)
    \<and> ((\<forall>k. e_push_ok env k) \<longrightarrow> ys = [] \<and> r \<noteq> None)"
proof -
  have inv: "atlas_inv cbuf period (length items) items chunk_init"
    using assms by (simp add: atlas_inv_def chunk_init_def world_init_def pushed_def)
  have start: "on_time length (unat period) (cs_world chunk_init)"
    by (simp add: chunk_init_def on_time_init)
  obtain go s ys where "for_each (atlas_body env cbuf period) items chunk_init = Inr (go, s)"
    "log_on_time length (unat period) (cs_world s)" "(\<forall>k. e_push_ok env k) \<longrightarrow> go" "go \<longrightarrow> ys = []"
    "pushed (cs_world s) @ ys = map (nal_bytes cbuf) (filter (is_acl cbuf) items)"
    using atlas.run [OF inv start, of env]
    by (auto simp: atlas_rest_def chunk_init_def world_init_def pushed_def)
  then show ?thesis
    unfolding sender_func_def for_each_nested assms(1) [symmetric]
    by (auto simp: log_on_time_def pushed_def min_def)
qed

theorem sender_func_schedule_witness:
  "\<exists>r s ys. sender_func demo_env [0, 0x3e, 1, 2, 3, 4] 40
      [(new_unit empty_header)\<lparr>ui_nal_infos := [\<lparr>nal_location = 0, nal_size = 1, nal_buf = 0\<rparr>]\<rparr>,
       (new_unit empty_header)\<lparr>ui_nal_infos := [\<lparr>nal_location = 1, nal_size = 2, nal_buf = 0\<rparr>,
         \<lparr>nal_location = 3, nal_size = 2, nal_buf = 0\<rparr>]\<rparr>] = Inr (r, s)
    \<and> (\<forall>k < length (w_log (cs_world s)). k * unat (40 :: u64) \<le> fst (w_log (cs_world s) ! k))
    \<and> pushed (cs_world s) @ ys = map (nal_bytes [0, 0x3e, 1, 2, 3, 4]) (filter (is_acl [0, 0x3e, 1, 2, 3, 4])
        [\<lparr>nal_location = 0, nal_size = 1, nal_buf = 0\<rparr>, \<lparr>nal_location = 1, nal_size = 2, nal_buf = 0\<rparr>,
         \<lparr>nal_location = 3, nal_size = 2, nal_buf = 0\<rparr>])
    \<and> ((\<forall>k. e_push_ok demo_env k) \<longrightarrow> ys = [] \<and> r \<noteq> None)"
  by (rule sender_func_schedule) (simp_all add: new_unit_def nal_in_def)

text \<open>All NAL units are pushed, on schedule.\<close>

lemma vpcc_run:
  assumes "items = concat (map ui_nal_infos units)" and "\<forall>i \<in> set items. nal_in cbuf i"
    and "length items * unat period < 2 ^ 64" and "length items < 2 ^ 64"
  shows "\<exists>t s. vpcc_sender_func env cbuf fmt period units
      = Inr ((length (concat (map (nal_bytes cbuf) items)), t), s)
    \<and> pushed (vs_world s) = map (nal_bytes cbuf) items
    \<and> (\<forall>k < length items. vpcc_frames fmt (take k (map (nal_bytes cbuf) items)) * unat period
         \<le> fst (w_log (vs_world s) ! k))"
proof -
  have inv: "vpcc_inv cbuf fmt period (length items) items vpcc_init"
    using assms
    by (simp add: vpcc_inv_def nals_inv_def tail_ok_def vpcc_init_def world_init_def pushed_def
        frame_nals_def vpcc_frames_def)
  have start: "on_time (vpcc_frames fmt) (unat period) (vs_world vpcc_init)"
    by (simp add: vpcc_init_def on_time_init vpcc_frames_def frame_nals_def)
  obtain s where run: "for_each (vpcc_body env cbuf fmt period) items vpcc_init = Inr (True, s)"
    and i: "vpcc_inv cbuf fmt period (length items) [] s"
    and p: "pushed (vs_world s) = map (nal_bytes cbuf) items" and on: "on_time (vpcc_frames fmt) (unat period) (vs_world s)"
    using vpcc.run_steady [OF inv start, of env] by (auto simp: vpcc_init_def world_init_def pushed_def)
  have "length (w_log (vs_world s)) = length items"
    using arg_cong [OF p, of length] by (simp add: pushed_def)
  then have "\<forall>k < length items. vpcc_frames fmt (take k (map (nal_bytes cbuf) items)) * unat period
         \<le> fst (w_log (vs_world s) ! k)"
    using on p by (simp add: on_time_def log_on_time_def)
  moreover have "vs_bytes_sent s = length (concat (map (nal_bytes cbuf) items))"
    using i p by (simp only: vpcc_inv_def)
  ultimately show ?thesis
    using run p unfolding vpcc_sender_func_def for_each_nested assms(1) [symmetric] by simp
qed


definition demo_units :: "v3c_unit_info list" where
  "demo_units = [(new_unit empty_header)\<lparr>ui_nal_infos := [\<lparr>nal_location = 0, nal_size = 1, nal_buf = 0\<rparr>,
     \<lparr>nal_location = 1, nal_size = 2, nal_buf = 0\<rparr>, \<lparr>nal_location = 3, nal_size = 2, nal_buf = 0\<rparr>]\<rparr>]"


lemma vpcc_latency_run:
  assumes "items = concat (map ui_nal_infos units)" and "\<forall>i \<in> set items. nal_in cbuf i"
    and "length items * unat period < 2 ^ 64" and "length items < 2 ^ 64"
  shows "\<exists>s. vpcc_latency_sender_func env cbuf fmt period units = Inr (True, s)
    \<and> pushed (vl_world s) = map (nal_bytes cbuf) items
    \<and> vl_send_times s = map fst (filter (\<lambda>(t, x). frame_nal fmt x) (w_log (vl_world s)))
    \<and> (\<forall>k < length items. vpcc_frames fmt (take k (map (nal_bytes cbuf) items)) * unat period
         \<le> fst (w_log (vl_world s) ! k))"
proof -
  have inv: "vpcc_latency_inv cbuf fmt period (length items) items vpcc_latency_init"
    using assms
    by (simp add: vpcc_latency_inv_def nals_inv_def tail_ok_def vpcc_latency_init_def world_init_def pushed_def
        frame_nals_def vpcc_frames_def sends_logged_def)
  have start: "on_time (vpcc_frames fmt) (unat period) (vl_world vpcc_latency_init)"
    by (simp add: vpcc_latency_init_def on_time_init vpcc_frames_def frame_nals_def)
  obtain s where run: "for_each (vpcc_latency_body env cbuf fmt period) items vpcc_latency_init = Inr (True, s)"
    and i: "vpcc_latency_inv cbuf fmt period (length items) [] s"
    and p: "pushed (vl_world s) = map (nal_bytes cbuf) items"
    and on: "on_time (vpcc_frames fmt) (unat period) (vl_world s)"
    using vpcc_latency.run_steady [OF inv start, of env]
    by (auto simp: vpcc_latency_init_def world_init_def pushed_def)
  have "length (w_log (vl_world s)) = length items"
    using arg_cong [OF p, of length] by (simp add: pushed_def)
  then have "\<forall>k < length items. vpcc_frames fmt (take k (map (nal_bytes cbuf) items)) * unat period
         \<le> fst (w_log (vl_world s) ! k)"
    using on p by (simp add: on_time_def log_on_time_def)
  moreover have "sends_logged fmt s" using i by (simp only: vpcc_latency_inv_def)
  ultimately show ?thesis
    using run p unfolding vpcc_latency_sender_func_def for_each_nested assms(1) [symmetric] sends_logged_def by blast
qed

text \<open>
  The V-PCC latency sender. It pushes every NAL unit on the schedule of the throughput
  sender, and \<open>send_times\<close> holds, in order, exactly the moments at which the NAL units that are not
  parameter sets were pushed, whether or not the pushes succeeded.
\<close>

theorem vpcc_latency_sender_func_times:
  assumes "items = concat (map ui_nal_infos units)" and "\<forall>i \<in> set items. nal_in cbuf i"
    and "length items * unat period < 2 ^ 64" and "length items < 2 ^ 64"
  shows "\<exists>s. vpcc_latency_sender_func env cbuf fmt period units = Inr (True, s)
    \<and> pushed (vl_world s) = map (nal_bytes cbuf) items
    \<and> vl_send_times s = map fst (filter (\<lambda>(t, x). frame_nal fmt x) (w_log (vl_world s)))
    \<and> (\<forall>k < length items. vpcc_frames fmt (take k (map (nal_bytes cbuf) items)) * unat period
         \<le> fst (w_log (vl_world s) ! k))"
  by (rule vpcc_latency_run [OF assms])

theorem vpcc_latency_sender_func_times_witness:
  "\<exists>s. vpcc_latency_sender_func demo_env [2, 0x40, 1, 2, 3] V3C_OVD 40 demo_units = Inr (True, s)
    \<and> pushed (vl_world s) = map (nal_bytes [2, 0x40, 1, 2, 3]) (concat (map ui_nal_infos demo_units))
    \<and> vl_send_times s = map fst (filter (\<lambda>(t, x). frame_nal V3C_OVD x) (w_log (vl_world s)))
    \<and> (\<forall>k < length (concat (map ui_nal_infos demo_units)).
         vpcc_frames V3C_OVD (take k (map (nal_bytes [2, 0x40, 1, 2, 3]) (concat (map ui_nal_infos demo_units)))) * unat (40 :: u64)
         \<le> fst (w_log (vl_world s) ! k))"
  by (rule vpcc_latency_sender_func_times) (simp_all add: demo_units_def new_unit_def nal_in_def)

text \<open>
  The latency sender. For atlas data it pushes the atlas coding layer units on the schedule,
  stops at the first push that fails, and when none fails the recorded send times are
  the moments of the pushes, split into inter frames (types up to 15) and intra frames
  (16 to 29) without remainder.
\<close>

theorem latency_sender_atlas_times:
  assumes "items = concat (map ui_nal_infos units)" and "\<forall>i \<in> set items. nal_in mem i"
    and "length items * unat period < 2 ^ 64" and "length items < 2 ^ 64"
  shows "\<exists>go s ys. latency_sender env mem period True units chunk_sizes = Inr (go, s)
    \<and> (\<forall>k < length (w_log (lt_world s)). k * unat period \<le> fst (w_log (lt_world s) ! k))
    \<and> pushed (lt_world s) @ ys = map (nal_bytes mem) (filter (is_acl mem) items)
    \<and> ((\<forall>k. e_push_ok env k) \<longrightarrow> go) \<and> (go \<longrightarrow> ys = []
         \<and> lt_send_times s = map fst (w_log (lt_world s))
         \<and> lt_inter_send s = map fst (filter (\<lambda>(t, x). inter_nal x) (w_log (lt_world s)))
         \<and> lt_intra_send s = map fst (filter (\<lambda>(t, x). intra_nal x) (w_log (lt_world s))))"
proof -
  have inv: "latency_atlas_inv mem period (length items) items latency_init"
    using assms by (simp add: latency_atlas_inv_def atlas_inv_def latency_init_def world_init_def pushed_def)
  have start: "on_time length (unat period) (lt_world latency_init)"
    by (simp add: latency_init_def on_time_init)
  obtain go s ys where "for_each (latency_atlas_body env mem period) items latency_init = Inr (go, s)"
    "log_on_time length (unat period) (lt_world s)" "(\<forall>k. e_push_ok env k) \<longrightarrow> go"
    "go \<longrightarrow> ys = [] \<and> latency_atlas_inv mem period (length items) [] s"
    "pushed (lt_world s) @ ys = map (nal_bytes mem) (filter (is_acl mem) items)"
    using latency_atlas.run [OF inv start, of env]
    by (auto simp: latency_init_def world_init_def pushed_def)
  then show ?thesis
    unfolding latency_sender_def for_each_nested assms(1) [symmetric]
    by (intro exI [of _ go] exI [of _ s] exI [of _ ys]) (simp add: latency_atlas_inv_def log_on_time_length)
qed

theorem latency_sender_atlas_times_witness:
  "\<exists>go s ys. latency_sender demo_env [2, 0x20, 1, 2, 3] 40 True demo_units [] = Inr (go, s)
    \<and> (\<forall>k < length (w_log (lt_world s)). k * unat (40 :: u64) \<le> fst (w_log (lt_world s) ! k))
    \<and> pushed (lt_world s) @ ys = map (nal_bytes [2, 0x20, 1, 2, 3])
        (filter (is_acl [2, 0x20, 1, 2, 3]) (concat (map ui_nal_infos demo_units)))
    \<and> ((\<forall>k. e_push_ok demo_env k) \<longrightarrow> go) \<and> (go \<longrightarrow> ys = []
         \<and> lt_send_times s = map fst (w_log (lt_world s))
         \<and> lt_inter_send s = map fst (filter (\<lambda>(t, x). inter_nal x) (w_log (lt_world s)))
         \<and> lt_intra_send s = map fst (filter (\<lambda>(t, x). intra_nal x) (w_log (lt_world s))))"
  by (rule latency_sender_atlas_times) (simp_all add: demo_units_def new_unit_def nal_in_def)

text \<open>
  The FFmpeg sender. When the chunks lie in the file and each is below 2 GiB (the packet
  size is an \<open>int\<close>), it pushes the file cut at the chunk sizes on the schedule, and reports their
  sum as sent even when writes fail.
\<close>

theorem ffmpeg_thread_schedule:
  assumes "sum_list chunk_sizes \<le> length mem" and "length chunk_sizes * unat period < 2 ^ 64"
    and "length chunk_sizes < 2 ^ 64" and "\<forall>n \<in> set chunk_sizes. n < 2 ^ 31"
  shows "\<exists>ms s. ffmpeg_thread env mem period chunk_sizes = Inr ((sum_list chunk_sizes, ms), s)
    \<and> (\<forall>k < length chunk_sizes. k * unat period \<le> fst (w_log (cs_world s) ! k))
    \<and> pushed (cs_world s) = slices mem 0 chunk_sizes"
proof -
  have inv: "ffmpeg_inv mem period (length chunk_sizes) chunk_sizes chunk_init"
    using assms by (simp add: ffmpeg_inv_def chunk_inv_def chunk_init_def world_init_def pushed_def)
  have start: "on_time length (unat period) (cs_world chunk_init)"
    by (simp add: chunk_init_def on_time_init)
  obtain s where run: "for_each (ffmpeg_body env mem period) chunk_sizes chunk_init = Inr (True, s)"
    and p: "pushed (cs_world s) = slices mem 0 chunk_sizes" and on: "on_time length (unat period) (cs_world s)"
    using ffmpeg.run_steady [OF inv start, of env]
    by (auto simp: chunk_rest_def chunk_init_def world_init_def pushed_def)
  have "length (w_log (cs_world s)) = length chunk_sizes"
    using arg_cong [OF p, of length] by (simp add: pushed_def)
  then have "\<forall>k < length chunk_sizes. k * unat period \<le> fst (w_log (cs_world s) ! k)"
    using log_on_time_length [OF on_time_log [OF on]] by simp
  moreover have "cs_bytes_sent s = sum_list chunk_sizes"
    using ffmpeg_bytes [OF run] by (simp add: chunk_init_def)
  ultimately show ?thesis using run p by (simp add: ffmpeg_thread_def)
qed

theorem ffmpeg_thread_schedule_witness:
  "\<exists>ms s. ffmpeg_thread demo_env [1, 2, 3, 4, 5] 40 [2, 0, 3] = Inr ((sum_list [2, 0, 3], ms), s)
    \<and> (\<forall>k < length [2, 0, 3 :: nat]. k * unat (40 :: u64) \<le> fst (w_log (cs_world s) ! k))
    \<and> pushed (cs_world s) = slices [1, 2, 3, 4, 5] 0 [2, 0, 3]"
  by (rule ffmpeg_thread_schedule) simp_all

end
