(* ===== verification/Latency.thy ===== *)
theory Latency
  imports Senders Hooks "HOL-Library.Multiset"
begin

section \<open>The measuring end of the uvgRTP latency tests\<close>

text \<open>
  The receive hooks of \<open>uvgrtp/latency_sender.cc\<close> and \<open>uvgrtp/vpcc_latency_sender.cc\<close>, which log
  what the other end sends back, and the evaluation of the V-PCC test. The hooks keep the
  contract \<open>frame_hook\<close>. A call is given the time, and the frame or \<open>None\<close> for a null pointer.
\<close>

subsection \<open>uvgrtp/latency_sender.cc\<close>

text \<open>The globals the hook writes.\<close>

record hook_state =
  hk_frames :: nat
  hk_ninters :: nat
  hk_nintras :: nat
  hk_n_non_vcl :: nat
  hk_intra_recv :: "nat list"
  hk_inter_recv :: "nat list"
  hk_recv_times :: "nat list"
  hk_diff_times :: "nat list"
  hk_total :: nat
  hk_total_intra :: nat
  hk_total_inter :: nat
  hk_total_frames_received :: nat

definition hook_init :: hook_state where
  "hook_init = \<lparr>hk_frames = 0, hk_ninters = 0, hk_nintras = 0, hk_n_non_vcl = 0, hk_intra_recv = [],
     hk_inter_recv = [], hk_recv_times = [], hk_diff_times = [], hk_total = 0, hk_total_intra = 0,
     hk_total_inter = 0, hk_total_frames_received = 0\<rparr>"

text \<open>A call of the hook: the time, the value of \<open>frame_send_time\<close> then, and the frame.\<close>

type_synonym echo = "nat \<times> nat \<times> u8 list option"

definition get_diff :: "echo \<Rightarrow> nat" where
  "get_diff = (\<lambda>(now, frame_send_time, _). now - frame_send_time)"

text \<open>The five statements for an intra and an inter frame.\<close>

definition count_intra :: "nat \<Rightarrow> hook_state \<Rightarrow> hook_state" where
  "count_intra diff s = s\<lparr>hk_total := hk_total s + diff div 1000, hk_total_intra := hk_total_intra s + diff div 1000,
     hk_nintras := hk_nintras s + 1, hk_frames := hk_frames s + 1\<rparr>"

definition count_inter :: "nat \<Rightarrow> hook_state \<Rightarrow> hook_state" where
  "count_inter diff s = s\<lparr>hk_total := hk_total s + diff div 1000, hk_total_inter := hk_total_inter s + diff div 1000,
     hk_ninters := hk_ninters s + 1, hk_frames := hk_frames s + 1\<rparr>"

definition hook_sender :: "bool \<Rightarrow> bool \<Rightarrow> echo \<Rightarrow> hook_state \<Rightarrow> hook_state res" where
  "hook_sender vvc_headers atlas_enabled e s =
     (let (now, frame_send_time, frame) = e in
      case frame of
        None \<Rightarrow> Inr s
      | Some payload \<Rightarrow>
        rbind (if vvc_headers then
                 rbind (rd8 payload 2) (\<lambda>b.
                 if b AND 0x3f = 19 then Inr (count_intra (get_diff e) s)
                 else if b AND 0x3f = 1 then Inr (count_inter (get_diff e) s)
                 else Inr s)
               else if atlas_enabled then
                 rbind (rd8 payload 0) (\<lambda>b. let nalu_t = nalu_type b;
                 (diff, s) =
                   (if nalu_t \<le> 15 then
                      (get_diff e, (count_inter (get_diff e) s)\<lparr>hk_inter_recv := hk_inter_recv s @ [now]\<rparr>)
                    else if 16 \<le> nalu_t \<and> nalu_t \<le> 29 then
                      (get_diff e, (count_intra (get_diff e) s)\<lparr>hk_intra_recv := hk_intra_recv s @ [now]\<rparr>)
                    else (0, s)) in
                 Inr (s\<lparr>hk_diff_times := hk_diff_times s @ [diff], hk_recv_times := hk_recv_times s @ [now]\<rparr>))
               else
                 rbind (rd8 payload 4) (\<lambda>b. let nalu_t = nalu_type b in
                 if nalu_t \<le> 15 then Inr (count_inter (get_diff e) s)
                 else if 16 \<le> nalu_t \<and> nalu_t \<le> 23 then Inr (count_intra (get_diff e) s)
                 else Inr (s\<lparr>hk_n_non_vcl := hk_n_non_vcl s + 1\<rparr>)))
          (\<lambda>s. Inr (s\<lparr>hk_total_frames_received := hk_total_frames_received s + 1\<rparr>)))"

subsection \<open>What the hook computes\<close>

text \<open>The kind of a frame, as the three formats encode it.\<close>

datatype kind = Intra | Inter | Neither

definition frame_kind :: "bool \<Rightarrow> bool \<Rightarrow> u8 list \<Rightarrow> kind" where
  "frame_kind vvc atlas x =
     (if vvc then if x ! 2 AND 0x3f = 19 then Intra else if x ! 2 AND 0x3f = 1 then Inter else Neither
      else let t = nalu_type (x ! (if atlas then 0 else 4)) in
        if t \<le> 15 then Inter else if 16 \<le> t \<and> t \<le> (if atlas then 29 else 23) then Intra else Neither)"

definition type_offset :: "bool \<Rightarrow> bool \<Rightarrow> nat" where
  "type_offset vvc atlas = (if vvc then 2 else if atlas then 0 else 4)"

definition of_kind :: "bool \<Rightarrow> bool \<Rightarrow> kind \<Rightarrow> echo list \<Rightarrow> echo list" where
  "of_kind vvc atlas k fs =
     filter (\<lambda>(_, _, f). case f of None \<Rightarrow> False | Some x \<Rightarrow> frame_kind vvc atlas x = k) fs"

definition ms_sum :: "echo list \<Rightarrow> nat" where
  "ms_sum fs = sum_list (map (\<lambda>e. get_diff e div 1000) fs)"

text \<open>What the state says, as a function of the frames so far.\<close>

definition hook_view :: "hook_state \<Rightarrow> (nat \<times> nat) \<times> (nat \<times> nat) \<times> nat" where
  "hook_view s = ((hk_nintras s, hk_total_intra s), (hk_ninters s, hk_total_inter s), hk_total_frames_received s)"

definition hook_upd :: "bool \<Rightarrow> bool \<Rightarrow> echo \<Rightarrow> (nat \<times> nat) \<times> (nat \<times> nat) \<times> nat \<Rightarrow> (nat \<times> nat) \<times> (nat \<times> nat) \<times> nat" where
  "hook_upd vvc atlas e = (\<lambda>((ni, ti), (np, tp), n).
     case snd (snd e) of None \<Rightarrow> ((ni, ti), (np, tp), n)
     | Some x \<Rightarrow> (case frame_kind vvc atlas x of
         Intra \<Rightarrow> ((ni + 1, ti + get_diff e div 1000), (np, tp), n + 1)
       | Inter \<Rightarrow> ((ni, ti), (np + 1, tp + get_diff e div 1000), n + 1)
       | Neither \<Rightarrow> ((ni, ti), (np, tp), n + 1)))"

definition hook_inv :: "bool \<Rightarrow> bool \<Rightarrow> hook_state \<Rightarrow> bool" where
  "hook_inv vvc atlas s \<longleftrightarrow> hk_total s = hk_total_intra s + hk_total_inter s
     \<and> hk_frames s = hk_nintras s + hk_ninters s
     \<and> (\<not> vvc \<and> atlas \<longrightarrow> length (hk_recv_times s) = hk_total_frames_received s
          \<and> length (hk_diff_times s) = hk_total_frames_received s
          \<and> length (hk_intra_recv s) = hk_nintras s \<and> length (hk_inter_recv s) = hk_ninters s)
     \<and> (\<not> vvc \<and> \<not> atlas \<longrightarrow> hk_n_non_vcl s + hk_frames s = hk_total_frames_received s)"

definition echo_ok :: "bool \<Rightarrow> bool \<Rightarrow> echo \<Rightarrow> bool" where
  "echo_ok vvc atlas = (\<lambda>(_, _, f). case f of None \<Rightarrow> True | Some x \<Rightarrow> type_offset vvc atlas < length x)"

lemma hook_sender_step:
  assumes "hook_inv vvc atlas s" and "echo_ok vvc atlas e"
  shows "\<exists>s'. hook_sender vvc atlas e s = Inr s' \<and> hook_inv vvc atlas s'
    \<and> hook_view s' = hook_upd vvc atlas e (hook_view s)"
proof -
  obtain now sent f where e: "e = (now, sent, f)" by (cases e) auto
  show ?thesis
  proof (cases f)
    case None
    then show ?thesis using assms(1) by (simp add: e hook_sender_def hook_upd_def hook_view_def)
  next
    case (Some x)
    then have len: "type_offset vvc atlas < length x" using assms(2) by (simp add: e echo_ok_def)
    note defs = hook_sender_def hook_upd_def hook_view_def hook_inv_def frame_kind_def count_intra_def count_inter_def
      type_offset_def Let_def
    show ?thesis
    proof (cases vvc)
      case True
      then show ?thesis using assms(1) len by (simp add: e Some defs)
    next
      case False
      then show ?thesis using assms(1) len by (cases atlas) (simp_all add: e Some defs)
    qed
  qed
qed

interpretation latency_hook: frame_hook "hook_sender vvc atlas" "hook_inv vvc atlas" "echo_ok vvc atlas"
    hook_view "hook_upd vvc atlas"
  for vvc atlas
  by unfold_locales (rule hook_sender_step)

lemma fold_hook_upd:
  "fold (hook_upd vvc atlas) fs ((ni, ti), (np, tp), n)
    = ((ni + length (of_kind vvc atlas Intra fs), ti + ms_sum (of_kind vvc atlas Intra fs)),
       (np + length (of_kind vvc atlas Inter fs), tp + ms_sum (of_kind vvc atlas Inter fs)),
       n + length (filter (\<lambda>(_, _, f). f \<noteq> None) fs))"
proof (induction fs arbitrary: ni ti np tp n)
  case Nil
  then show ?case by (simp add: of_kind_def ms_sum_def)
next
  case (Cons e fs)
  obtain now sent f where e: "e = (now, sent, f)" by (cases e) auto
  show ?case
  proof (cases f)
    case None
    then show ?thesis using Cons.IH by (simp add: e hook_upd_def of_kind_def)
  next
    case (Some x)
    then show ?thesis
      using Cons.IH by (cases "frame_kind vvc atlas x") (simp_all add: e hook_upd_def of_kind_def ms_sum_def)
  qed
qed

subsection \<open>uvgrtp/vpcc_latency_sender.cc\<close>

record recv_log =
  ad_recv :: "nat list"
  ovd_recv :: "nat list"
  gvd_recv :: "nat list"
  avd_recv :: "nat list"

definition recv_init :: recv_log where
  "recv_init = \<lparr>ad_recv = [], ovd_recv = [], gvd_recv = [], avd_recv = []\<rparr>"

text \<open>\<open>frame->payload[0]\<close>; the hooks do not check the pointer.\<close>

definition payload_0 :: "u8 list option \<Rightarrow> u8 res" where
  "payload_0 frame = rbind (of_option Bad_Pointer frame) (\<lambda>payload. rd8 payload 0)"

definition ad_hook :: "nat \<Rightarrow> u8 list option \<Rightarrow> recv_log \<Rightarrow> recv_log res" where
  "ad_hook now frame r = rbind (payload_0 frame) (\<lambda>b. let nalu_t = nalu_type b in
     Inr (if nalu_t < 36 then r\<lparr>ad_recv := ad_recv r @ [now]\<rparr> else r))"

definition ovd_hook :: "nat \<Rightarrow> u8 list option \<Rightarrow> recv_log \<Rightarrow> recv_log res" where
  "ovd_hook now frame r = rbind (payload_0 frame) (\<lambda>b. let nalu_t = nalu_type b in
     Inr (if nalu_t < 32 \<or> 34 < nalu_t then r\<lparr>ovd_recv := ovd_recv r @ [now]\<rparr> else r))"

definition gvd_hook :: "nat \<Rightarrow> u8 list option \<Rightarrow> recv_log \<Rightarrow> recv_log res" where
  "gvd_hook now frame r = rbind (payload_0 frame) (\<lambda>b. let nalu_t = nalu_type b in
     Inr (if nalu_t < 32 \<or> 34 < nalu_t then r\<lparr>gvd_recv := gvd_recv r @ [now]\<rparr> else r))"

definition avd_hook :: "nat \<Rightarrow> u8 list option \<Rightarrow> recv_log \<Rightarrow> recv_log res" where
  "avd_hook now frame r = rbind (payload_0 frame) (\<lambda>b. let nalu_t = nalu_type b in
     Inr (if nalu_t < 32 \<or> 34 < nalu_t then r\<lparr>avd_recv := avd_recv r @ [now]\<rparr> else r))"

text \<open>The hook that \<open>sender\<close> installs on each stream, and the list it fills.\<close>

definition stream_hook :: "V3C_UNIT_TYPE \<Rightarrow> nat \<times> u8 list option \<Rightarrow> recv_log \<Rightarrow> recv_log res" where
  "stream_hook fmt = (\<lambda>(now, frame).
     if fmt = V3C_AD then ad_hook now frame else if fmt = V3C_OVD then ovd_hook now frame
     else if fmt = V3C_GVD then gvd_hook now frame else avd_hook now frame)"

definition stream_recv :: "V3C_UNIT_TYPE \<Rightarrow> recv_log \<Rightarrow> nat list" where
  "stream_recv fmt r = (if fmt = V3C_AD then ad_recv r else if fmt = V3C_OVD then ovd_recv r
     else if fmt = V3C_GVD then gvd_recv r else avd_recv r)"

text \<open>The four unit types that have a stream.\<close>

definition streamed :: "V3C_UNIT_TYPE \<Rightarrow> bool" where
  "streamed fmt \<longleftrightarrow> fmt = V3C_AD \<or> fmt = V3C_OVD \<or> fmt = V3C_GVD \<or> fmt = V3C_AVD"

text \<open>A NAL unit the hook of the stream logs.\<close>

definition logged :: "V3C_UNIT_TYPE \<Rightarrow> u8 list \<Rightarrow> bool" where
  "logged fmt x \<longleftrightarrow> (let t = nalu_type (hd x) in if fmt = V3C_AD then t < 36 else t < 32 \<or> 34 < t)"

definition stream_upd :: "V3C_UNIT_TYPE \<Rightarrow> nat \<times> u8 list option \<Rightarrow> nat list \<Rightarrow> nat list" where
  "stream_upd fmt = (\<lambda>(now, f) ts. case f of None \<Rightarrow> ts | Some x \<Rightarrow> if logged fmt x then ts @ [now] else ts)"

definition full_frame :: "nat \<times> u8 list option \<Rightarrow> bool" where
  "full_frame = (\<lambda>(now, f). case f of None \<Rightarrow> False | Some x \<Rightarrow> x \<noteq> [])"

lemma stream_hook_step:
  assumes "full_frame e"
  shows "\<exists>r'. stream_hook fmt e r = Inr r' \<and> stream_recv fmt r' = stream_upd fmt e (stream_recv fmt r)"
proof -
  obtain now x where e: "e = (now, Some x)" "x \<noteq> []"
    using assms by (auto simp: full_frame_def split: option.splits)
  have b: "payload_0 (Some x) = Inr (hd x)" using e(2) by (simp add: payload_0_def rd8_def hd_conv_nth)
  show ?thesis
    by (cases fmt) (simp_all add: e stream_hook_def stream_recv_def stream_upd_def logged_def b Let_def
        ad_hook_def ovd_hook_def gvd_hook_def avd_hook_def)
qed

interpretation stream_hook: frame_hook "stream_hook fmt" "\<lambda>_. True" full_frame "stream_recv fmt" "stream_upd fmt"
  for fmt
  by unfold_locales (simp add: stream_hook_step)

lemma fold_stream_upd:
  "length (fold (stream_upd fmt) fs ts)
    = length ts + length (filter (\<lambda>(now, f). case f of None \<Rightarrow> False | Some x \<Rightarrow> logged fmt x) fs)"
  by (induction fs arbitrary: ts) (auto simp: stream_upd_def split: option.splits)

text \<open>The sender and the hook of a stream disagree on the atlas NAL unit types 32 to 34 only.\<close>

definition misclassified :: "V3C_UNIT_TYPE \<Rightarrow> u8 list \<Rightarrow> bool" where
  "misclassified fmt x \<longleftrightarrow> fmt = V3C_AD \<and> 32 \<le> nalu_type (hd x) \<and> nalu_type (hd x) \<le> 34"

lemma logged_iff: "logged fmt x \<longleftrightarrow> frame_nal fmt x \<or> misclassified fmt x"
proof -
  have "t < 36 \<longleftrightarrow> \<not> 35 < t" "\<not> (32 \<le> t \<and> t \<le> 34) \<longleftrightarrow> t < 32 \<or> 34 < t" for t :: u8
    by (auto simp: word_less_nat_alt word_le_nat_alt)
  moreover have "t \<le> 34 \<Longrightarrow> t < 36" for t :: u8
    by (simp add: word_less_nat_alt word_le_nat_alt)
  ultimately show ?thesis
    by (auto simp: logged_def frame_nal_def misclassified_def param_set_def Let_def)
qed

lemma not_both: "\<not> (frame_nal fmt x \<and> misclassified fmt x)"
  by (auto simp: frame_nal_def misclassified_def param_set_def)

lemma count_logged:
  "length (filter (logged fmt) xs) = length (filter (frame_nal fmt) xs) + length (filter (misclassified fmt) xs)"
  by (induction xs) (use not_both in \<open>auto simp: logged_iff\<close>)

subsection \<open>The evaluation of the V-PCC test\<close>

record send_log =
  ad_send :: "nat list"
  ovd_send :: "nat list"
  gvd_send :: "nat list"
  avd_send :: "nat list"

text \<open>One round of the loop; \<open>total_time\<close>, a \<open>float\<close> in the code, is exact here.\<close>

definition full_frame_diff :: "send_log \<Rightarrow> recv_log \<Rightarrow> nat \<Rightarrow> int res" where
  "full_frame_diff s r i =
     rbind (vec_at (ad_send s) i) (\<lambda>s1. rbind (vec_at (ovd_send s) i) (\<lambda>s2.
     rbind (vec_at (gvd_send s) (i * 4)) (\<lambda>s3. rbind (vec_at (avd_send s) (i * 4)) (\<lambda>s4.
     rbind (vec_at (ad_recv r) i) (\<lambda>r1. rbind (vec_at (ovd_recv r) i) (\<lambda>r2.
     rbind (vec_at (gvd_recv r) (i * 4)) (\<lambda>r3. rbind (vec_at (avd_recv r) (i * 4)) (\<lambda>r4.
     Inr (int (find_latest_time_point r1 r2 r3 r4) - int (find_earliest_time_point s1 s2 s3 s4))))))))))"

fun sum_diffs :: "send_log \<Rightarrow> recv_log \<Rightarrow> nat list \<Rightarrow> int \<Rightarrow> int res" where
  "sum_diffs s r [] total_time = Inr total_time"
| "sum_diffs s r (i # is) total_time = rbind (full_frame_diff s r i) (\<lambda>d. sum_diffs s r is (total_time + d))"

text \<open>The frame count and the total time that are written, zeros for frame loss.\<close>

definition vpcc_latency_result :: "send_log \<Rightarrow> recv_log \<Rightarrow> (nat \<times> int) res" where
  "vpcc_latency_result s r =
     (if length (ad_send s) \<noteq> length (ad_recv r) \<or> length (ovd_send s) \<noteq> length (ovd_recv r)
         \<or> length (gvd_send s) \<noteq> length (gvd_recv r) \<or> length (avd_send s) \<noteq> length (avd_recv r)
      then Inr (0, 0)
      else let full_frames = length (ad_send s) in
        rbind (sum_diffs s r [0..<full_frames] 0) (\<lambda>total_time. Inr (full_frames, total_time)))"

text \<open>The specification of a full frame: from the first of its parts sent to the last received.\<close>

definition frame_latency :: "send_log \<Rightarrow> recv_log \<Rightarrow> nat \<Rightarrow> int" where
  "frame_latency s r i =
     int (Max {ad_recv r ! i, ovd_recv r ! i, gvd_recv r ! (i * 4), avd_recv r ! (i * 4)})
     - int (Min {ad_send s ! i, ovd_send s ! i, gvd_send s ! (i * 4), avd_send s ! (i * 4)})"

lemma full_frame_diff_eq:
  assumes "i < length (ad_send s)" "i < length (ovd_send s)" "i * 4 < length (gvd_send s)" "i * 4 < length (avd_send s)"
    and "i < length (ad_recv r)" "i < length (ovd_recv r)" "i * 4 < length (gvd_recv r)" "i * 4 < length (avd_recv r)"
  shows "full_frame_diff s r i = Inr (frame_latency s r i)"
  using assms by (simp add: full_frame_diff_def frame_latency_def find_time_points)

lemma sum_diffs_eq:
  assumes "\<forall>i \<in> set is. full_frame_diff s r i = Inr (frame_latency s r i)"
  shows "sum_diffs s r is t = Inr (t + sum_list (map (frame_latency s r) is))"
  using assms by (induction "is" arbitrary: t) auto

subsection \<open>Properties\<close>

text \<open>
  C30: the statistics of the latency test. After any frames, long enough for their type byte to
  be read and with null pointers in between, the counters and totals are those of the
  frames received: per kind the number of frames and the sum of their latencies in
  milliseconds, each measured against the send time known when the frame came.
\<close>

theorem hook_sender_statistics:
  assumes "\<forall>e \<in> set fs. echo_ok vvc atlas e"
  shows "\<exists>s. run_hook (hook_sender vvc atlas) fs hook_init = Inr s
    \<and> hk_nintras s = length (of_kind vvc atlas Intra fs) \<and> hk_total_intra s = ms_sum (of_kind vvc atlas Intra fs)
    \<and> hk_ninters s = length (of_kind vvc atlas Inter fs) \<and> hk_total_inter s = ms_sum (of_kind vvc atlas Inter fs)
    \<and> hk_frames s = hk_nintras s + hk_ninters s \<and> hk_total s = hk_total_intra s + hk_total_inter s
    \<and> hk_total_frames_received s = length (filter (\<lambda>(_, _, f). f \<noteq> None) fs)"
proof -
  have "hook_inv vvc atlas hook_init" by (simp add: hook_inv_def hook_init_def)
  then obtain s where s: "run_hook (hook_sender vvc atlas) fs hook_init = Inr s" "hook_inv vvc atlas s"
    "hook_view s = fold (hook_upd vvc atlas) fs (hook_view hook_init)"
    using latency_hook.run_ok assms by blast
  have "hook_view s = fold (hook_upd vvc atlas) fs ((0, 0), (0, 0), 0)"
    using s(3) by (simp add: hook_view_def hook_init_def)
  then show ?thesis
    using s(1,2) unfolding fold_hook_upd by (intro exI [of _ s]) (simp add: hook_view_def hook_inv_def)
qed

theorem hook_sender_statistics_witness:
  "\<exists>s. run_hook (hook_sender False True) [(5000, 100, Some [0x02]), (6000, 100, None), (9000, 7000, Some [0x26, 1])] hook_init = Inr s
    \<and> hk_nintras s = length (of_kind False True Intra [(5000, 100, Some [0x02]), (6000, 100, None), (9000, 7000, Some [0x26, 1])])
    \<and> hk_total_intra s = ms_sum (of_kind False True Intra [(5000, 100, Some [0x02]), (6000, 100, None), (9000, 7000, Some [0x26, 1])])
    \<and> hk_ninters s = length (of_kind False True Inter [(5000, 100, Some [0x02]), (6000, 100, None), (9000, 7000, Some [0x26, 1])])
    \<and> hk_total_inter s = ms_sum (of_kind False True Inter [(5000, 100, Some [0x02]), (6000, 100, None), (9000, 7000, Some [0x26, 1])])
    \<and> hk_frames s = hk_nintras s + hk_ninters s \<and> hk_total s = hk_total_intra s + hk_total_inter s
    \<and> hk_total_frames_received s = length (filter (\<lambda>(_, _, f). f \<noteq> None)
        [(5000 :: nat, 100 :: nat, Some [0x02 :: u8]), (6000, 100, None), (9000, 7000, Some [0x26, 1])])"
  by (rule hook_sender_statistics) (simp add: echo_ok_def type_offset_def)

text \<open>
  Frame loss in the V-PCC latency test. When the other end sends every NAL unit of a stream
  back once, in any order, the send and receive lists of the stream differ in length by exactly
  the atlas NAL units of types 32 to 34: the sender takes these for parameter sets of video and
  does not log them, the receive hook logs them, and the test reports a loss that did not
  happen. For the three video streams, and atlas data without these types, the lengths agree.
\<close>

theorem echoed_stream_counts:
  assumes "items = concat (map ui_nal_infos units)" and "\<forall>i \<in> set items. nal_in cbuf i"
    and "length items * unat period < 2 ^ 64" and "length items < 2 ^ 64"
    and "mset (map snd es) = mset (map (\<lambda>i. Some (nal_bytes cbuf i)) items)"
  shows "\<exists>s r. vpcc_latency_sender_func env cbuf fmt period units = Inr (True, s)
    \<and> run_hook (stream_hook fmt) es recv_init = Inr r
    \<and> length (stream_recv fmt r) = length (vl_send_times s)
        + length (filter (misclassified fmt) (map (nal_bytes cbuf) items))"
proof -
  let ?xs = "map (nal_bytes cbuf) items" and ?P = "\<lambda>f. case f of None \<Rightarrow> False | Some x \<Rightarrow> logged fmt x"
  obtain s where s: "vpcc_latency_sender_func env cbuf fmt period units = Inr (True, s)"
    "pushed (vl_world s) = ?xs" "vl_send_times s = map fst (filter (\<lambda>(t, x). frame_nal fmt x) (w_log (vl_world s)))"
    using vpcc_latency_run [OF assms(1-4), of env fmt] by blast
  have "length (filter (frame_nal fmt) (map snd w)) = length (filter (\<lambda>(t, x). frame_nal fmt x) w)"
    for w :: "(nat \<times> u8 list) list" by (induction w) auto
  then have sent: "length (vl_send_times s) = length (filter (frame_nal fmt) ?xs)"
    using s(2,3) by (metis length_map pushed_def)
  have "f \<in> Some ` nal_bytes cbuf ` set items" if "f \<in> set (map snd es)" for f
  proof -
    have "set (map snd es) = set (map (\<lambda>i. Some (nal_bytes cbuf i)) items)"
      using assms(5) by (rule mset_eq_setD)
    then show ?thesis using that by (simp add: image_image)
  qed
  then have "\<forall>e \<in> set es. full_frame e"
    using assms(2) by (fastforce simp: full_frame_def nal_bytes_def nal_in_def)
  then obtain r where r: "run_hook (stream_hook fmt) es recv_init = Inr r"
    "stream_recv fmt r = fold (stream_upd fmt) es (stream_recv fmt recv_init)"
    using stream_hook.run_ok [where s = recv_init and fs = es and fmt = fmt] by blast
  have "length (stream_recv fmt r) = length (filter (\<lambda>(now, f). ?P f) es)"
    unfolding r(2) fold_stream_upd by (simp add: stream_recv_def recv_init_def)
  also have "\<dots> = size (filter_mset ?P (mset (map snd es)))"
    by (induction es) auto
  also have "\<dots> = length (filter (logged fmt) ?xs)"
    unfolding assms(5) by (induction items) auto
  finally show ?thesis
    using s(1) r(1) sent count_logged [of fmt ?xs] by (intro exI [of _ s] exI [of _ r]) simp
qed

theorem echoed_stream_counts_witness:
  "\<exists>s r. vpcc_latency_sender_func demo_env [2, 0x40, 1, 2, 3] V3C_AD 40 demo_units = Inr (True, s)
    \<and> run_hook (stream_hook V3C_AD) [(700, Some [0x40, 1]), (800, Some [2]), (900, Some [2, 3])] recv_init = Inr r
    \<and> length (stream_recv V3C_AD r) = length (vl_send_times s)
        + length (filter (misclassified V3C_AD) (map (nal_bytes [2, 0x40, 1, 2, 3]) (concat (map ui_nal_infos demo_units))))"
  by (rule echoed_stream_counts) (simp_all add: demo_units_def new_unit_def nal_in_def nal_bytes_def)

text \<open>
  The result of the V-PCC latency test. If every stream received as many frames as it sent and
  the video streams carry at least as many frames as the atlas stream (one NAL unit for
  occupancy, four for geometry and attributes), every access is in range and the result is the number of
  full frames and the sum of their latencies, each from the first part sent to the last part
  received.
\<close>

theorem vpcc_latency_result_exact:
  assumes "length (ad_send s) = length (ad_recv r)" and "length (ovd_send s) = length (ovd_recv r)"
    and "length (gvd_send s) = length (gvd_recv r)" and "length (avd_send s) = length (avd_recv r)"
    and "length (ad_send s) \<le> length (ovd_send s)"
    and "length (ad_send s) * 4 \<le> length (gvd_send s) + 3" and "length (ad_send s) * 4 \<le> length (avd_send s) + 3"
  shows "vpcc_latency_result s r
    = Inr (length (ad_send s), \<Sum>i \<leftarrow> [0..<length (ad_send s)]. frame_latency s r i)"
proof -
  have "\<forall>i \<in> set [0..<length (ad_send s)]. full_frame_diff s r i = Inr (frame_latency s r i)"
    using assms by (auto intro!: full_frame_diff_eq)
  then show ?thesis
    using assms(1-4) sum_diffs_eq [of "[0..<length (ad_send s)]" s r 0]
    by (simp add: vpcc_latency_result_def Let_def)
qed

theorem vpcc_latency_result_exact_witness:
  "vpcc_latency_result \<lparr>ad_send = [10, 20], ovd_send = [9, 21], gvd_send = [11, 11, 11, 11, 22], avd_send = [12, 12, 12, 12, 23]\<rparr>
      \<lparr>ad_recv = [30, 40], ovd_recv = [31, 41], gvd_recv = [32, 32, 32, 33, 42], avd_recv = [29, 29, 29, 29, 39]\<rparr>
    = Inr (length [10, 20 :: nat], \<Sum>i \<leftarrow> [0..<length [10, 20 :: nat]]. frame_latency
        \<lparr>ad_send = [10, 20], ovd_send = [9, 21], gvd_send = [11, 11, 11, 11, 22], avd_send = [12, 12, 12, 12, 23]\<rparr>
        \<lparr>ad_recv = [30, 40], ovd_recv = [31, 41], gvd_recv = [32, 32, 32, 33, 42], avd_recv = [29, 29, 29, 29, 39]\<rparr> i)"
  using vpcc_latency_result_exact [of
      "\<lparr>ad_send = [10, 20], ovd_send = [9, 21], gvd_send = [11, 11, 11, 11, 22], avd_send = [12, 12, 12, 12, 23]\<rparr>"
      "\<lparr>ad_recv = [30, 40], ovd_recv = [31, 41], gvd_recv = [32, 32, 32, 33, 42], avd_recv = [29, 29, 29, 29, 39]\<rparr>"]
  by simp

end
