(* ===== verification/Receivers.thy ===== *)
theory Receivers
  imports Hooks Pacing
begin

section \<open>The receivers of the throughput tests\<close>

text \<open>
  \<open>uvgrtp/receiver.cc\<close> and \<open>uvgrtp/vpcc_receiver.cc\<close>: a receive hook counts frames and
  bytes, and the main thread waits until nothing comes any more. A frame is \<open>None\<close> for a null pointer.
\<close>

subsection \<open>uvgrtp/receiver.cc: the hook\<close>

definition EXPECTED_FRAMES :: nat where
  "EXPECTED_FRAMES = 604"

record thread_info =
  ti_pkts :: nat
  ti_bytes :: nat
  ti_start :: nat
  ti_last :: nat

text \<open>The array \<open>thread_info\<close>, the atomic counters, and the lines written to the result file (bytes, packets, milliseconds).\<close>

record receiver_state =
  rs_thread_info :: "thread_info list"
  rs_nready :: nat
  rs_frames_received :: nat
  rs_results :: "(nat \<times> nat \<times> nat) list"

definition receiver_init :: "nat \<Rightarrow> receiver_state" where
  "receiver_init nthreads = \<lparr>rs_thread_info = replicate nthreads \<lparr>ti_pkts = 0, ti_bytes = 0, ti_start = 0, ti_last = 0\<rparr>,
     rs_nready = 0, rs_frames_received = 0, rs_results = []\<rparr>"

text \<open>A thread hands the hook \<open>&tid\<close>, where \<open>tid\<close> is half its number.\<close>

definition tid_of :: "nat \<Rightarrow> nat" where
  "tid_of thread_num = thread_num div 2"

definition result_line :: "thread_info \<Rightarrow> nat \<times> nat \<times> nat" where
  "result_line t = (ti_bytes t, ti_pkts t, (ti_last t - ti_start t) div 1000)"

definition hook :: "nat \<times> nat \<times> u8 list option \<Rightarrow> receiver_state \<Rightarrow> receiver_state res" where
  "hook = (\<lambda>(tid, now, frame) s.
     rbind (of_option Out_Of_Bounds (if tid < length (rs_thread_info s) then Some (rs_thread_info s ! tid) else None)) (\<lambda>t.
     let t = (if ti_pkts t = 0 then t\<lparr>ti_start := now\<rparr> else t) in
     case frame of
       None \<Rightarrow> Inr (s\<lparr>rs_thread_info := (rs_thread_info s)[tid := t], rs_nready := rs_nready s + 1\<rparr>)
     | Some payload \<Rightarrow>
       let t = t\<lparr>ti_last := now, ti_bytes := ti_bytes t + length payload, ti_pkts := ti_pkts t + 1\<rparr>;
           s = s\<lparr>rs_thread_info := (rs_thread_info s)[tid := t], rs_frames_received := rs_frames_received s + 1\<rparr> in
       Inr (if ti_pkts t = EXPECTED_FRAMES
            then s\<lparr>rs_results := rs_results s @ [result_line t], rs_nready := rs_nready s + 1\<rparr> else s)))"

subsection \<open>What it counts\<close>

type_synonym arrival = "nat \<times> nat \<times> u8 list option"

text \<open>Per slot of \<open>thread_info\<close> the packets and bytes so far.\<close>

definition slot_view :: "receiver_state \<Rightarrow> nat \<Rightarrow> nat \<times> nat" where
  "slot_view s tid = (if tid < length (rs_thread_info s)
     then (ti_pkts (rs_thread_info s ! tid), ti_bytes (rs_thread_info s ! tid)) else (0, 0))"

definition slot_upd :: "arrival \<Rightarrow> (nat \<Rightarrow> nat \<times> nat) \<Rightarrow> nat \<Rightarrow> nat \<times> nat" where
  "slot_upd = (\<lambda>(tid, now, frame) v. case frame of None \<Rightarrow> v
     | Some x \<Rightarrow> v(tid := (fst (v tid) + 1, snd (v tid) + length x)))"

definition frames_of :: "nat \<Rightarrow> arrival list \<Rightarrow> u8 list list" where
  "frames_of tid es = map (\<lambda>(_, _, f). the f) (filter (\<lambda>(t, _, f). t = tid \<and> f \<noteq> None) es)"

text \<open>
  The invariant with \<open>n\<close> slots and \<open>nulls\<close> null frames so far: all frames are in some slot, a
  line has been written for exactly the slots that have passed the expected number, and each
  line reports that number.
\<close>

definition ready_slots :: "receiver_state \<Rightarrow> nat" where
  "ready_slots s = length (filter (\<lambda>t. EXPECTED_FRAMES \<le> ti_pkts t) (rs_thread_info s))"

definition receiver_inv :: "nat \<Rightarrow> receiver_state \<Rightarrow> bool" where
  "receiver_inv n s \<longleftrightarrow> length (rs_thread_info s) = n
     \<and> rs_frames_received s = sum_list (map ti_pkts (rs_thread_info s))
     \<and> length (rs_results s) = ready_slots s
     \<and> (\<forall>r \<in> set (rs_results s). fst (snd r) = EXPECTED_FRAMES)"

lemma sum_list_update_nat:
  "i < length xs \<Longrightarrow> sum_list (map f (xs[i := y])) + f (xs ! i) = sum_list (map f xs) + (f y :: nat)"
  by (induction xs arbitrary: i) (auto split: nat.splits)

lemma count_update:
  "i < length xs \<Longrightarrow> length (filter P (xs[i := y])) + (if P (xs ! i) then 1 else 0)
    = length (filter P xs) + (if P y then 1 else 0)"
proof (induction xs arbitrary: i)
  case (Cons x xs)
  then show ?case using Cons.IH [of "i - 1"] by (cases i) (auto split: if_splits)
qed simp

lemma hook_step:
  assumes inv: "receiver_inv n s" and tid: "fst e < n"
  shows "\<exists>s'. hook e s = Inr s' \<and> receiver_inv n s' \<and> slot_view s' = slot_upd e (slot_view s)"
proof -
  obtain i now f where e: "e = (i, now, f)" by (cases e) auto
  have i: "i < length (rs_thread_info s)" using assms by (simp add: e receiver_inv_def)
  let ?t = "rs_thread_info s ! i"
  let ?t1 = "if ti_pkts ?t = 0 then ?t\<lparr>ti_start := now\<rparr> else ?t"
  have t1: "ti_pkts ?t1 = ti_pkts ?t" "ti_bytes ?t1 = ti_bytes ?t" by simp_all
  show ?thesis
  proof (cases f)
    case None
    let ?s = "s\<lparr>rs_thread_info := (rs_thread_info s)[i := ?t1], rs_nready := rs_nready s + 1\<rparr>"
    have "hook e s = Inr ?s" using i by (simp add: hook_def e None Let_def)
    moreover have "receiver_inv n ?s"
      using inv i sum_list_update_nat [OF i, of ti_pkts ?t1] count_update [OF i, of "\<lambda>t. EXPECTED_FRAMES \<le> ti_pkts t" ?t1]
      unfolding receiver_inv_def ready_slots_def by (simp add: t1 split: if_splits)
    moreover have "slot_view ?s = slot_upd e (slot_view s)"
      using i by (auto simp: slot_view_def slot_upd_def e None nth_list_update fun_eq_iff)
    ultimately show ?thesis by blast
  next
    case (Some x)
    let ?t2 = "?t1\<lparr>ti_last := now, ti_bytes := ti_bytes ?t1 + length x, ti_pkts := ti_pkts ?t1 + 1\<rparr>"
    let ?s1 = "s\<lparr>rs_thread_info := (rs_thread_info s)[i := ?t2], rs_frames_received := rs_frames_received s + 1\<rparr>"
    let ?s = "if ti_pkts ?t2 = EXPECTED_FRAMES
      then ?s1\<lparr>rs_results := rs_results s @ [result_line ?t2], rs_nready := rs_nready s + 1\<rparr> else ?s1"
    have t2: "ti_pkts ?t2 = ti_pkts ?t + 1" "ti_bytes ?t2 = ti_bytes ?t + length x" by simp_all
    have "hook e s = Inr ?s" using i by (simp add: hook_def e Some Let_def)
    moreover have "receiver_inv n ?s"
      using inv i sum_list_update_nat [OF i, of ti_pkts ?t2] count_update [OF i, of "\<lambda>t. EXPECTED_FRAMES \<le> ti_pkts t" ?t2] t2
      unfolding receiver_inv_def ready_slots_def result_line_def
      by (cases "ti_pkts ?t2 = EXPECTED_FRAMES") (auto split: if_splits)
    moreover have "slot_view ?s = slot_upd e (slot_view s)"
      using i by (auto simp: slot_view_def slot_upd_def e Some nth_list_update fun_eq_iff)
    ultimately show ?thesis by blast
  qed
qed

interpretation receiver_hook: frame_hook hook "receiver_inv n" "\<lambda>e. fst e < n" slot_view slot_upd
  for n
  by unfold_locales (rule hook_step)

lemma fold_slot_upd:
  "fold slot_upd es v tid = (fst (v tid) + length (frames_of tid es), snd (v tid) + length (concat (frames_of tid es)))"
proof (induction es arbitrary: v)
  case Nil
  then show ?case by (simp add: frames_of_def)
next
  case (Cons e es)
  obtain t now f where "e = (t, now, f)" by (cases e) auto
  then show ?case using Cons by (cases f) (simp_all add: slot_upd_def frames_of_def)
qed

subsection \<open>uvgrtp/receiver.cc: waiting for the end\<close>

text \<open>
  The loop of \<open>receiver_thread\<close>. A poll is what it reads: \<open>nready\<close>, \<open>frames_received\<close> and the clock
  in microseconds. True: it timed out and writes a line; false: all threads were ready.
\<close>

fun receiver_wait :: "nat \<Rightarrow> nat \<Rightarrow> nat \<Rightarrow> (nat \<times> nat \<times> nat) list \<Rightarrow> bool option" where
  "receiver_wait nthreads previous_packets last_update [] = None"
| "receiver_wait nthreads previous_packets last_update ((nready, frames_received, now) # polls) =
     (if nthreads \<le> nready then Some False
      else if frames_received \<noteq> previous_packets then receiver_wait nthreads frames_received now polls
      else if last_update + 200000 \<le> now then Some True
      else receiver_wait nthreads previous_packets last_update polls)"

text \<open>The polls of a stretch of time in which no frame comes.\<close>

definition quiet :: "nat \<Rightarrow> nat \<Rightarrow> (nat \<times> nat \<times> nat) list \<Rightarrow> bool" where
  "quiet nthreads k polls \<longleftrightarrow> (\<forall>(r, f, _) \<in> set polls. r < nthreads \<and> f = k)"

lemma receiver_wait_quiet:
  assumes "quiet nthreads k polls" and "\<exists>(r, f, now) \<in> set polls. prev_time + 200000 \<le> now"
  shows "receiver_wait nthreads k prev_time (polls @ rest) = Some True"
  using assms
proof (induction polls)
  case (Cons p polls)
  obtain r f now where p: "p = (r, f, now)" by (cases p) auto
  then show ?case using Cons by (auto simp: quiet_def)
qed simp

text \<open>Seen from the outside: when a timeout is reported, the count was the same at two polls 200 ms apart.\<close>

lemma receiver_wait_timeout:
  assumes "receiver_wait nthreads k prev_time polls = Some True"
  shows "\<exists>f t now r. (r, f, now) \<in> set polls \<and> t + 200000 \<le> now \<and> r < nthreads
    \<and> (t = prev_time \<and> f = k \<or> (\<exists>r'. (r', f, t) \<in> set polls))"
  using assms
proof (induction nthreads k prev_time polls rule: receiver_wait.induct)
  case (2 nthreads k prev_time r f now polls)
  note step = 2
  consider "nthreads \<le> r" | "r < nthreads" "f \<noteq> k" | "r < nthreads" "f = k" "prev_time + 200000 \<le> now"
    | "r < nthreads" "f = k" "\<not> prev_time + 200000 \<le> now" by linarith
  then show ?case
  proof cases
    case 1
    then show ?thesis using step(3) by simp
  next
    case 2
    then have "receiver_wait nthreads f now polls = Some True" using step(3) by simp
    then show ?thesis using step(1) 2 by (fastforce dest: leD)
  next
    case 3
    then show ?thesis by fastforce
  next
    case 4
    then have "receiver_wait nthreads k prev_time polls = Some True" using step(3) by simp
    then show ?thesis using step(2) 4 by (fastforce dest: leD)
  qed
qed simp

subsection \<open>uvgrtp/vpcc_receiver.cc\<close>

record stream_results =
  sr_packets_received :: nat
  sr_bytes_received :: nat
  sr_start :: int
  sr_last :: int

definition results_init :: stream_results where
  "results_init = \<lparr>sr_packets_received = 0, sr_bytes_received = 0, sr_start = 0, sr_last = 0\<rparr>"

text \<open>The hook on the results of its stream and the flag \<open>frame_received\<close>.\<close>

definition vpcc_hook :: "int \<times> u8 list option \<Rightarrow> stream_results \<times> bool \<Rightarrow> (stream_results \<times> bool) res" where
  "vpcc_hook = (\<lambda>(now, frame) (r, frame_received).
     let r = (if sr_packets_received r = 0 then r\<lparr>sr_start := now\<rparr> else r) in
     case frame of
       None \<Rightarrow> Inr (r, frame_received)
     | Some payload \<Rightarrow> Inr (r\<lparr>sr_last := now, sr_bytes_received := sr_bytes_received r + length payload,
                           sr_packets_received := sr_packets_received r + 1\<rparr>, True))"

text \<open>
  \<open>while (frame_received)\<close>: the number of \<open>TIMEOUT\<close> periods the main thread waits, given how many
  frames the hooks handle in each; \<open>None\<close> when frames came in all of them.
\<close>

fun idle_wait :: "nat list \<Rightarrow> nat option" where
  "idle_wait [] = None"
| "idle_wait (arrivals # periods) = (if arrivals = 0 then Some 1 else map_option Suc (idle_wait periods))"

text \<open>What is written: bytes, packets, and the difference of the two times.\<close>

definition vpcc_receiver_result ::
  "stream_results \<Rightarrow> stream_results \<Rightarrow> stream_results \<Rightarrow> stream_results \<Rightarrow> nat \<times> nat \<times> int" where
  "vpcc_receiver_result ad_r ovd_r gvd_r avd_r =
     (let start = find_earliest_time_point (sr_start ad_r) (sr_start ovd_r) (sr_start gvd_r) (sr_start avd_r);
          end = find_latest_time_point (sr_last ad_r) (sr_last ovd_r) (sr_last gvd_r) (sr_last avd_r);
          diff = end - start;
          total_packets_received = sr_packets_received ad_r + sr_packets_received ovd_r + sr_packets_received gvd_r
            + sr_packets_received avd_r;
          total_bytes_received = sr_bytes_received ad_r + sr_bytes_received ovd_r + sr_bytes_received gvd_r
            + sr_bytes_received avd_r in
      (total_bytes_received, total_packets_received, diff))"

text \<open>What the results of a stream say about its frames.\<close>

definition results_of :: "(int \<times> u8 list) list \<Rightarrow> stream_results" where
  "results_of es = \<lparr>sr_packets_received = length es, sr_bytes_received = length (concat (map snd es)),
     sr_start = (if es = [] then 0 else fst (hd es)), sr_last = (if es = [] then 0 else fst (last es))\<rparr>"

definition results_upd :: "int \<times> u8 list option \<Rightarrow> (int \<times> u8 list) list \<Rightarrow> (int \<times> u8 list) list" where
  "results_upd = (\<lambda>(now, f) es. case f of None \<Rightarrow> es | Some x \<Rightarrow> es @ [(now, x)])"

lemma vpcc_hook_step:
  "f \<noteq> None \<Longrightarrow> vpcc_hook (now, f) (results_of es, b) = Inr (results_of (results_upd (now, f) es), True)"
  by (auto simp: vpcc_hook_def results_of_def results_upd_def)

lemma vpcc_hook_run:
  "\<exists>b. run_hook vpcc_hook (map (\<lambda>(now, x). (now, Some x)) fs) (results_of es, b0) = Inr (results_of (es @ fs), b)
    \<and> (fs \<noteq> [] \<longrightarrow> b)"
proof (induction fs arbitrary: es b0)
  case (Cons p fs)
  obtain now x where p: "p = (now, x)" by fastforce
  have "vpcc_hook (now, Some x) (results_of es, b0) = Inr (results_of (es @ [p]), True)"
    using vpcc_hook_step [of "Some x"] by (simp add: results_upd_def p)
  then show ?case
    using Cons.IH [of "es @ [p]" True] by (cases fs) (auto simp: p)
qed simp

lemma idle_wait_iff:
  "idle_wait periods = (if 0 \<in> set periods then Some (Suc (length (takeWhile (\<lambda>n. n \<noteq> 0) periods))) else None)"
  by (induction periods) auto

subsection \<open>Properties\<close>

text \<open>The events of one thread, and those events as the hook is called for them.\<close>

definition of_thread :: "nat \<Rightarrow> arrival list \<Rightarrow> u8 list list" where
  "of_thread th es = map (\<lambda>(_, _, f). the f) (filter (\<lambda>(t, _, f). t = th \<and> f \<noteq> None) es)"

definition hook_calls :: "arrival list \<Rightarrow> arrival list" where
  "hook_calls es = map (\<lambda>(th, now, f). (tid_of th, now, f)) es"

lemma frames_of_hook_calls:
  "length (frames_of i (hook_calls es)) = length (of_thread (2 * i) es) + length (of_thread (2 * i + 1) es)"
  "length (concat (frames_of i (hook_calls es)))
    = length (concat (of_thread (2 * i) es)) + length (concat (of_thread (2 * i + 1) es))"
proof (induction es)
  case (Cons e es)
  obtain th now f where e: "e = (th, now, f)" by (cases e) auto
  have th: "tid_of th = i \<longleftrightarrow> th = 2 * i \<or> th = 2 * i + 1" by (auto simp: tid_of_def)
  {
    case 1
    then show ?case using Cons.IH(1) th by (auto simp: e hook_calls_def frames_of_def of_thread_def)
  next
    case 2
    then show ?case using Cons.IH(2) th by (auto simp: e hook_calls_def frames_of_def of_thread_def)
  }
qed (simp_all add: hook_calls_def frames_of_def of_thread_def)

text \<open>The counts of every slot, and the lines.\<close>

lemma receiver_counts:
  assumes "\<forall>e \<in> set es. tid_of (fst e) < nthreads"
  shows "\<exists>s. run_hook hook (hook_calls es) (receiver_init nthreads) = Inr s
    \<and> (\<forall>i < nthreads. slot_view s i
         = (length (of_thread (2 * i) es) + length (of_thread (2 * i + 1) es),
            length (concat (of_thread (2 * i) es)) + length (concat (of_thread (2 * i + 1) es))))
    \<and> rs_frames_received s = sum_list (map ti_pkts (rs_thread_info s))
    \<and> length (rs_results s) = length (filter (\<lambda>t. 604 \<le> ti_pkts t) (rs_thread_info s))
    \<and> (\<forall>r \<in> set (rs_results s). fst (snd r) = 604)"
proof -
  have "receiver_inv nthreads (receiver_init nthreads)"
    by (auto simp: receiver_inv_def receiver_init_def ready_slots_def EXPECTED_FRAMES_def sum_list_replicate)
  moreover have "\<forall>e \<in> set (hook_calls es). fst e < nthreads"
    using assms by (auto simp: hook_calls_def)
  ultimately obtain s where s: "run_hook hook (hook_calls es) (receiver_init nthreads) = Inr s" "receiver_inv nthreads s"
    "slot_view s = fold slot_upd (hook_calls es) (slot_view (receiver_init nthreads))"
    using receiver_hook.run_ok by blast
  have "slot_view (receiver_init nthreads) = (\<lambda>_. (0, 0))"
    by (auto simp: slot_view_def receiver_init_def)
  then have "\<forall>i. slot_view s i = (length (frames_of i (hook_calls es)), length (concat (frames_of i (hook_calls es))))"
    unfolding s(3) fold_slot_upd by simp
  then show ?thesis
    using s(1,2) unfolding frames_of_hook_calls
    by (intro exI [of _ s]) (simp add: receiver_inv_def ready_slots_def EXPECTED_FRAMES_def)
qed



lemma receiver_wait_live:
  assumes "sorted (last_update # map (\<lambda>p. snd (snd p)) (before @ (r, k, t) # after))" and "quiet nthreads k ((r, k, t) # after)"
    and "\<exists>(r', k', now) \<in> set after. t + 200000 \<le> now"
  shows "receiver_wait nthreads previous last_update (before @ (r, k, t) # after) \<noteq> None"
  using assms
proof (induction "before" arbitrary: previous last_update)
  case Nil
  have r: "r < nthreads" and q: "quiet nthreads k after" using Nil.prems(2) by (auto simp: quiet_def)
  obtain p where p: "p \<in> set after" "t + 200000 \<le> snd (snd p)" using Nil.prems(3) by fastforce
  have le: "last_update \<le> t" using Nil.prems(1) by simp
  have "receiver_wait nthreads k t after = Some True" "receiver_wait nthreads k last_update after = Some True"
    using receiver_wait_quiet [OF q, of t "[]"] receiver_wait_quiet [OF q, of last_update "[]"] p le
    by (fastforce intro: order_trans)+
  then show ?case using r by (cases "k = previous") auto
next
  case (Cons p before)
  obtain r' k' t' where p: "p = (r', k', t')" by (cases p) auto
  have sorted: "sorted (t' # map (\<lambda>p. snd (snd p)) (before @ (r, k, t) # after))"
    "sorted (last_update # map (\<lambda>p. snd (snd p)) (before @ (r, k, t) # after))"
    using Cons.prems(1) by (auto simp: p)
  show ?case
    using Cons.IH [OF sorted(1) Cons.prems(2,3)] Cons.IH [OF sorted(2) Cons.prems(2,3)]
    by (simp add: p del: not_None_eq)
qed

text \<open>
  C32: the receiver comes to an end. If from some poll on no frame comes, and the polls go on for
  at least 200 milliseconds, the waiting loop has ended, whatever came before.
\<close>

theorem receiver_wait_ends:
  assumes "sorted (last_update # map (\<lambda>p. snd (snd p)) (before @ (r, k, t) # after))" and "quiet nthreads k ((r, k, t) # after)"
    and "\<exists>(r', k', now) \<in> set after. t + 200000 \<le> now"
  shows "receiver_wait nthreads previous last_update (before @ (r, k, t) # after) \<noteq> None"
  by (rule receiver_wait_live [OF assms])

theorem receiver_wait_ends_witness:
  "receiver_wait 2 0 100 ([(0, 1, 200), (0, 2, 90000)] @ (0, 3, 95000) # [(0, 3, 200000), (0, 3, 295000)]) \<noteq> None"
  by (rule receiver_wait_ends) (simp_all add: quiet_def)

text \<open>
  The receiver does not give up early. When the waiting loop reports a timeout, there were
  two moments at least 200 milliseconds apart at which the number of received frames was the same
  (the first a poll, or the start of the loop), and not all threads were ready.
\<close>

theorem receiver_wait_patient:
  assumes "receiver_wait nthreads 0 start polls = Some True"
  shows "\<exists>f t now r. (r, f, now) \<in> set polls \<and> t + 200000 \<le> now \<and> r < nthreads
    \<and> (t = start \<and> f = 0 \<or> (\<exists>r'. (r', f, t) \<in> set polls))"
  by (rule receiver_wait_timeout [OF assms])

theorem receiver_wait_patient_witness:
  "\<exists>f t now r. (r, f, now) \<in> set [(0, 3, 95000), (0, 3, 200000), (0, 3, 295000)] \<and> t + 200000 \<le> now \<and> r < (2 :: nat)
    \<and> (t = (100 :: nat) \<and> f = 0 \<or> (\<exists>r'. (r', f, t) \<in> set [(0, 3, 95000), (0, 3, 200000), (0 :: nat, 3 :: nat, 295000)]))"
  by (rule receiver_wait_patient [where nthreads = 2 and start = 100]) simp

text \<open>Without null frames, \<open>nready\<close> is the number of lines written by the hook.\<close>

lemma hook_nready:
  assumes "run_hook hook es s = Inr s'" and "\<forall>e \<in> set es. snd (snd e) \<noteq> None" and "rs_nready s = length (rs_results s)"
  shows "rs_nready s' = length (rs_results s')"
  using assms
proof (induction es arbitrary: s)
  case (Cons e es)
  obtain tid now x where e: "e = (tid, now, Some x)" using Cons.prems(2) by (cases e) auto
  obtain s1 where s1: "hook e s = Inr s1" "run_hook hook es s1 = Inr s'" using Cons.prems(1) by (auto simp: rbind_eq_Inr)
  have "rs_nready s1 = length (rs_results s1)"
    using s1(1) Cons.prems(3) by (cases "tid < length (rs_thread_info s)") (auto simp: e hook_def Let_def split: if_splits)
  then show ?case using Cons.IH [OF s1(2)] Cons.prems(2) by simp
qed simp

lemma filter_prefix_length:
  assumes "\<forall>k < length xs. m \<le> k \<longrightarrow> \<not> P (xs ! k)"
  shows "length (filter P xs) \<le> m"
proof -
  have "filter P (drop m xs) = []"
    using assms by (auto simp: filter_empty_conv in_set_conv_nth)
  then have "filter P xs = filter P (take m xs)"
    using filter_append [of P "take m xs" "drop m xs"] by simp
  then show ?thesis using length_filter_le [of P "take m xs"] by simp
qed

lemma slots_in_use:
  assumes "\<forall>e \<in> set es. fst e < n \<and> snd (snd e) \<noteq> None"
  shows "\<exists>s. run_hook hook (hook_calls es) (receiver_init n) = Inr s \<and> rs_nready s = length (rs_results s)
    \<and> length (rs_results s) \<le> (n + 1) div 2"
proof -
  have tid: "\<forall>e \<in> set es. tid_of (fst e) < n" using assms by (auto simp: tid_of_def)
  obtain s where s: "run_hook hook (hook_calls es) (receiver_init n) = Inr s"
    "\<forall>i < n. slot_view s i = (length (of_thread (2 * i) es) + length (of_thread (2 * i + 1) es),
        length (concat (of_thread (2 * i) es)) + length (concat (of_thread (2 * i + 1) es)))"
    "length (rs_results s) = length (filter (\<lambda>t. 604 \<le> ti_pkts t) (rs_thread_info s))"
    using receiver_counts [OF tid] by blast
  have "receiver_inv n (receiver_init n)"
    by (auto simp: receiver_inv_def receiver_init_def ready_slots_def EXPECTED_FRAMES_def sum_list_replicate)
  moreover have "\<forall>e \<in> set (hook_calls es). fst e < n" using tid by (auto simp: hook_calls_def)
  ultimately have len: "length (rs_thread_info s) = n" using receiver_hook.run_ok s(1) by (force simp: receiver_inv_def)
  have "\<not> 604 \<le> ti_pkts (rs_thread_info s ! k)" if "k < length (rs_thread_info s)" "(n + 1) div 2 \<le> k" for k
  proof -
    have "of_thread (2 * k) es = []" "of_thread (2 * k + 1) es = []"
      using assms that(2) by (auto simp: of_thread_def filter_empty_conv)
    then have "slot_view s k = (0, 0)" using s(2) that(1) len by simp
    then show ?thesis using that(1) by (simp add: slot_view_def)
  qed
  then have "length (rs_results s) \<le> (n + 1) div 2" unfolding s(3) by (intro filter_prefix_length) blast
  moreover have "rs_nready s = length (rs_results s)"
    by (rule hook_nready [OF s(1)]) (use assms in \<open>auto simp: hook_calls_def receiver_init_def\<close>)
  ultimately show ?thesis using s(1) by blast
qed

lemma receiver_wait_not_ready:
  "\<forall>(r, f, now) \<in> set polls. r < n \<Longrightarrow> receiver_wait n k t polls \<noteq> Some False"
  by (induction n k t polls rule: receiver_wait.induct) auto


definition demo_frames :: "arrival list" where
  "demo_frames = [(0, 5, Some [1, 2]), (1, 6, Some [3])]"


text \<open>
  C37: the result of the V-PCC receiver. The written counts are those of the frames of the four streams.
  The time is that from the first frame of all streams to the last if every stream got
  a frame; but a stream without frames has the start time 0, and the time written is then the time
  of the last frame since the epoch. (The number is in microseconds; the result file calls it
  milliseconds.)
\<close>

theorem vpcc_receiver_reports:
  assumes "\<forall>e \<in> set (ad @ ovd @ gvd @ avd). 0 < fst e"
  shows "\<exists>s. (\<forall>es \<in> {ad, ovd, gvd, avd}. \<exists>b. run_hook vpcc_hook (map (\<lambda>(now, x). (now, Some x)) es) (results_init, False) = Inr (s es, b))
    \<and> vpcc_receiver_result (s ad) (s ovd) (s gvd) (s avd)
      = (length (concat (map snd (ad @ ovd @ gvd @ avd))), length (ad @ ovd @ gvd @ avd),
         Max (sr_last ` s ` {ad, ovd, gvd, avd})
         - (if [] \<in> {ad, ovd, gvd, avd} then 0 else Min ((\<lambda>es. fst (hd es)) ` {ad, ovd, gvd, avd})))
    \<and> (\<forall>es \<in> {ad, ovd, gvd, avd}. es \<noteq> [] \<longrightarrow> sr_last (s es) = fst (last es))"
proof -
  have run: "\<exists>b. run_hook vpcc_hook (map (\<lambda>(now, x). (now, Some x)) es) (results_init, False) = Inr (results_of es, b)" for es
    using vpcc_hook_run [of es "[]" False] by (auto simp: results_of_def results_init_def)
  have pos: "es \<noteq> [] \<Longrightarrow> es \<in> {ad, ovd, gvd, avd} \<Longrightarrow> 0 < fst (hd es)" for es
    using assms by (cases es) auto
  have start: "sr_start (results_of es) = (if es = [] then 0 else fst (hd es))" for es by (simp add: results_of_def)
  have "Min (sr_start ` results_of ` {ad, ovd, gvd, avd})
      = (if [] \<in> {ad, ovd, gvd, avd} then 0 else Min ((\<lambda>es. fst (hd es)) ` {ad, ovd, gvd, avd}))"
  proof (cases "[] \<in> {ad, ovd, gvd, avd}")
    case True
    have "Min (sr_start ` results_of ` {ad, ovd, gvd, avd}) = 0"
    proof (rule Min_eqI)
      show "0 \<in> sr_start ` results_of ` {ad, ovd, gvd, avd}" using True start [of "[]"] by force
      fix y assume "y \<in> sr_start ` results_of ` {ad, ovd, gvd, avd}"
      then obtain es where es: "es \<in> {ad, ovd, gvd, avd}" "y = sr_start (results_of es)" by blast
      have "es \<noteq> [] \<Longrightarrow> 0 \<le> fst (hd es)" using pos es(1) by (intro less_imp_le) blast
      then show "0 \<le> y" using es(2) start [of es] by (cases "es = []") simp_all
    qed simp
    then show ?thesis using True by simp
  next
    case False
    then have "sr_start ` results_of ` {ad, ovd, gvd, avd} = (\<lambda>es. fst (hd es)) ` {ad, ovd, gvd, avd}"
      by (auto simp: start)
    then show ?thesis using False by simp
  qed
  then show ?thesis
    using run by (intro exI [of _ results_of])
      (simp add: vpcc_receiver_result_def find_time_points Let_def, simp add: results_of_def)
qed

definition demo_arrivals :: "(int \<times> u8 list) list" where
  "demo_arrivals = [(7, [1, 2]), (9, [3])]"

theorem vpcc_receiver_reports_witness:
  "\<exists>s. (\<forall>es \<in> {demo_arrivals, demo_arrivals, [], demo_arrivals}. \<exists>b.
         run_hook vpcc_hook (map (\<lambda>(now, x). (now, Some x)) es) (results_init, False) = Inr (s es, b))
    \<and> vpcc_receiver_result (s demo_arrivals) (s demo_arrivals) (s []) (s demo_arrivals)
      = (length (concat (map snd (demo_arrivals @ demo_arrivals @ [] @ demo_arrivals))),
         length (demo_arrivals @ demo_arrivals @ [] @ demo_arrivals),
         Max (sr_last ` s ` {demo_arrivals, demo_arrivals, [], demo_arrivals})
         - (if [] \<in> {demo_arrivals, demo_arrivals, [], demo_arrivals} then 0
            else Min ((\<lambda>es. fst (hd es)) ` {demo_arrivals, demo_arrivals, [], demo_arrivals})))
    \<and> (\<forall>es \<in> {demo_arrivals, demo_arrivals, [], demo_arrivals}. es \<noteq> [] \<longrightarrow> sr_last (s es) = fst (last es))"
  by (rule vpcc_receiver_reports) (simp add: demo_arrivals_def)

end
