(* ===== verification/Echo.thy ===== *)
theory Echo
  imports Latency Receivers
begin

section \<open>The echoing end of the uvgRTP latency tests\<close>

text \<open>
  \<open>uvgrtp/latency_receiver.cc\<close> and \<open>uvgrtp/vpcc_latency_receiver.cc\<close>: their hooks push every frame back
  on the stream it came on and count it; the main thread waits until a period passes without
  a frame. What the hooks push is kept as a list; whether a push succeeds only changes a
  printed message.
\<close>

subsection \<open>uvgrtp/latency_receiver.cc\<close>

text \<open>The globals, and the frames pushed with the flag \<open>RTP_NO_H26X_SCL\<close> or without.\<close>

record echo_state =
  er_frame_received :: bool
  er_total_frames_received :: nat
  er_ninters :: nat
  er_nintras :: nat
  er_n_non_vcl :: nat
  er_pushed :: "(bool \<times> u8 list) list"

definition echo_init :: echo_state where
  "echo_init = \<lparr>er_frame_received = True, er_total_frames_received = 0, er_ninters = 0, er_nintras = 0,
     er_n_non_vcl = 0, er_pushed = []\<rparr>"

definition hook_receiver :: "bool \<Rightarrow> u8 list option \<Rightarrow> echo_state \<Rightarrow> echo_state res" where
  "hook_receiver atlas_enabled frame s =
     rbind (of_option Bad_Pointer frame) (\<lambda>payload.
     let s = s\<lparr>er_pushed := er_pushed s @ [(atlas_enabled, payload)]\<rparr>;
         s = s\<lparr>er_frame_received := True, er_total_frames_received := er_total_frames_received s + 1\<rparr> in
     rbind (rd8 payload 4) (\<lambda>b. let nalu_t = nalu_type b in
       Inr (if nalu_t \<le> 15 then s\<lparr>er_ninters := er_ninters s + 1\<rparr>
            else if 16 \<le> nalu_t \<and> nalu_t \<le> 23 then s\<lparr>er_nintras := er_nintras s + 1\<rparr>
            else s\<lparr>er_n_non_vcl := er_n_non_vcl s + 1\<rparr>)))"

text \<open>
  The loop of \<open>receiver\<close>, given the frames the hook handles in each period of 250 milliseconds;
  \<open>None\<close> when it still waits after all of them.
\<close>

definition keeps_waiting :: "echo_state \<Rightarrow> bool" where
  "keeps_waiting s \<longleftrightarrow> er_frame_received s \<and> er_total_frames_received s < EXPECTED_FRAMES"

primrec receiver_loop :: "bool \<Rightarrow> u8 list option list list \<Rightarrow> echo_state \<Rightarrow> echo_state option res" where
  "receiver_loop atlas [] s = Inr (if keeps_waiting s then None else Some s)"
| "receiver_loop atlas (arrived # periods) s =
     (if keeps_waiting s
      then rbind (run_hook (hook_receiver atlas) arrived (s\<lparr>er_frame_received := False\<rparr>)) (receiver_loop atlas periods)
      else Inr (Some s))"

subsection \<open>uvgrtp/vpcc_latency_receiver.cc\<close>

record vpcc_echo_state =
  ve_frame_received :: bool
  ve_ad :: nat
  ve_ovd :: nat
  ve_gvd :: nat
  ve_avd :: nat
  ve_pushed :: "(V3C_UNIT_TYPE \<times> u8 list) list"   \<comment> \<open>the stream a frame is pushed on\<close>

definition vpcc_echo_init :: vpcc_echo_state where
  "vpcc_echo_init = \<lparr>ve_frame_received = True, ve_ad = 0, ve_ovd = 0, ve_gvd = 0, ve_avd = 0, ve_pushed = []\<rparr>"

text \<open>The stream \<open>arg\<close> is the one the hook is installed on.\<close>

definition push_back :: "V3C_UNIT_TYPE \<Rightarrow> u8 list option \<Rightarrow> vpcc_echo_state \<Rightarrow> vpcc_echo_state res" where
  "push_back arg frame s =
     rbind (of_option Bad_Pointer frame) (\<lambda>payload. Inr (s\<lparr>ve_pushed := ve_pushed s @ [(arg, payload)], ve_frame_received := True\<rparr>))"

definition ad_hook_rec :: "V3C_UNIT_TYPE \<Rightarrow> u8 list option \<Rightarrow> vpcc_echo_state \<Rightarrow> vpcc_echo_state res" where
  "ad_hook_rec arg frame s = rbind (push_back arg frame s) (\<lambda>s. Inr (s\<lparr>ve_ad := ve_ad s + 1\<rparr>))"

definition ovd_hook_rec :: "V3C_UNIT_TYPE \<Rightarrow> u8 list option \<Rightarrow> vpcc_echo_state \<Rightarrow> vpcc_echo_state res" where
  "ovd_hook_rec arg frame s = rbind (push_back arg frame s) (\<lambda>s. Inr (s\<lparr>ve_ovd := ve_ovd s + 1\<rparr>))"

definition gvd_hook_rec :: "V3C_UNIT_TYPE \<Rightarrow> u8 list option \<Rightarrow> vpcc_echo_state \<Rightarrow> vpcc_echo_state res" where
  "gvd_hook_rec arg frame s = rbind (push_back arg frame s) (\<lambda>s. Inr (s\<lparr>ve_gvd := ve_gvd s + 1\<rparr>))"

definition avd_hook_rec :: "V3C_UNIT_TYPE \<Rightarrow> u8 list option \<Rightarrow> vpcc_echo_state \<Rightarrow> vpcc_echo_state res" where
  "avd_hook_rec arg frame s = rbind (push_back arg frame s) (\<lambda>s. Inr (s\<lparr>ve_avd := ve_avd s + 1\<rparr>))"

text \<open>The hook installed on each stream; an event is the stream and the frame.\<close>

definition vpcc_echo_hook :: "V3C_UNIT_TYPE \<times> u8 list option \<Rightarrow> vpcc_echo_state \<Rightarrow> vpcc_echo_state res" where
  "vpcc_echo_hook = (\<lambda>(t, frame).
     if t = V3C_AD then ad_hook_rec V3C_AD frame else if t = V3C_OVD then ovd_hook_rec V3C_OVD frame
     else if t = V3C_GVD then gvd_hook_rec V3C_GVD frame else avd_hook_rec V3C_AVD frame)"

subsection \<open>What the hooks echo\<close>

text \<open>A frame whose type byte can be read, behind a start code of four bytes.\<close>

definition echoable :: "u8 list option \<Rightarrow> bool" where
  "echoable f \<longleftrightarrow> (case f of None \<Rightarrow> False | Some x \<Rightarrow> 4 < length x)"

definition echo_inv :: "bool \<Rightarrow> echo_state \<Rightarrow> bool" where
  "echo_inv atlas s \<longleftrightarrow> er_total_frames_received s = length (er_pushed s)
     \<and> (\<forall>p \<in> set (er_pushed s). fst p = atlas \<and> 4 < length (snd p))
     \<and> er_ninters s = length (filter (\<lambda>p. frame_kind False False (snd p) = Inter) (er_pushed s))
     \<and> er_nintras s = length (filter (\<lambda>p. frame_kind False False (snd p) = Intra) (er_pushed s))
     \<and> er_n_non_vcl s = length (filter (\<lambda>p. frame_kind False False (snd p) = Neither) (er_pushed s))"

lemma hook_receiver_step:
  assumes "echo_inv atlas s" and "echoable f"
  shows "\<exists>s'. hook_receiver atlas f s = Inr s' \<and> echo_inv atlas s'
    \<and> (er_frame_received s', map snd (er_pushed s')) = (\<lambda>f v. (True, snd v @ [the f])) f (er_frame_received s, map snd (er_pushed s))"
proof -
  obtain x where f: "f = Some x" "4 < length x" using assms(2) by (auto simp: echoable_def split: option.splits)
  show ?thesis
    using assms(1) f by (simp add: hook_receiver_def echo_inv_def frame_kind_def Let_def)
qed

interpretation echo_hook: frame_hook "hook_receiver atlas" "echo_inv atlas" echoable
    "\<lambda>s. (er_frame_received s, map snd (er_pushed s))" "\<lambda>f v. (True, snd v @ [the f])"
  for atlas
  by unfold_locales (rule hook_receiver_step)

lemma fold_echo:
  "fold (\<lambda>f v. (True, snd v @ [the f])) fs (b, xs) = (b \<or> fs \<noteq> [], xs @ map the fs)"
  by (induction fs arbitrary: b xs) auto

lemma hook_receiver_run:
  assumes "echo_inv atlas s" and "\<forall>f \<in> set fs. echoable f"
  shows "\<exists>s'. run_hook (hook_receiver atlas) fs s = Inr s' \<and> echo_inv atlas s'
    \<and> er_frame_received s' = (er_frame_received s \<or> fs \<noteq> []) \<and> map snd (er_pushed s') = map snd (er_pushed s) @ map the fs"
  using echo_hook.run_ok [OF assms] unfolding fold_echo by auto

lemma echo_inv_received: "echo_inv atlas (s\<lparr>er_frame_received := b\<rparr>) = echo_inv atlas s"
  by (simp add: echo_inv_def)

text \<open>Every period but the last brings a frame, so the loop ends after the missing frames and one more.\<close>

lemma receiver_loop_run:
  assumes "echo_inv atlas s" and "\<forall>fs \<in> set ps. \<forall>f \<in> set fs. echoable f"
    and "605 \<le> length ps + length (er_pushed s)" and "er_frame_received s"
  shows "\<exists>k s'. k \<le> length ps \<and> k + length (er_pushed s) \<le> max 605 (length (er_pushed s)) \<and> receiver_loop atlas ps s = Inr (Some s')
    \<and> echo_inv atlas s' \<and> map snd (er_pushed s') = map snd (er_pushed s) @ map the (concat (take k ps))
    \<and> (604 \<le> length (er_pushed s') \<or> 0 < k \<and> ps ! (k - 1) = [])"
  using assms
proof (induction ps arbitrary: s)
  case Nil
  then show ?case by (intro exI [of _ 0] exI [of _ s]) (simp add: keeps_waiting_def EXPECTED_FRAMES_def echo_inv_def)
next
  case (Cons fs ps)
  show ?case
  proof (cases "604 \<le> length (er_pushed s)")
    case True
    then show ?thesis
      using Cons.prems(1) by (intro exI [of _ 0] exI [of _ s]) (simp add: keeps_waiting_def EXPECTED_FRAMES_def echo_inv_def)
  next
    case False
    then have go: "keeps_waiting s" using Cons.prems by (simp add: keeps_waiting_def EXPECTED_FRAMES_def echo_inv_def)
    obtain s1 where s1: "run_hook (hook_receiver atlas) fs (s\<lparr>er_frame_received := False\<rparr>) = Inr s1" "echo_inv atlas s1"
      "er_frame_received s1 \<longleftrightarrow> fs \<noteq> []" "map snd (er_pushed s1) = map snd (er_pushed s) @ map the fs"
      using hook_receiver_run [of atlas "s\<lparr>er_frame_received := False\<rparr>" fs] Cons.prems(1,2)
      by (auto simp: echo_inv_received)
    have len: "length (er_pushed s1) = length (er_pushed s) + length fs"
      using arg_cong [OF s1(4), of length] by simp
    show ?thesis
    proof (cases fs)
      case Nil
      have "receiver_loop atlas ps s1 = Inr (Some s1)"
        using s1(3) Nil by (cases ps) (simp_all add: keeps_waiting_def)
      then show ?thesis
        using go s1 len Nil False by (intro exI [of _ 1] exI [of _ s1]) simp
    next
      case C: (Cons f fs')
      then obtain k s' where k: "k \<le> length ps" "k + length (er_pushed s1) \<le> max 605 (length (er_pushed s1))"
        "receiver_loop atlas ps s1 = Inr (Some s')" "echo_inv atlas s'"
        "map snd (er_pushed s') = map snd (er_pushed s1) @ map the (concat (take k ps))"
        "604 \<le> length (er_pushed s') \<or> 0 < k \<and> ps ! (k - 1) = []"
        using Cons.IH [of s1] s1(2,3) Cons.prems(2,3) len by auto
      have "Suc k + length (er_pushed s) \<le> max 605 (length (er_pushed s))"
      proof (cases "k = 0")
        case False
        then show ?thesis using k(2) len C by simp
      qed (use False in simp)
      then show ?thesis
        using go s1 k C by (intro exI [of _ "Suc k"] exI [of _ s']) (auto simp: nth_Cons')
    qed
  qed
qed

text \<open>What came in on a stream, and what went back on it.\<close>

definition on_stream :: "V3C_UNIT_TYPE \<Rightarrow> (V3C_UNIT_TYPE \<times> 'a) list \<Rightarrow> 'a list" where
  "on_stream t es = map snd (filter (\<lambda>e. fst e = t) es)"

lemma on_stream_simps [simp]:
  "on_stream t [] = []" "on_stream t (e # es) = (if fst e = t then [snd e] else []) @ on_stream t es"
  "on_stream t (es @ fs) = on_stream t es @ on_stream t fs"
  by (simp_all add: on_stream_def)

definition vpcc_echo_inv :: "vpcc_echo_state \<Rightarrow> bool" where
  "vpcc_echo_inv s \<longleftrightarrow> ve_ad s = length (on_stream V3C_AD (ve_pushed s)) \<and> ve_ovd s = length (on_stream V3C_OVD (ve_pushed s))
     \<and> ve_gvd s = length (on_stream V3C_GVD (ve_pushed s)) \<and> ve_avd s = length (on_stream V3C_AVD (ve_pushed s))"

interpretation vpcc_echo: frame_hook vpcc_echo_hook vpcc_echo_inv "\<lambda>(t, f). streamed t \<and> f \<noteq> None"
    "\<lambda>s. (ve_frame_received s, ve_pushed s)" "\<lambda>(t, f) v. (True, snd v @ [(t, the f)])"
proof
  fix s :: vpcc_echo_state and f :: "V3C_UNIT_TYPE \<times> u8 list option"
  assume inv: "vpcc_echo_inv s" and ok: "case f of (t, f) \<Rightarrow> streamed t \<and> f \<noteq> None"
  obtain t x where f: "f = (t, Some x)" "streamed t" using ok by auto
  show "\<exists>s'. vpcc_echo_hook f s = Inr s' \<and> vpcc_echo_inv s'
    \<and> (ve_frame_received s', ve_pushed s') = (case f of (t, f) \<Rightarrow> \<lambda>v. (True, snd v @ [(t, the f)])) (ve_frame_received s, ve_pushed s)"
    using f(2) inv by (auto simp: f(1) streamed_def vpcc_echo_hook_def push_back_def vpcc_echo_inv_def
        ad_hook_rec_def ovd_hook_rec_def gvd_hook_rec_def avd_hook_rec_def)
qed

lemma fold_vpcc_echo:
  "fold (\<lambda>(t, f) v. (True, snd v @ [(t, the f)])) es (b, xs) = (b \<or> es \<noteq> [], xs @ map (\<lambda>(t, f). (t, the f)) es)"
  by (induction es arbitrary: b xs) auto

lemma vpcc_echo_hook_run:
  assumes "vpcc_echo_inv s" and "\<forall>(t, f) \<in> set es. streamed t \<and> f \<noteq> None"
  shows "\<exists>s'. run_hook vpcc_echo_hook es s = Inr s' \<and> vpcc_echo_inv s' \<and> ve_frame_received s' = (ve_frame_received s \<or> es \<noteq> [])
    \<and> ve_pushed s' = ve_pushed s @ map (\<lambda>(t, f). (t, the f)) es"
  using vpcc_echo.run_ok [OF assms] unfolding fold_vpcc_echo by auto

lemma vpcc_echo_inv_received: "vpcc_echo_inv (s\<lparr>ve_frame_received := b\<rparr>) = vpcc_echo_inv s"
  by (simp add: vpcc_echo_inv_def)

lemma on_stream_map: "on_stream t (map (\<lambda>(t, f). (t, g f)) es) = map g (on_stream t es)"
  by (induction es) auto

lemma vpcc_echo_run:
  assumes "\<forall>(t, f) \<in> set es. streamed t \<and> f \<noteq> None"
  shows "\<exists>s. run_hook vpcc_echo_hook es vpcc_echo_init = Inr s \<and> vpcc_echo_inv s
    \<and> (\<forall>t. on_stream t (ve_pushed s) = map the (on_stream t es))"
proof -
  have "vpcc_echo_inv vpcc_echo_init" by (simp add: vpcc_echo_inv_def vpcc_echo_init_def)
  from vpcc_echo_hook_run [OF this assms] show ?thesis by (auto simp: vpcc_echo_init_def on_stream_map)
qed

subsection \<open>Both ends of the H.265 latency test count alike\<close>

lemma kinds_partition:
  "length (filter (\<lambda>p. frame_kind vvc atlas (g p) = Inter) ps) + length (filter (\<lambda>p. frame_kind vvc atlas (g p) = Intra) ps)
    + length (filter (\<lambda>p. frame_kind vvc atlas (g p) = Neither) ps) = length ps"
proof (induction ps)
  case (Cons p ps)
  then show ?case by (cases "frame_kind vvc atlas (g p)") auto
qed simp

lemma hook_sender_counts:
  assumes "map (\<lambda>(_, _, f). f) es = map Some xs" and "\<forall>x \<in> set xs. 4 < length x"
  shows "\<exists>h. run_hook (hook_sender False False) es hook_init = Inr h
    \<and> hk_nintras h = length (filter (\<lambda>x. frame_kind False False x = Intra) xs)
    \<and> hk_ninters h = length (filter (\<lambda>x. frame_kind False False x = Inter) xs)
    \<and> hk_n_non_vcl h = length (filter (\<lambda>x. frame_kind False False x = Neither) xs)
    \<and> hk_total_frames_received h = length xs \<and> hook_inv False False h
    \<and> hk_total_intra h = ms_sum (of_kind False False Intra es) \<and> hk_total_inter h = ms_sum (of_kind False False Inter es)"
proof -
  have inv: "hook_inv False False hook_init" by (simp add: hook_inv_def hook_init_def)
  have "\<forall>e \<in> set es. \<exists>x. (\<lambda>(_, _, f). f) e = Some x \<and> x \<in> set xs"
  proof
    fix e assume "e \<in> set es"
    then have "(\<lambda>(_, _, f). f) e \<in> set (map Some xs)" unfolding assms(1) [symmetric] by simp
    then show "\<exists>x. (\<lambda>(_, _, f). f) e = Some x \<and> x \<in> set xs" by auto
  qed
  then have "\<forall>e \<in> set es. echo_ok False False e"
    using assms(2) by (fastforce simp: echo_ok_def type_offset_def)
  then obtain h where h: "run_hook (hook_sender False False) es hook_init = Inr h" "hook_inv False False h"
    "hook_view h = fold (hook_upd False False) es ((0, 0), (0, 0), 0)"
    using latency_hook.run_ok [OF inv] by (auto simp: hook_view_def hook_init_def)
  have kind: "length (of_kind False False k es) = length (filter (\<lambda>x. frame_kind False False x = k) xs)" for k
    using assms(1)
  proof (induction es arbitrary: xs)
    case (Cons e es)
    obtain now t f where e: "e = (now, t, f)" by (cases e) auto
    then obtain x xs' where "xs = x # xs'" "f = Some x" using Cons.prems by (cases xs) auto
    then show ?case using Cons.IH [of xs'] Cons.prems by (simp add: e of_kind_def)
  qed (simp add: of_kind_def)
  have len: "length (filter (\<lambda>(_, _, f). f \<noteq> None) es) = length xs"
    using assms(1)
  proof (induction es arbitrary: xs)
    case (Cons e es)
    then show ?case by (cases xs) auto
  qed simp
  note kinds_partition [of False False "\<lambda>x. x" xs]
  then show ?thesis
    using h unfolding fold_hook_upd by (intro exI [of _ h]) (simp add: hook_view_def hook_inv_def kind len del: not_None_eq)
qed

lemma echo_counts:
  assumes "\<forall>x \<in> set xs. 4 < length x"
  shows "\<exists>r. run_hook (hook_receiver False) (map Some xs) echo_init = Inr r \<and> map snd (er_pushed r) = xs
    \<and> er_total_frames_received r = length xs
    \<and> er_nintras r = length (filter (\<lambda>x. frame_kind False False x = Intra) xs)
    \<and> er_ninters r = length (filter (\<lambda>x. frame_kind False False x = Inter) xs)
    \<and> er_n_non_vcl r = length (filter (\<lambda>x. frame_kind False False x = Neither) xs)"
proof -
  have inv: "echo_inv False echo_init" by (simp add: echo_inv_def echo_init_def)
  have ok: "\<forall>f \<in> set (map Some xs). echoable f" using assms by (auto simp: echoable_def)
  obtain r where r: "run_hook (hook_receiver False) (map Some xs) echo_init = Inr r" "echo_inv False r"
    "map snd (er_pushed r) = map snd (er_pushed echo_init) @ map the (map Some xs)"
    using hook_receiver_run [OF inv ok] by blast
  have xs: "xs = map snd (er_pushed r)" using r(3) by (simp add: echo_init_def comp_def)
  show ?thesis
    using r(1,2) by (intro exI [of _ r]) (simp add: echo_inv_def xs filter_map comp_def)
qed

subsection \<open>Properties\<close>

text \<open>
  C27: the echoing receiver comes to an end and loses nothing. Whatever frames the hook handles in the periods
  of its waiting loop, it ends after at most 605 of them: with the
  expected 604 frames, or at the first period without a frame; and until then it has pushed every frame back, in the
  order they came, and counted each.
\<close>

theorem echo_receiver_ends:
  assumes "\<forall>fs \<in> set ps. \<forall>f \<in> set fs. echoable f" and "605 \<le> length ps"
  shows "\<exists>k s. k \<le> 605 \<and> receiver_loop atlas ps echo_init = Inr (Some s)
    \<and> er_pushed s = map (\<lambda>f. (atlas, the f)) (concat (take k ps))
    \<and> er_total_frames_received s = length (concat (take k ps))
    \<and> er_ninters s + er_nintras s + er_n_non_vcl s = er_total_frames_received s
    \<and> (604 \<le> er_total_frames_received s \<or> 0 < k \<and> ps ! (k - 1) = [])"
proof -
  have "echo_inv atlas echo_init" by (simp add: echo_inv_def echo_init_def)
  from receiver_loop_run [OF this assms(1)] assms(2) obtain k s where s: "k \<le> 605"
    "receiver_loop atlas ps echo_init = Inr (Some s)" "echo_inv atlas s"
    "map snd (er_pushed s) = map the (concat (take k ps))" "604 \<le> length (er_pushed s) \<or> 0 < k \<and> ps ! (k - 1) = []"
    by (auto simp: echo_init_def)
  have "er_pushed s = map (\<lambda>x. (atlas, x)) (map snd (er_pushed s))"
    using s(3) by (intro nth_equalityI) (auto simp: echo_inv_def prod_eq_iff)
  then have pushed: "er_pushed s = map (\<lambda>f. (atlas, the f)) (concat (take k ps))"
    unfolding s(4) by (simp add: comp_def)
  have "er_ninters s + er_nintras s + er_n_non_vcl s = length (er_pushed s)" "er_total_frames_received s = length (er_pushed s)"
    using s(3) kinds_partition [of False False snd "er_pushed s"] by (simp_all add: echo_inv_def)
  then show ?thesis
    using s(1,2,5) pushed by (intro exI [of _ k] exI [of _ s]) simp
qed

theorem echo_receiver_ends_witness:
  "\<exists>k s. k \<le> 605 \<and> receiver_loop False ([Some [0, 0, 0, 1, 2]] # replicate 604 []) echo_init = Inr (Some s)
    \<and> er_pushed s = map (\<lambda>f. (False, the f)) (concat (take k ([Some [0, 0, 0, 1, 2]] # replicate 604 [])))
    \<and> er_total_frames_received s = length (concat (take k ([Some [0, 0, 0, 1, 2 :: u8]] # replicate 604 [])))
    \<and> er_ninters s + er_nintras s + er_n_non_vcl s = er_total_frames_received s
    \<and> (604 \<le> er_total_frames_received s \<or> 0 < k \<and> ([Some [0, 0, 0, 1, 2 :: u8]] # replicate 604 []) ! (k - 1) = [])"
  by (rule echo_receiver_ends) (simp_all add: echoable_def)

end
