(* ===== verification/Latency_Tests.thy ===== *)
theory Latency_Tests
  imports Echo
begin

section \<open>Both ends of the latency tests together\<close>

text \<open>
  The measuring program (sending threads, receive hooks, evaluation) and the echoing
  program, connected by a network that delivers every frame of a stream once and in order. The lemmas
  here compose the results of the two sides; the properties of the whole tests are in the root theory.
\<close>

subsection \<open>H.265\<close>

lemma latency_chunk_run:
  assumes "chunk_sizes \<noteq> []" and "sum_list chunk_sizes \<le> length mem"
    and "length chunk_sizes * unat period < 2 ^ 64" and "length chunk_sizes < 2 ^ 64" and "\<forall>k. e_push_ok env k"
  shows "\<exists>s. latency_sender env mem period False [] chunk_sizes = Inr (True, s)
    \<and> pushed (lt_world s) = slices mem 0 chunk_sizes
    \<and> (\<forall>k < length (w_log (lt_world s)). k * unat period \<le> fst (w_log (lt_world s) ! k))"
proof -
  have inv: "latency_chunk_inv mem period (length chunk_sizes) chunk_sizes latency_init"
    using assms by (simp add: latency_chunk_inv_def chunk_inv_def latency_init_def world_init_def pushed_def)
  have start: "on_time length (unat period) (lt_world latency_init)"
    by (simp add: latency_init_def on_time_init)
  obtain s where "for_each (latency_chunk_body env mem period) chunk_sizes latency_init = Inr (True, s)"
    "pushed (lt_world s) = slices mem 0 chunk_sizes" "on_time length (unat period) (lt_world s)"
    using latency_chunk.run_steady [OF inv start assms(5)]
    by (auto simp: latency_init_def world_init_def pushed_def)
  then show ?thesis
    using assms(1) log_on_time_length [OF on_time_log] by (auto simp: latency_sender_def)
qed

lemma slices_lengths:
  "p + sum_list ns \<le> length mem \<Longrightarrow> map length (slices mem p ns) = ns"
  by (induction mem p ns rule: slices.induct) auto

text \<open>The frames \<open>xs\<close> coming back, each with its arrival time and the send time known then.\<close>

definition coming_back :: "(nat \<times> nat) list \<Rightarrow> u8 list list \<Rightarrow> echo list" where
  "coming_back moments xs = map2 (\<lambda>(now, sent) x. (now, sent, Some x)) moments xs"

lemma coming_back_frames:
  "length moments = length xs \<Longrightarrow> map (\<lambda>(_, _, f). f) (coming_back moments xs) = map Some xs"
  by (induction moments xs rule: list_induct2) (auto simp: coming_back_def)

subsection \<open>V-PCC\<close>

text \<open>All hooks of the measuring program: an event is the stream, the time and the frame.\<close>

definition measuring_hooks :: "V3C_UNIT_TYPE \<times> nat \<times> u8 list option \<Rightarrow> recv_log \<Rightarrow> recv_log res" where
  "measuring_hooks = (\<lambda>(t, e). stream_hook t e)"

lemma stream_hook_other:
  "streamed t \<Longrightarrow> streamed t' \<Longrightarrow> t \<noteq> t' \<Longrightarrow> stream_hook t e r = Inr r' \<Longrightarrow> stream_recv t' r' = stream_recv t' r"
  by (cases e) (auto simp: streamed_def stream_hook_def stream_recv_def rbind_eq_Inr Let_def
      ad_hook_def ovd_hook_def gvd_hook_def avd_hook_def)

lemma measuring_hooks_run:
  assumes "\<forall>(t, e) \<in> set bs. streamed t \<and> full_frame e"
  shows "\<exists>r'. run_hook measuring_hooks bs r = Inr r'
    \<and> (\<forall>t. streamed t \<longrightarrow> stream_recv t r' = fold (stream_upd t) (on_stream t bs) (stream_recv t r))"
  using assms
proof (induction bs arbitrary: r)
  case (Cons b bs)
  obtain t e where b: "b = (t, e)" "streamed t" "full_frame e" using Cons.prems by (cases b) auto
  obtain r1 where r1: "stream_hook t e r = Inr r1" "stream_recv t r1 = stream_upd t e (stream_recv t r)"
    using stream_hook_step [OF b(3)] by blast
  obtain r' where r': "run_hook measuring_hooks bs r1 = Inr r'"
    "\<forall>t. streamed t \<longrightarrow> stream_recv t r' = fold (stream_upd t) (on_stream t bs) (stream_recv t r1)"
    using Cons.IH [of r1] Cons.prems by auto
  have "stream_recv t' r' = fold (stream_upd t') (on_stream t' (b # bs)) (stream_recv t' r)" if "streamed t'" for t'
    using that r' r1(2) stream_hook_other [OF b(2) that _ r1(1)] by (cases "t = t'") (simp_all add: b(1))
  then show ?case using r'(1) r1(1) by (intro exI [of _ r']) (simp add: measuring_hooks_def b(1))
qed simp

lemma length_logged:
  "map snd es = map Some xs \<Longrightarrow> length (fold (stream_upd t) es ts) = length ts + length (filter (logged t) xs)"
proof (induction es arbitrary: xs ts)
  case (Cons e es)
  then obtain x xs' where "xs = x # xs'" "snd e = Some x" by (cases xs) auto
  then show ?case using Cons.IH [of xs'] Cons.prems by (cases e) (simp add: stream_upd_def)
qed simp

text \<open>The NAL units of a stream as the file has them.\<close>

definition stream_nals :: "u8 list \<Rightarrow> v3c_unit_info list \<Rightarrow> u8 list list" where
  "stream_nals cbuf units = map (nal_bytes cbuf) (concat (map ui_nal_infos units))"

text \<open>When the frames of a stream were pushed.\<close>

definition push_times :: "V3C_UNIT_TYPE \<Rightarrow> world \<Rightarrow> nat list" where
  "push_times t w = map fst (filter (\<lambda>(_, x). frame_nal t x) (w_log w))"

lemma send_times_count:
  assumes "\<forall>i \<in> set (concat (map ui_nal_infos units)). nal_in cbuf i"
    and "length (concat (map ui_nal_infos units)) * unat period < 2 ^ 64" and "length (concat (map ui_nal_infos units)) < 2 ^ 64"
  shows "\<exists>s. vpcc_latency_sender_func env cbuf fmt period units = Inr (True, s)
    \<and> pushed (vl_world s) = stream_nals cbuf units
    \<and> vl_send_times s = push_times fmt (vl_world s)
    \<and> length (vl_send_times s) = length (filter (frame_nal fmt) (stream_nals cbuf units))"
proof -
  obtain s where s: "vpcc_latency_sender_func env cbuf fmt period units = Inr (True, s)"
    "pushed (vl_world s) = stream_nals cbuf units"
    "vl_send_times s = map fst (filter (\<lambda>(t, x). frame_nal fmt x) (w_log (vl_world s)))"
    using vpcc_latency_run [OF refl assms, of env fmt] by (auto simp: stream_nals_def)
  have "length (filter (\<lambda>(t, x). frame_nal fmt x) w) = length (filter (frame_nal fmt) (map snd w))"
    for w :: "(nat \<times> u8 list) list" by (induction w) auto
  then have "length (vl_send_times s) = length (filter (frame_nal fmt) (pushed (vl_world s)))"
    unfolding s(3) pushed_def by (simp only: length_map)
  then show ?thesis using s by (auto simp: push_times_def)
qed

lemma stream_nals_nonempty:
  "\<forall>i \<in> set (concat (map ui_nal_infos units)). nal_in cbuf i \<Longrightarrow> x \<in> set (stream_nals cbuf units) \<Longrightarrow> x \<noteq> []"
  by (fastforce simp: stream_nals_def nal_bytes_def nal_in_def)

text \<open>The send lists the four sending threads leave.\<close>

definition vpcc_logs :: "(V3C_UNIT_TYPE \<Rightarrow> vpcc_latency_state) \<Rightarrow> send_log" where
  "vpcc_logs s = \<lparr>ad_send = vl_send_times (s V3C_AD), ovd_send = vl_send_times (s V3C_OVD),
     gvd_send = vl_send_times (s V3C_GVD), avd_send = vl_send_times (s V3C_AVD)\<rparr>"

lemma on_stream_frames:
  assumes "\<forall>t. on_stream t (map (\<lambda>(t, _, f). (t, f)) bs) = map Some (xs t)" and "(t, now, f) \<in> set bs"
  shows "\<exists>x \<in> set (xs t). f = Some x"
proof -
  have "f \<in> set (on_stream t (map (\<lambda>(t, _, f). (t, f)) bs))"
    using assms(2) by (force simp: on_stream_def)
  then show ?thesis using assms(1) by auto
qed

lemma on_stream_snd: "map snd (on_stream t bs) = on_stream t (map (\<lambda>(t, _, f). (t, f)) bs)"
  by (induction bs) auto

text \<open>
  Both programs' hooks on everything the sending threads pushed: \<open>es\<close> is an interleaving of the streams as the
  echoing program sees them, \<open>bs\<close> one of what comes back, with its times.
\<close>

lemma echo_and_measure:
  assumes nonempty: "\<forall>t. \<forall>x \<in> set (xs t). x \<noteq> []" and only: "\<forall>t. \<not> streamed t \<longrightarrow> xs t = []"
    and es: "\<forall>t. on_stream t es = map Some (xs t)"
    and bs: "\<forall>t. on_stream t (map (\<lambda>(t, _, f). (t, f)) bs) = map Some (xs t)"
  shows "\<exists>r log. run_hook vpcc_echo_hook es vpcc_echo_init = Inr r \<and> (\<forall>t. on_stream t (ve_pushed r) = xs t)
    \<and> run_hook measuring_hooks bs recv_init = Inr log
    \<and> (\<forall>t. streamed t \<longrightarrow> length (stream_recv t log) = length (filter (logged t) (xs t)))"
proof -
  have "streamed t \<and> f \<noteq> None" if "(t, f) \<in> set es" for t f
  proof -
    have "f \<in> set (on_stream t es)" using that by (force simp: on_stream_def)
    then have "f \<in> Some ` set (xs t)" using es by simp
    then show ?thesis using only by fastforce
  qed
  then obtain r where r: "run_hook vpcc_echo_hook es vpcc_echo_init = Inr r" "\<forall>t. on_stream t (ve_pushed r) = map the (on_stream t es)"
    using vpcc_echo_run [of es] by auto
  have "streamed t \<and> full_frame e" if b: "(t, e) \<in> set bs" for t e
  proof -
    obtain now f where e: "e = (now, f)" by fastforce
    obtain x where "x \<in> set (xs t)" "f = Some x" using on_stream_frames [OF bs, of t now f] b by (auto simp: e)
    then show ?thesis using nonempty only by (fastforce simp: e full_frame_def)
  qed
  then have "\<forall>(t, e) \<in> set bs. streamed t \<and> full_frame e" by auto
  from measuring_hooks_run [OF this, of recv_init] obtain log where log: "run_hook measuring_hooks bs recv_init = Inr log"
    "\<forall>t. streamed t \<longrightarrow> stream_recv t log = fold (stream_upd t) (on_stream t bs) (stream_recv t recv_init)"
    by blast
  have "length (stream_recv t log) = length (filter (logged t) (xs t))" if "streamed t" for t
    using log(2) that length_logged [of "on_stream t bs" "xs t"] bs
    by (simp add: on_stream_snd stream_recv_def recv_init_def)
  then show ?thesis using r log(1) es by (auto simp: comp_def)
qed

lemma v3c_types: "streamed t \<longleftrightarrow> t \<in> {V3C_AD, V3C_OVD, V3C_GVD, V3C_AVD}"
  by (auto simp: streamed_def)

lemma vpcc_logs_lengths:
  assumes "\<forall>t. streamed t \<longrightarrow> length (vl_send_times (s t)) = length (filter (frame_nal t) (xs t))"
    and "\<forall>t. streamed t \<longrightarrow> length (stream_recv t log) = length (filter (logged t) (xs t))"
  shows "length (ad_send (vpcc_logs s)) = length (filter (frame_nal V3C_AD) (xs V3C_AD))"
    "length (ad_recv log) = length (filter (frame_nal V3C_AD) (xs V3C_AD)) + length (filter (misclassified V3C_AD) (xs V3C_AD))"
    "length (ovd_send (vpcc_logs s)) = length (filter (frame_nal V3C_OVD) (xs V3C_OVD))"
    "length (ovd_recv log) = length (filter (frame_nal V3C_OVD) (xs V3C_OVD))"
    "length (gvd_send (vpcc_logs s)) = length (filter (frame_nal V3C_GVD) (xs V3C_GVD))"
    "length (gvd_recv log) = length (filter (frame_nal V3C_GVD) (xs V3C_GVD))"
    "length (avd_send (vpcc_logs s)) = length (filter (frame_nal V3C_AVD) (xs V3C_AVD))"
    "length (avd_recv log) = length (filter (frame_nal V3C_AVD) (xs V3C_AVD))"
proof -
  have none: "misclassified t = (\<lambda>_. False)" if "t \<noteq> V3C_AD" for t
    using that by (auto simp: misclassified_def)
  show "length (ad_send (vpcc_logs s)) = length (filter (frame_nal V3C_AD) (xs V3C_AD))"
    "length (ad_recv log) = length (filter (frame_nal V3C_AD) (xs V3C_AD)) + length (filter (misclassified V3C_AD) (xs V3C_AD))"
    "length (ovd_send (vpcc_logs s)) = length (filter (frame_nal V3C_OVD) (xs V3C_OVD))"
    "length (ovd_recv log) = length (filter (frame_nal V3C_OVD) (xs V3C_OVD))"
    "length (gvd_send (vpcc_logs s)) = length (filter (frame_nal V3C_GVD) (xs V3C_GVD))"
    "length (gvd_recv log) = length (filter (frame_nal V3C_GVD) (xs V3C_GVD))"
    "length (avd_send (vpcc_logs s)) = length (filter (frame_nal V3C_AVD) (xs V3C_AVD))"
    "length (avd_recv log) = length (filter (frame_nal V3C_AVD) (xs V3C_AVD))"
    using assms [THEN spec, of V3C_AD] assms [THEN spec, of V3C_OVD] assms [THEN spec, of V3C_GVD] assms [THEN spec, of V3C_AVD]
    by (simp_all add: vpcc_logs_def stream_recv_def streamed_def count_logged none)
qed

lemma vpcc_result:
  assumes "length (ad_recv log) = length (ad_send s) + bad" and "length (ovd_send s) = length (ovd_recv log)"
    and "length (gvd_send s) = length (gvd_recv log)" and "length (avd_send s) = length (avd_recv log)"
    and "length (ad_send s) \<le> length (ovd_send s)"
    and "length (ad_send s) * 4 \<le> length (gvd_send s) + 3" and "length (ad_send s) * 4 \<le> length (avd_send s) + 3"
  shows "vpcc_latency_result s log = Inr (if bad = 0
    then (length (ad_send s), \<Sum>i \<leftarrow> [0..<length (ad_send s)]. frame_latency s log i) else (0, 0))"
proof -
  have "\<forall>i \<in> set [0..<length (ad_send s)]. full_frame_diff s log i = Inr (frame_latency s log i)" if "bad = 0"
    using assms that by (auto intro!: full_frame_diff_eq)
  then show ?thesis
    using assms(1-4) sum_diffs_eq [of "[0..<length (ad_send s)]" s log 0]
    by (simp add: vpcc_latency_result_def Let_def)
qed

end
