(* ===== verification/Chunk_Files.thy ===== *)
theory Chunk_Files
  imports Senders
begin

section \<open>Test files and their chunk files\<close>

text \<open>
  \<open>util/test_file_creation.cc\<close> encodes a raw video and writes two files: the encoded bytes, and one
  64-bit number per encoded picture, its size. The senders read the second file with
  \<open>get_chunk_sizes\<close> (\<open>util/util.cc\<close>) to cut the first. The Kvazaar encoder is a
  parameter: what the \<open>k\<close>-th call of \<open>encoder_encode\<close> does, given whether it got a picture.
\<close>

subsection \<open>get_chunk_sizes\<close>

text \<open>
  The loop with the bytes of the file still to come: \<open>read\<close> of eight bytes fails when fewer are
  left, and what is left then is ignored.
\<close>

function read_sizes :: "u8 list \<Rightarrow> nat list \<Rightarrow> nat list" where
  "read_sizes input chunk_sizes =
     (if length input < 8 then chunk_sizes
      else read_sizes (drop 8 input) (chunk_sizes @ [of_le (take 8 input)]))"
  by pat_completeness auto
termination
  by (relation "measure (\<lambda>(input, _). length input)") auto

declare read_sizes.simps [simp del]

text \<open>A file that cannot be opened leaves the vector as it is.\<close>

definition get_chunk_sizes :: "u8 list option \<Rightarrow> nat list \<Rightarrow> nat list" where
  "get_chunk_sizes file chunk_sizes = (case file of None \<Rightarrow> chunk_sizes | Some input \<Rightarrow> read_sizes input chunk_sizes)"

lemma read_sizes_concat:
  assumes "\<forall>n \<in> set ns. n < 2 ^ 64" and "length tail < 8"
  shows "read_sizes (concat (map (le_bytes 8) ns) @ tail) acc = acc @ ns"
  using assms
proof (induction ns arbitrary: acc)
  case Nil
  then show ?case by (simp add: read_sizes.simps)
next
  case (Cons n ns)
  have "of_le (le_bytes 8 n) = n" using Cons.prems(1) by (simp add: of_le_bytes)
  then show ?case
    using Cons by (subst read_sizes.simps) simp
qed

lemma read_sizes_length: "length (read_sizes input acc) = length acc + length input div 8"
proof (induction input acc rule: read_sizes.induct)
  case (1 input acc)
  then show ?case by (subst read_sizes.simps) (simp add: le_div_geq)
qed

subsection \<open>get_chunk_filename\<close>

text \<open>\<open>find_last_of(".")\<close>\<close>

fun find_last_dot :: "string \<Rightarrow> nat option" where
  "find_last_dot [] = None"
| "find_last_dot (c # cs) = (case find_last_dot cs of Some i \<Rightarrow> Some (i + 1) | None \<Rightarrow> if c = CHR ''.'' then Some 0 else None)"

definition get_chunk_filename :: "string \<Rightarrow> string" where
  "get_chunk_filename encoded_filename =
     (let (mem_file, ending) = (case find_last_dot encoded_filename of
            None \<Rightarrow> ('''', '''')
          | Some lastindex \<Rightarrow> (take lastindex encoded_filename, drop (lastindex + 1) encoded_filename)) in
      mem_file @ ''.m'' @ ending)"

lemma find_last_dot_None: "CHR ''.'' \<notin> set cs \<Longrightarrow> find_last_dot cs = None"
  by (induction cs) auto

lemma find_last_dot_append:
  "CHR ''.'' \<notin> set ext \<Longrightarrow> find_last_dot (base @ CHR ''.'' # ext) = Some (length base)"
  by (induction base) (auto simp: find_last_dot_None)

text \<open>The names \<open>main\<close> of the file creation makes from the name of the input.\<close>

definition output_name :: "string \<Rightarrow> string" where
  "output_name input_file =
     (let output_file = (case find_last_dot input_file of None \<Rightarrow> input_file | Some lastindex \<Rightarrow> take lastindex input_file);
          output_file = output_file @ ''.hevc'' in
      if input_file = output_file then ''out_'' @ output_file else output_file)"

subsection \<open>encode_frame and kvazaar_encode\<close>

text \<open>
  What \<open>encoder_encode\<close> returns: failure, or the data chunks it has put out (none for a null
  pointer).
\<close>

type_synonym encoder = "nat \<Rightarrow> bool \<Rightarrow> u8 list list option"

record test_files =
  tf_calls :: nat             \<comment> \<open>how often the encoder has been called\<close>
  tf_output :: "u8 list"
  tf_memory :: "u8 list"
  tf_frees :: nat             \<comment> \<open>how often \<open>picture_free\<close> has been called on the input picture\<close>

text \<open>The result: whether to go on, and \<open>rvalue\<close> (true for \<open>EXIT_SUCCESS\<close>), which may be left as it was.\<close>

definition encode_frame :: "encoder \<Rightarrow> bool \<Rightarrow> bool \<Rightarrow> test_files \<Rightarrow> (bool \<times> bool) \<times> test_files" where
  "encode_frame enc input rvalue f =
     (let r = enc (tf_calls f) input; f = f\<lparr>tf_calls := tf_calls f + 1\<rparr> in
      case r of
        None \<Rightarrow> ((False, False), f\<lparr>tf_frees := tf_frees f + (if input then 16 else 0)\<rparr>)
      | Some chunks_out \<Rightarrow>
        if chunks_out = [] \<and> \<not> input then ((False, True), f)
        else if chunks_out \<noteq> [] then
          let written = sum_list (map length chunks_out) mod 2 ^ 64 in
          ((True, rvalue), f\<lparr>tf_memory := tf_memory f @ le_bytes 8 written,
                             tf_output := tf_output f @ concat chunks_out\<rparr>)
        else ((True, rvalue), f))"

text \<open>The reading loop, for the pictures of the input file; false when the encoder failed.\<close>

fun encode_pictures :: "encoder \<Rightarrow> nat \<Rightarrow> test_files \<Rightarrow> bool \<times> test_files" where
  "encode_pictures enc 0 f = (True, f)"
| "encode_pictures enc (Suc n) f =
     (case encode_frame enc True False f of ((go, _), f) \<Rightarrow> if go then encode_pictures enc n f else (False, f))"

text \<open>
  \<open>while (encode_frame(nullptr, ...));\<close> runs until the encoder has nothing left, which is up to the encoder:
  \<open>fuel\<close> rounds, \<open>None\<close> when they do not suffice.
\<close>

fun flush_encoder :: "nat \<Rightarrow> encoder \<Rightarrow> bool \<Rightarrow> test_files \<Rightarrow> (bool \<times> test_files) option" where
  "flush_encoder 0 enc rvalue f = None"
| "flush_encoder (Suc fuel) enc rvalue f =
     (case encode_frame enc False rvalue f of ((go, rvalue), f) \<Rightarrow>
        if go then flush_encoder fuel enc rvalue f else Some (rvalue, f))"

text \<open>
  The number of pictures is the number of times all three planes can be read: a picture of
  \<open>width * height\<close> samples and twice a quarter of it.
\<close>

definition picture_size :: "nat \<Rightarrow> nat \<Rightarrow> nat" where
  "picture_size width height = width * height + width * height div 4 + width * height div 4"

definition kvazaar_encode :: "nat \<Rightarrow> encoder \<Rightarrow> nat \<Rightarrow> nat \<Rightarrow> u8 list \<Rightarrow> (bool \<times> test_files) option" where
  "kvazaar_encode fuel enc width height input =
     (let f = \<lparr>tf_calls = 0, tf_output = [], tf_memory = [], tf_frees = 0\<rparr> in
      case encode_pictures enc (length input div picture_size width height) f of
        (False, f) \<Rightarrow> Some (False, f)
      | (True, f) \<Rightarrow> flush_encoder fuel enc False f)"

subsection \<open>What the two files hold\<close>

text \<open>
  The specification: one entry per call that put out data, in order. Each is a frame in the
  output file, and its size in the other.
\<close>

definition files_of :: "nat \<Rightarrow> u8 list list \<Rightarrow> test_files" where
  "files_of calls pics = \<lparr>tf_calls = calls, tf_output = concat pics,
     tf_memory = concat (map (\<lambda>x. le_bytes 8 (length x mod 2 ^ 64)) pics), tf_frees = 0\<rparr>"

lemma encode_frame_files:
  assumes "enc k input = Some cs"
  shows "encode_frame enc input rvalue (files_of k pics)
    = (if cs = [] \<and> \<not> input then (False, True) else (True, rvalue), files_of (k + 1) (pics @ (if cs = [] then [] else [concat cs])))"
  using assms by (auto simp: encode_frame_def files_of_def Let_def length_concat)

text \<open>The frames of a run of calls.\<close>

fun encoded :: "encoder \<Rightarrow> bool \<Rightarrow> nat \<Rightarrow> nat \<Rightarrow> u8 list list" where
  "encoded enc input k 0 = []"
| "encoded enc input k (Suc n) =
     (case enc k input of None \<Rightarrow> [] | Some cs \<Rightarrow> if cs = [] then [] else [concat cs]) @ encoded enc input (k + 1) n"

lemma encode_pictures_files:
  assumes "\<forall>i < n. enc (k + i) True \<noteq> None"
  shows "encode_pictures enc n (files_of k pics) = (True, files_of (k + n) (pics @ encoded enc True k n))"
  using assms
proof (induction n arbitrary: k pics)
  case (Suc n)
  obtain cs where cs: "enc k True = Some cs" using Suc.prems by force
  have "encode_frame enc True False (files_of k pics)
      = ((True, False), files_of (k + 1) (pics @ (if cs = [] then [] else [concat cs])))"
    using encode_frame_files [of enc k True cs False pics] cs by simp
  moreover have "\<forall>i < n. enc (Suc k + i) True \<noteq> None" using Suc.prems by auto
  ultimately show ?case
    using Suc.IH [of "Suc k"] cs by simp
qed simp

lemma flush_encoder_files:
  assumes "\<forall>i < m. \<exists>cs. cs \<noteq> [] \<and> enc (k + i) False = Some cs" and "enc (k + m) False = Some []" and "m < fuel"
  shows "flush_encoder fuel enc rvalue (files_of k pics)
    = Some (True, files_of (k + m + 1) (pics @ encoded enc False k m))"
  using assms
proof (induction m arbitrary: k pics fuel rvalue)
  case 0
  then obtain fuel' where "fuel = Suc fuel'" by (cases fuel) auto
  then show ?case using 0 by (simp add: encode_frame_def files_of_def)
next
  case (Suc m)
  obtain fuel' where f: "fuel = Suc fuel'" using Suc.prems(3) by (cases fuel) auto
  obtain cs where cs: "enc k False = Some cs" "cs \<noteq> []" using Suc.prems(1) by force
  have "encode_frame enc False rvalue (files_of k pics) = ((True, rvalue), files_of (k + 1) (pics @ [concat cs]))"
    using encode_frame_files [of enc k False cs rvalue pics] cs by simp
  moreover have "\<forall>i < m. \<exists>cs. cs \<noteq> [] \<and> enc (Suc k + i) False = Some cs" using Suc.prems(1) by auto
  ultimately show ?case
    using Suc.IH [of "Suc k" fuel'] Suc.prems(2,3) cs f by simp
qed

lemma slices_concat: "slices (pre @ concat pics @ post) (length pre) (map length pics) = pics"
proof (induction pics arbitrary: pre)
  case (Cons x pics)
  show ?case using Cons [of "pre @ x"] by simp
qed simp

text \<open>An encoder that takes every picture and, asked without one, empties itself in \<open>m\<close> calls.\<close>

definition drains :: "encoder \<Rightarrow> nat \<Rightarrow> nat \<Rightarrow> bool" where
  "drains enc n m \<longleftrightarrow> (\<forall>i < n. enc i True \<noteq> None)
     \<and> (\<forall>i < m. \<exists>cs. cs \<noteq> [] \<and> enc (n + i) False = Some cs) \<and> enc (n + m) False = Some []"

lemma kvazaar_encode_files:
  assumes "drains enc n m" and "n = length input div picture_size width height" and "m < fuel"
  shows "kvazaar_encode fuel enc width height input
    = Some (True, files_of (n + m + 1) (encoded enc True 0 n @ encoded enc False n m))"
proof -
  have init: "\<lparr>tf_calls = 0, tf_output = [], tf_memory = [], tf_frees = 0\<rparr> = files_of 0 []" by (simp add: files_of_def)
  have "encode_pictures enc n (files_of 0 []) = (True, files_of n (encoded enc True 0 n))"
    using encode_pictures_files [of n enc 0 "[]"] assms(1) by (simp add: drains_def)
  moreover have "flush_encoder fuel enc False (files_of n (encoded enc True 0 n))
      = Some (True, files_of (n + m + 1) (encoded enc True 0 n @ encoded enc False n m))"
    using assms(1,3) by (intro flush_encoder_files) (simp_all add: drains_def)
  ultimately show ?thesis
    unfolding kvazaar_encode_def init by (simp add: assms(2) Let_def)
qed

lemma sizes_of_files:
  assumes "\<forall>x \<in> set pics. length x < 2 ^ 64"
  shows "get_chunk_sizes (Some (tf_memory (files_of k pics))) [] = map length pics"
proof -
  have "tf_memory (files_of k pics) = concat (map (le_bytes 8) (map length pics)) @ []"
    using assms by (simp add: files_of_def) (rule arg_cong [where f = concat], simp)
  then show ?thesis
    using read_sizes_concat [of "map length pics" "[]" "[]"] assms by (simp add: get_chunk_sizes_def)
qed

subsection \<open>Properties\<close>

text \<open>
  Chunk sizes survive the file. \<open>get_chunk_sizes\<close> reads back exactly the 64-bit numbers that were written,
  behind those already in the vector, and ignores an incomplete number at the end.
\<close>

theorem get_chunk_sizes_roundtrip:
  assumes "\<forall>n \<in> set ns. n < 2 ^ 64" and "length tail < 8"
  shows "get_chunk_sizes (Some (concat (map (le_bytes 8) ns) @ tail)) acc = acc @ ns"
  using read_sizes_concat [OF assms] by (simp add: get_chunk_sizes_def)

theorem get_chunk_sizes_roundtrip_witness:
  "get_chunk_sizes (Some (concat (map (le_bytes 8) [300, 0, 70000]) @ [1, 2])) [5] = [5] @ [300, 0, 70000]"
  by (rule get_chunk_sizes_roundtrip) simp_all

text \<open>
  The size of a chunk file. Whatever the file holds, \<open>get_chunk_sizes\<close> reads one number per
  whole eight bytes, and each fits 64 bits.
\<close>

theorem get_chunk_sizes_bounds:
  "length (get_chunk_sizes (Some input) []) = length input div 8
    \<and> list_all (\<lambda>n. n < 2 ^ 64) (get_chunk_sizes (Some input) [])"
proof
  show "length (get_chunk_sizes (Some input) []) = length input div 8"
    by (simp add: get_chunk_sizes_def read_sizes_length)
  have "list_all (\<lambda>n. n < 2 ^ 64) acc \<Longrightarrow> list_all (\<lambda>n. n < 2 ^ 64) (read_sizes input acc)" for acc
  proof (induction input acc rule: read_sizes.induct)
    case (1 input acc)
    have "of_le (take 8 input) < 2 ^ 64" if "8 \<le> length input"
      using of_le_less [of "take 8 input"] that by (simp add: min_absorb2)
    then show ?case using 1 by (subst read_sizes.simps) simp
  qed
  then show "list_all (\<lambda>n. n < 2 ^ 64) (get_chunk_sizes (Some input) [])"
    by (simp add: get_chunk_sizes_def)
qed

lemma chunk_filename_dot:
  "CHR ''.'' \<notin> set ext \<Longrightarrow> get_chunk_filename (base @ CHR ''.'' # ext) = base @ CHR ''.'' # CHR ''m'' # ext"
  by (simp add: get_chunk_filename_def find_last_dot_append)

lemma chunk_filename_no_dot: "CHR ''.'' \<notin> set name \<Longrightarrow> get_chunk_filename name = ''.m''"
  by (simp add: get_chunk_filename_def find_last_dot_None)

lemma last_dot_unique:
  assumes "b @ CHR ''.'' # e = b' @ CHR ''.'' # e'" and "CHR ''.'' \<notin> set e" and "CHR ''.'' \<notin> set e'"
  shows "b = b' \<and> e = e'"
proof -
  have "Some (length b) = Some (length b')"
    using find_last_dot_append [OF assms(2)] find_last_dot_append [OF assms(3)] assms(1) by metis
  then show ?thesis using assms(1) by simp
qed

definition no_extension :: "string \<Rightarrow> bool" where
  "no_extension name \<longleftrightarrow> name = ''.'' \<or> CHR ''.'' \<notin> set name"

text \<open>
  The names of the chunk files. Two different input names have different chunk files, except
  that all names without an extension (and the name \<open>.\<close>) share the chunk file \<open>.m\<close>.
\<close>

theorem get_chunk_filename_distinct:
  "get_chunk_filename a = get_chunk_filename b
    \<longleftrightarrow> a = b \<or> (no_extension a \<and> no_extension b)"
proof -
  have shared: "get_chunk_filename n = ''.m'' \<longleftrightarrow> no_extension n" for n
  proof (cases "CHR ''.'' \<in> set n")
    case True
    then obtain base ext where n: "n = base @ CHR ''.'' # ext" "CHR ''.'' \<notin> set ext"
      by (metis split_list_last)
    then show ?thesis by (auto simp: no_extension_def chunk_filename_dot append_eq_Cons_conv)
  qed (simp add: chunk_filename_no_dot no_extension_def)
  have inj: "m = n" if eq: "get_chunk_filename m = get_chunk_filename n"
    and dm: "CHR ''.'' \<in> set m" and dn: "CHR ''.'' \<in> set n" for m n
  proof -
    obtain b e b' e' where m: "m = b @ CHR ''.'' # e" "CHR ''.'' \<notin> set e" and n: "n = b' @ CHR ''.'' # e'" "CHR ''.'' \<notin> set e'"
      using dm dn by (metis split_list_last)
    then have "b @ CHR ''.'' # (CHR ''m'' # e) = b' @ CHR ''.'' # (CHR ''m'' # e')"
      using eq by (simp add: chunk_filename_dot)
    then have "b = b' \<and> CHR ''m'' # e = CHR ''m'' # e'" using m(2) n(2) by (intro last_dot_unique) simp_all
    then show ?thesis using m n by simp
  qed
  show ?thesis using shared [of a] shared [of b] inj [of a b] by (metis chunk_filename_no_dot no_extension_def)
qed

text \<open>
  The files \<open>kvazaar_encode\<close> makes are what the senders expect. For an encoder that accepts all
  pictures and empties itself in the end, the encoding succeeds; the chunk file holds the
  sizes of the encoded frames in order, they add up to the output file, and \<open>sender_thread\<close> on the two
  files sends each encoded frame as one RTP frame, all of them if no push fails, on schedule.
\<close>

theorem encoded_files_feed_sender:
  assumes "drains enc n m" and "n = length input div picture_size width height" and "m < fuel"
    and "frames_out = encoded enc True 0 n @ encoded enc False n m" and "\<forall>x \<in> set frames_out. length x < 2 ^ 64"
    and "length frames_out * unat period < 2 ^ 64" and "length frames_out < 2 ^ 64"
  shows "\<exists>f r s ys. kvazaar_encode fuel enc width height input = Some (True, f)
    \<and> get_chunk_sizes (Some (tf_memory f)) [] = map length frames_out
    \<and> sum_list (map length frames_out) = length (tf_output f)
    \<and> sender_thread env (tf_output f) period (get_chunk_sizes (Some (tf_memory f)) []) = Inr (r, s)
    \<and> pushed (cs_world s) @ ys = frames_out
    \<and> (\<forall>k < length (w_log (cs_world s)). k * unat period \<le> fst (w_log (cs_world s) ! k))
    \<and> ((\<forall>k. e_push_ok env k) \<longrightarrow> ys = [])"
proof -
  define f where "f = files_of (n + m + 1) frames_out"
  have enc: "kvazaar_encode fuel enc width height input = Some (True, f)"
    using kvazaar_encode_files [OF assms(1-3)] by (simp add: f_def assms(4))
  have sizes: "get_chunk_sizes (Some (tf_memory f)) [] = map length frames_out"
    unfolding f_def by (rule sizes_of_files [OF assms(5)])
  have out: "tf_output f = concat frames_out" by (simp add: f_def files_of_def)
  have len: "sum_list (map length frames_out) = length (tf_output f)" by (simp add: out length_concat)
  have cut: "slices (tf_output f) 0 (map length frames_out) = frames_out"
    using slices_concat [of "[]" frames_out "[]"] by (simp add: out)
  obtain r s ys where "sender_thread env (tf_output f) period (map length frames_out) = Inr (r, s)"
    "\<forall>k < length (w_log (cs_world s)). k * unat period \<le> fst (w_log (cs_world s) ! k)"
    "pushed (cs_world s) @ ys = frames_out" "(\<forall>k. e_push_ok env k) \<longrightarrow> ys = []"
    using sender_thread_run [of "map length frames_out" "tf_output f" period env] assms(6,7) len cut by auto
  then show ?thesis using enc sizes len by (intro exI [of _ f] exI [of _ r] exI [of _ s] exI [of _ ys]) simp
qed

definition demo_encoder :: encoder where
  "demo_encoder k input = (if input then Some (if k = 0 then [] else [[1, 2], [3]]) else Some (if k = 2 then [[4]] else []))"

lemma demo_encoder_drains: "drains demo_encoder 2 1"
  by (simp add: drains_def demo_encoder_def)

lemma demo_encoder_frames: "[[1, 2, 3], [4]] = encoded demo_encoder True 0 2 @ encoded demo_encoder False 2 1"
  by (simp add: demo_encoder_def numeral_2_eq_2)

theorem encoded_files_feed_sender_witness:
  "\<exists>f r s ys. kvazaar_encode 5 demo_encoder 2 2 (replicate 12 0) = Some (True, f)
    \<and> get_chunk_sizes (Some (tf_memory f)) [] = map length [[1, 2, 3], [4 :: u8]]
    \<and> sum_list (map length [[1, 2, 3], [4 :: u8]]) = length (tf_output f)
    \<and> sender_thread demo_env (tf_output f) 40 (get_chunk_sizes (Some (tf_memory f)) []) = Inr (r, s)
    \<and> pushed (cs_world s) @ ys = [[1, 2, 3], [4]]
    \<and> (\<forall>k < length (w_log (cs_world s)). k * unat (40 :: u64) \<le> fst (w_log (cs_world s) ! k))
    \<and> ((\<forall>k. e_push_ok demo_env k) \<longrightarrow> ys = [])"
  by (rule encoded_files_feed_sender [OF demo_encoder_drains _ _ demo_encoder_frames])
    (simp_all add: picture_size_def)

end
