(* ===== verification/Decimal.thy ===== *)
theory Decimal
  imports Prelude
begin

section \<open>Numbers as text\<close>

text \<open>
  What the programs use of the standard library to print and to read numbers: \<open>operator<<\<close> and
  \<open>snprintf("%d")\<close> on integers, \<open>atoi\<close> on command line arguments, and the pattern \<open>/(\d+)/g\<close> with which
  \<open>parse.pl\<close> reads the result files. A string is the list of its characters.
\<close>

subsection \<open>Digits\<close>

definition digit :: "nat \<Rightarrow> char" where
  "digit d = char_of (48 + d)"

definition is_digit :: "char \<Rightarrow> bool" where
  "is_digit c \<longleftrightarrow> 48 \<le> (of_char c :: nat) \<and> (of_char c :: nat) \<le> 57"

definition digit_value :: "char \<Rightarrow> nat" where
  "digit_value c = of_char c - 48"

lemma of_char_digit: "d < 10 \<Longrightarrow> of_char (digit d) = 48 + d"
  by (simp add: digit_def of_char_of)

lemma digit_facts [simp]:
  assumes "d < 10"
  shows "is_digit (digit d)" "digit_value (digit d) = d"
  using assms by (simp_all add: is_digit_def digit_value_def of_char_digit)

subsection \<open>Printing\<close>

function show_nat :: "nat \<Rightarrow> string" where
  "show_nat n = (if n < 10 then [digit n] else show_nat (n div 10) @ [digit (n mod 10)])"
  by pat_completeness auto
termination by (relation "measure id") auto

declare show_nat.simps [simp del]

definition show_int :: "int \<Rightarrow> string" where
  "show_int i = (if i < 0 then CHR ''-'' # show_nat (nat (- i)) else show_nat (nat i))"

lemma show_nat_digits: "show_nat n \<noteq> [] \<and> list_all is_digit (show_nat n)"
proof (induction n rule: show_nat.induct)
  case (1 n)
  then show ?case by (subst (1 2) show_nat.simps) simp
qed

lemma show_nat_no_char: "\<not> is_digit c \<Longrightarrow> c \<notin> set (show_nat n)"
  using show_nat_digits [of n] by (auto simp: list_all_iff)

subsection \<open>atoi\<close>

definition is_space :: "char \<Rightarrow> bool" where
  "is_space c \<longleftrightarrow> (of_char c :: nat) = 32 \<or> (9 \<le> (of_char c :: nat) \<and> (of_char c :: nat) \<le> 13)"

text \<open>The value of the digits at the front, behind \<open>n\<close>.\<close>

fun read_digits :: "nat \<Rightarrow> string \<Rightarrow> nat" where
  "read_digits n [] = n"
| "read_digits n (c # cs) = (if is_digit c then read_digits (10 * n + digit_value c) cs else n)"

text \<open>White space, a sign, digits; whatever follows is ignored. A value outside \<open>int\<close> is undefined.\<close>

definition atoi :: "string \<Rightarrow> int res" where
  "atoi s =
     (let s = dropWhile is_space s;
          v = (case s of [] \<Rightarrow> 0
               | c # cs \<Rightarrow> if c = CHR ''-'' then - int (read_digits 0 cs)
                           else if c = CHR ''+'' then int (read_digits 0 cs) else int (read_digits 0 s)) in
      if - (2 ^ 31) \<le> v \<and> v < 2 ^ 31 then Inr v else Inl Int_Overflow)"

lemma read_digits_append:
  "list_all is_digit xs \<Longrightarrow> read_digits n (xs @ ys) = read_digits (read_digits n xs) ys"
  by (induction xs arbitrary: n) auto

lemma read_show_nat: "read_digits 0 (show_nat n) = n"
proof (induction n rule: show_nat.induct)
  case (1 n)
  show ?case
  proof (cases "n < 10")
    case True
    then show ?thesis by (subst show_nat.simps) simp
  next
    case False
    then have "read_digits 0 (show_nat n) = read_digits (n div 10) [digit (n mod 10)]"
      using 1 show_nat_digits [of "n div 10"] by (subst show_nat.simps) (simp add: read_digits_append)
    then show ?thesis by simp
  qed
qed

lemma digit_not_space: "is_digit c \<Longrightarrow> \<not> is_space c \<and> c \<noteq> CHR ''-'' \<and> c \<noteq> CHR ''+''"
  by (auto simp: is_digit_def is_space_def)

lemma atoi_show_int:
  assumes "- (2 ^ 31) \<le> i" and "i < 2 ^ 31"
  shows "atoi (show_int i) = Inr i"
proof -
  obtain c cs where n: "show_nat (nat \<bar>i\<bar>) = c # cs" "is_digit c"
    using show_nat_digits [of "nat \<bar>i\<bar>"] by (cases "show_nat (nat \<bar>i\<bar>)") auto
  have v: "int (read_digits 0 (c # cs)) = \<bar>i\<bar>" using read_show_nat [of "nat \<bar>i\<bar>"] n(1) by simp
  have minus: "\<not> is_space (CHR ''-'')" by (simp add: is_space_def)
  show ?thesis
    using assms n v minus digit_not_space [OF n(2)]
    by (auto simp: atoi_def show_int_def Let_def abs_if split: if_splits)
qed

lemma atoi_show_nat: "n < 2 ^ 31 \<Longrightarrow> atoi (show_nat n) = Inr (int n)"
  using atoi_show_int [of "int n"] by (simp add: show_int_def)

lemma atoi_no_number: "s = [] \<or> \<not> is_digit (hd s) \<and> \<not> is_space (hd s) \<and> hd s \<notin> {CHR ''-'', CHR ''+''} \<Longrightarrow> atoi s = Inr 0"
  by (cases s) (auto simp: atoi_def)

subsection \<open>The numbers of a line\<close>

text \<open>\<open>my @nums = $line =~ /(\d+)/g\<close>: all longest runs of digits. The first argument is the run being read.\<close>

fun match_digits :: "nat option \<Rightarrow> string \<Rightarrow> nat list" where
  "match_digits run [] = (case run of None \<Rightarrow> [] | Some n \<Rightarrow> [n])"
| "match_digits run (c # cs) =
     (if is_digit c then match_digits (Some (10 * (case run of None \<Rightarrow> 0 | Some n \<Rightarrow> n) + digit_value c)) cs
      else (case run of None \<Rightarrow> [] | Some n \<Rightarrow> [n]) @ match_digits None cs)"

definition nums :: "string \<Rightarrow> nat list" where
  "nums line = match_digits None line"

lemma match_digits_run:
  "list_all is_digit xs \<Longrightarrow> match_digits (Some n) (xs @ ys) = match_digits (Some (read_digits n xs)) ys"
  by (induction xs arbitrary: n) auto

lemma match_digits_show: "match_digits None (show_nat n @ ys) = match_digits (Some n) ys"
proof -
  obtain c cs where n: "show_nat n = c # cs" "is_digit c" "list_all is_digit cs"
    using show_nat_digits [of n] by (cases "show_nat n") auto
  have "read_digits (digit_value c) cs = n" using read_show_nat [of n] n by simp
  then show ?thesis using n by (simp add: match_digits_run)
qed

end
