(* ===== verification/Result_Files.thy ===== *)
theory Result_Files
  imports Decimal
begin

section \<open>Files\<close>

text \<open>
  The files the programs read and write: \<open>get_mem\<close> and the result writers of \<open>util/util.cc\<close>, \<open>get_size\<close>
  and \<open>get_cmem\<close> of \<open>uvgrtp/v3c_util.cc\<close>. A disk maps names to contents and says which names may be
  opened for reading and for writing. How \<open>parse.pl\<close> reads the numbers of a result file again is
  modelled with it.
\<close>

record disk =
  d_files :: "string \<rightharpoonup> u8 list"
  d_readable :: "string \<Rightarrow> bool"
  d_writable :: "string \<Rightarrow> bool"

text \<open>Opening for reading.\<close>

definition open_in :: "string \<Rightarrow> disk \<Rightarrow> u8 list option" where
  "open_in name d = (if d_readable d name then d_files d name else None)"

text \<open>Opening for writing: \<open>out\<close> empties the file, \<open>app\<close> keeps what it holds.\<close>

definition truncate_file :: "string \<Rightarrow> disk \<Rightarrow> disk" where
  "truncate_file name d = (if d_writable d name then d\<lparr>d_files := (d_files d)(name \<mapsto> [])\<rparr> else d)"

definition append_file :: "string \<Rightarrow> u8 list \<Rightarrow> disk \<Rightarrow> disk" where
  "append_file name xs d =
     (if d_writable d name
      then d\<lparr>d_files := (d_files d)(name \<mapsto> (case d_files d name of None \<Rightarrow> [] | Some ys \<Rightarrow> ys) @ xs)\<rparr> else d)"

definition text_bytes :: "string \<Rightarrow> u8 list" where
  "text_bytes s = map (\<lambda>c. word_of_nat (of_char c)) s"

definition file_text :: "u8 list \<Rightarrow> string" where
  "file_text xs = map (\<lambda>b. char_of (unat b)) xs"

definition newline :: char where
  "newline = CHR 0x0A"

subsection \<open>get_mem\<close>

text \<open>What \<open>get_mem\<close> returns: \<open>mmap\<close> of an empty file fails, and its \<open>MAP_FAILED\<close> is no null pointer.\<close>

datatype memory = Null | Map_Failed | Mapped "u8 list"

definition get_mem :: "string \<Rightarrow> nat \<Rightarrow> disk \<Rightarrow> memory \<times> nat" where
  "get_mem filename len d =
     (case d_files d filename of
        None \<Rightarrow> (Null, len)
      | Some xs \<Rightarrow>
          if \<not> d_readable d filename then (Null, len)
          else if xs = [] then (Map_Failed, 0) else (Mapped xs, length xs))"

text \<open>The bytes that may be read through the pointer.\<close>

fun reachable :: "memory \<Rightarrow> u8 list" where
  "reachable (Mapped xs) = xs"
| "reachable Null = []"
| "reachable Map_Failed = []"

subsection \<open>get_size and get_cmem\<close>

text \<open>\<open>tellg\<close> is \<open>-1\<close> on a stream that is not open.\<close>

definition get_size :: "string \<Rightarrow> disk \<Rightarrow> u64" where
  "get_size filename d = (case open_in filename d of None \<Rightarrow> - 1 | Some xs \<Rightarrow> word_of_nat (length xs))"

definition get_cmem :: "string \<Rightarrow> disk \<Rightarrow> u8 list res" where
  "get_cmem filename d = (case open_in filename d of None \<Rightarrow> Inl Bad_Alloc | Some xs \<Rightarrow> Inr xs)"

subsection \<open>Result lines\<close>

definition write_send_results_to_file :: "string \<Rightarrow> nat \<Rightarrow> u64 \<Rightarrow> disk \<Rightarrow> disk" where
  "write_send_results_to_file filename bytes diff =
     append_file filename (text_bytes (show_nat bytes @ '' bytes, '' @ show_nat (bytes div 1000) @ '' kB, ''
       @ show_nat (bytes div 1000000) @ '' MB took '' @ show_nat (unat diff) @ '' ms '' @ show_nat (unat diff div 1000)
       @ '' s'' @ [newline]))"

definition write_receive_results_to_file :: "string \<Rightarrow> nat \<Rightarrow> nat \<Rightarrow> u64 \<Rightarrow> disk \<Rightarrow> disk" where
  "write_receive_results_to_file filename bytes packets diff_ms =
     append_file filename (text_bytes (show_nat bytes @ '' '' @ show_nat packets @ '' '' @ show_nat (unat diff_ms) @ [newline]))"

text \<open>The averages are \<open>float\<close>: how one is printed is a parameter.\<close>

definition write_latency_results_to_file ::
  "('f \<Rightarrow> string) \<Rightarrow> string \<Rightarrow> nat \<Rightarrow> 'f \<Rightarrow> 'f \<Rightarrow> 'f \<Rightarrow> disk \<Rightarrow> disk" where
  "write_latency_results_to_file show_float filename frame_count avg_intra avg_inter avg =
     append_file filename (text_bytes (show_nat frame_count @ '';'' @ show_float avg_intra @ '';'' @ show_float avg_inter
       @ '';'' @ show_float avg @ [newline]))"

subsection \<open>Reading them again\<close>

text \<open>\<open>while (my $line = <$fh>)\<close>: the lines with their line ends; \<open>cur\<close> is the line being read.\<close>

fun lines_from :: "string \<Rightarrow> string \<Rightarrow> string list" where
  "lines_from cur [] = (if cur = [] then [] else [cur])"
| "lines_from cur (c # cs) =
     (if c = newline then (cur @ [c]) # lines_from [] cs else lines_from (cur @ [c]) cs)"

text \<open>The numbers of every line of a file.\<close>

definition result_nums :: "string \<Rightarrow> disk \<Rightarrow> nat list list" where
  "result_nums filename d =
     (case open_in filename d of None \<Rightarrow> [] | Some xs \<Rightarrow> map nums (lines_from [] (file_text xs)))"

lemma file_text_append: "file_text (xs @ ys) = file_text xs @ file_text ys"
  by (simp add: file_text_def)

lemma file_text_bytes [simp]: "file_text (text_bytes s) = s"
proof -
  have "unat (word_of_nat (of_char c) :: u8) = of_char c" for c :: char
    by (simp add: unsigned_of_nat take_bit_nat_eq_self)
  then show ?thesis by (simp add: file_text_def text_bytes_def comp_def)
qed

lemma newline_facts: "\<not> is_digit newline" "newline \<notin> set (show_nat n)"
proof -
  have "of_char newline = (10 :: nat)" by (simp add: newline_def)
  then show d: "\<not> is_digit newline" by (simp add: is_digit_def)
  show "newline \<notin> set (show_nat n)" using d by (rule show_nat_no_char)
qed

lemma newline_char: "newline = CHR 0x0A"
  by (simp add: newline_def)

lemma lines_from_line:
  "newline \<notin> set line \<Longrightarrow> lines_from cur (line @ newline # after) = (cur @ line @ [newline]) # lines_from [] after"
  by (induction line arbitrary: cur) auto

lemma lines_from_lines:
  assumes "ys = [] \<or> last ys = newline"
  shows "lines_from cur (ys @ zs) = (if ys = [] then lines_from cur zs else lines_from cur ys @ lines_from [] zs)"
  using assms
proof (induction ys arbitrary: cur)
  case (Cons y ys)
  then show ?case by (cases "ys = []") auto
qed simp

text \<open>A file that grows line by line.\<close>

definition whole_lines :: "string \<Rightarrow> disk \<Rightarrow> bool" where
  "whole_lines name d \<longleftrightarrow> d_readable d name \<and> d_writable d name
     \<and> (\<forall>xs. d_files d name = Some xs \<longrightarrow> xs = [] \<or> last (file_text xs) = newline)"

lemma append_line:
  assumes "whole_lines name d" and "newline \<notin> set line"
  shows "whole_lines name (append_file name (text_bytes (line @ [newline])) d)"
    and "result_nums name (append_file name (text_bytes (line @ [newline])) d) = result_nums name d @ [nums (line @ [newline])]"
proof -
  let ?l = "text_bytes (line @ [newline])"
  have l: "file_text ?l = line @ [newline]" by simp
  show "whole_lines name (append_file name ?l d)"
    using assms(1) l by (auto simp: whole_lines_def append_file_def file_text_append)
  show "result_nums name (append_file name ?l d) = result_nums name d @ [nums (line @ [newline])]"
  proof (cases "d_files d name")
    case None
    then show ?thesis
      using assms lines_from_line [OF assms(2), of "[]" "[]"]
      by (simp add: result_nums_def open_in_def whole_lines_def append_file_def)
  next
    case (Some xs)
    have "file_text xs = [] \<or> last (file_text xs) = newline"
      using assms(1) Some by (auto simp: whole_lines_def file_text_def)
    then have "lines_from [] (file_text xs @ line @ [newline]) = lines_from [] (file_text xs) @ [line @ [newline]]"
      using lines_from_lines [of "file_text xs" "[]" "line @ [newline]"] lines_from_line [OF assms(2), of "[]" "[]"] by auto
    then show ?thesis
      using assms(1) Some by (simp add: result_nums_def open_in_def whole_lines_def append_file_def file_text_append)
  qed
qed

named_theorems match_simps \<open>the pattern on a line with numbers and words\<close>

lemma match_digits_other [match_simps]:
  "\<not> is_digit c \<Longrightarrow> match_digits (Some n) (c # cs) = n # match_digits None cs"
  "\<not> is_digit c \<Longrightarrow> match_digits None (c # cs) = match_digits None cs"
  by simp_all

lemmas [match_simps] = match_digits_show newline_facts(1) is_digit_def

lemma send_line_nums:
  "nums (show_nat b @ '' bytes, '' @ show_nat k @ '' kB, '' @ show_nat m @ '' MB took '' @ show_nat t @ '' ms '' @ show_nat s
    @ '' s'' @ [newline]) = [b, k, m, t, s]"
  by (simp add: nums_def match_simps del: match_digits.simps(2)) (simp add: newline_def is_digit_def)

lemma receive_line_nums:
  "nums (show_nat b @ '' '' @ show_nat p @ '' '' @ show_nat t @ [newline]) = [b, p, t]"
  by (simp add: nums_def match_simps del: match_digits.simps(2)) (simp add: newline_def is_digit_def)

text \<open>One result, written and read.\<close>

lemma write_send_line:
  assumes "whole_lines name d"
  shows "whole_lines name (write_send_results_to_file name b t d)"
    and "result_nums name (write_send_results_to_file name b t d)
      = result_nums name d @ [[b, b div 1000, b div 1000000, unat t, unat t div 1000]]"
proof -
  let ?line = "show_nat b @ '' bytes, '' @ show_nat (b div 1000) @ '' kB, ''
       @ show_nat (b div 1000000) @ '' MB took '' @ show_nat (unat t) @ '' ms '' @ show_nat (unat t div 1000) @ '' s''"
  have n: "newline \<notin> set ?line" by (simp add: newline_facts(2)) (simp add: newline_char)
  have w: "write_send_results_to_file name b t d = append_file name (text_bytes (?line @ [newline])) d"
    by (simp add: write_send_results_to_file_def)
  show "whole_lines name (write_send_results_to_file name b t d)"
    unfolding w by (rule append_line [OF assms n])
  have "nums (?line @ [newline]) = [b, b div 1000, b div 1000000, unat t, unat t div 1000]"
    using send_line_nums [of b "b div 1000" "b div 1000000" "unat t" "unat t div 1000"] by simp
  then show "result_nums name (write_send_results_to_file name b t d)
      = result_nums name d @ [[b, b div 1000, b div 1000000, unat t, unat t div 1000]]"
    unfolding w by (simp only: append_line(2) [OF assms n])
qed

lemma write_receive_line:
  assumes "whole_lines name d"
  shows "whole_lines name (write_receive_results_to_file name b p t d)"
    and "result_nums name (write_receive_results_to_file name b p t d) = result_nums name d @ [[b, p, unat t]]"
proof -
  let ?line = "show_nat b @ '' '' @ show_nat p @ '' '' @ show_nat (unat t)"
  have n: "newline \<notin> set ?line" by (simp add: newline_facts(2)) (simp add: newline_char)
  have w: "write_receive_results_to_file name b p t d = append_file name (text_bytes (?line @ [newline])) d"
    by (simp add: write_receive_results_to_file_def)
  show "whole_lines name (write_receive_results_to_file name b p t d)"
    unfolding w by (rule append_line [OF assms n])
  have "nums (?line @ [newline]) = [b, p, unat t]"
    using receive_line_nums [of b p "unat t"] by simp
  then show "result_nums name (write_receive_results_to_file name b p t d) = result_nums name d @ [[b, p, unat t]]"
    unfolding w by (simp only: append_line(2) [OF assms n])
qed

lemma send_lines_nums:
  assumes "whole_lines name d"
  shows "result_nums name (fold (\<lambda>(b, t). write_send_results_to_file name b t) rs d)
    = result_nums name d @ map (\<lambda>(b, t). [b, b div 1000, b div 1000000, unat t, unat t div 1000]) rs"
  using assms by (induction rs arbitrary: d) (auto simp: write_send_line)

lemma receive_lines_nums:
  assumes "whole_lines name d"
  shows "result_nums name (fold (\<lambda>(b, p, t). write_receive_results_to_file name b p t) rs d)
    = result_nums name d @ map (\<lambda>(b, p, t). [b, p, unat t]) rs"
  using assms by (induction rs arbitrary: d) (auto simp: write_receive_line)

subsection \<open>Properties\<close>

text \<open>
  C17: results survive the result file. Whatever has been appended to a file of whole lines by the
  senders, or by the receivers, the digit pattern of \<open>parse.pl\<close> finds in the next lines exactly the numbers
  that were passed to the writer, one line per call and in order: for a sender the bytes at index
  0 and the milliseconds at index 3, for a receiver bytes, packets and milliseconds.
\<close>

theorem results_read_back:
  assumes "whole_lines name d"
  shows "result_nums name (fold (\<lambda>(b, t). write_send_results_to_file name b t) sent d)
      = result_nums name d @ map (\<lambda>(b, t). [b, b div 1000, b div 1000000, unat t, unat t div 1000]) sent
    \<and> result_nums name (fold (\<lambda>(b, p, t). write_receive_results_to_file name b p t) received d)
      = result_nums name d @ map (\<lambda>(b, p, t). [b, p, unat t]) received"
  using send_lines_nums [OF assms] receive_lines_nums [OF assms] by blast

definition empty_disk :: disk where
  "empty_disk = \<lparr>d_files = Map.empty, d_readable = \<lambda>_. True, d_writable = \<lambda>_. True\<rparr>"

theorem results_read_back_witness:
  "result_nums ''out'' (fold (\<lambda>(b, t). write_send_results_to_file ''out'' b t) [(1234567, 2500), (7, 0)] empty_disk)
      = result_nums ''out'' empty_disk @ map (\<lambda>(b, t). [b, b div 1000, b div 1000000, unat t, unat t div 1000]) [(1234567, 2500 :: u64), (7, 0)]
    \<and> result_nums ''out'' (fold (\<lambda>(b, p, t). write_receive_results_to_file ''out'' b p t) [(1000, 604, 20)] empty_disk)
      = result_nums ''out'' empty_disk @ map (\<lambda>(b, p, t). [b, p, unat t]) [(1000, 604, 20 :: u64)]"
  by (rule results_read_back) (simp add: whole_lines_def empty_disk_def)

end
