(* ===== verification/Test_File_Creation.thy ===== *)
theory Test_File_Creation
  imports Chunk_Files Result_Files
begin

section \<open>Creating a test file\<close>

text \<open>
  The program \<open>util/test_file_creation.cc\<close> around the encoding loop of \<open>Chunk_Files\<close>: its command line,
  the files it opens, the encoder it configures, and the library calls with which it cleans up. The
  Kvazaar library is a parameter: whether \<open>encoder_open\<close> and \<open>picture_alloc\<close> succeed, and what the
  encoder then does.
\<close>

record kvz_config =
  kc_preset :: string
  kc_width :: int
  kc_height :: int
  kc_hash_none :: bool
  kc_intra_period :: int
  kc_qp :: int
  kc_framerate_num :: int
  kc_framerate_denom :: int

record kvazaar =
  kz_open :: "kvz_config \<Rightarrow> encoder option"          \<comment> \<open>none for a null pointer\<close>
  kz_picture_alloc :: "int \<Rightarrow> int \<Rightarrow> bool"

datatype kvz_call = Encoder_Close | Config_Destroy | Picture_Free

text \<open>The calls on the pointers that are not null; \<open>api\<close> never is.\<close>

definition cleanup_kvazaar :: "bool \<Rightarrow> bool \<Rightarrow> bool \<Rightarrow> kvz_call list" where
  "cleanup_kvazaar input enc config =
     (if enc then [Encoder_Close] else []) @ (if config then [Config_Destroy] else []) @ (if input then [Picture_Free] else [])"

definition make_config :: "string \<Rightarrow> int \<Rightarrow> int \<Rightarrow> int \<Rightarrow> int \<Rightarrow> int \<Rightarrow> kvz_config" where
  "make_config preset width height qp fps period = \<lparr>kc_preset = preset, kc_width = width, kc_height = height,
     kc_hash_none = True, kc_intra_period = period, kc_qp = qp, kc_framerate_num = fps, kc_framerate_denom = 1\<rparr>"

text \<open>
  \<open>kvazaar_encode\<close>: the exit status, the calls that free what was allocated, and the disk. The two output files are
  opened, and so emptied, before the input is looked at. \<open>width * height\<close> is an \<open>int\<close>
  and the number of bytes to read. The inner \<open>None\<close> is an encoder that was not empty after \<open>fuel\<close> calls.
\<close>

definition open_and_encode ::
  "nat \<Rightarrow> kvazaar \<Rightarrow> string \<Rightarrow> string \<Rightarrow> string \<Rightarrow> int \<Rightarrow> int \<Rightarrow> int \<Rightarrow> int \<Rightarrow> int \<Rightarrow> string \<Rightarrow> disk
    \<Rightarrow> (int \<times> kvz_call list \<times> disk) option res" where
  "open_and_encode fuel kz input output memory_filename width height qp fps period preset d =
     (let input_good = open_in input d \<noteq> None;
          output_good = d_writable d output; memory_good = d_writable d memory_filename;
          d = truncate_file memory_filename (truncate_file output d) in
      if \<not> input_good then Inr (Some (EXIT_FAILURE, [], d))
      else if \<not> output_good \<or> \<not> memory_good then Inr (Some (EXIT_FAILURE, [], d))
      else
        let enc = kz_open kz (make_config preset width height qp fps period);
            img_in = kz_picture_alloc kz width height in
        case enc of
          None \<Rightarrow> Inr (Some (EXIT_FAILURE, cleanup_kvazaar img_in False True, d))
        | Some encode \<Rightarrow>
          if \<not> img_in then Inr (Some (EXIT_FAILURE, cleanup_kvazaar False True True, d))
          else if width * height < 0 \<or> 2 ^ 31 \<le> width * height then Inl Int_Overflow
          else Inr (case kvazaar_encode fuel encode (nat \<bar>width\<bar>) (nat \<bar>height\<bar>) (the (d_files d input)) of
                 None \<Rightarrow> None
               | Some (rvalue, f) \<Rightarrow>
                   Some (if rvalue then EXIT_SUCCESS else EXIT_FAILURE,
                     replicate (tf_frees f) Picture_Free @ cleanup_kvazaar True True True,
                     append_file memory_filename (tf_memory f) (append_file output (tf_output f) d))))"

definition test_file_main :: "nat \<Rightarrow> kvazaar \<Rightarrow> string list \<Rightarrow> disk \<Rightarrow> (int \<times> kvz_call list \<times> disk) option res" where
  "test_file_main fuel kz argv d =
     (if length argv \<noteq> 8 then Inr (Some (EXIT_FAILURE, [], d))
      else let input_file = argv ! 1; output_file = output_name input_file; mem_file = get_chunk_filename output_file in
        rbind (atoi (argv ! 2)) (\<lambda>width. rbind (atoi (argv ! 3)) (\<lambda>height.
        rbind (atoi (argv ! 4)) (\<lambda>qp. rbind (atoi (argv ! 5)) (\<lambda>fps. rbind (atoi (argv ! 6)) (\<lambda>intra_period.
        let preset = argv ! 7 in
        if width = 0 \<or> height = 0 \<or> qp = 0 \<or> fps = 0 \<or> intra_period = 0 \<or> preset = ''''
        then Inr (Some (EXIT_FAILURE, [], d))
        else open_and_encode fuel kz input_file output_file mem_file width height qp fps intra_period preset d))))))"

subsection \<open>Names\<close>

lemma output_name_dot: "\<exists>base. output_name name = base @ CHR ''.'' # ''hevc''"
proof -
  let ?b = "case find_last_dot name of None \<Rightarrow> name | Some i \<Rightarrow> take i name"
  have "output_name name = (if name = ?b @ ''.hevc'' then ''out_'' @ ?b else ?b) @ CHR ''.'' # ''hevc''"
    by (simp add: output_name_def Let_def)
  then show ?thesis by blast
qed

lemma output_name_other: "output_name name \<noteq> name"
proof -
  have "length (''out_'' @ xs) \<noteq> length xs" for xs :: string by simp
  then have "''out_'' @ xs \<noteq> xs" for xs :: string by metis
  then show ?thesis by (simp add: output_name_def Let_def)
qed

lemma chunk_name_other: "get_chunk_filename (output_name name) \<noteq> output_name name"
proof -
  obtain base where "output_name name = base @ CHR ''.'' # ''hevc''" using output_name_dot by blast
  then show ?thesis by (simp add: chunk_filename_dot)
qed

subsection \<open>What is freed\<close>

lemma encode_pictures_frees:
  "encode_pictures enc n f = (go, f') \<Longrightarrow> tf_frees f' = tf_frees f + (if go then 0 else 16)"
proof (induction n arbitrary: f)
  case (Suc n)
  then show ?case
    by (cases "enc (tf_calls f) True") (auto simp: encode_frame_def Let_def split: if_splits)
qed simp

lemma flush_encoder_frees: "flush_encoder fuel enc r f = Some (r', f') \<Longrightarrow> tf_frees f' = tf_frees f"
proof (induction fuel arbitrary: r f)
  case (Suc fuel)
  then show ?case
    by (cases "enc (tf_calls f) False") (auto simp: encode_frame_def Let_def split: if_splits)
qed simp

text \<open>The encoder fails on one of the first \<open>n\<close> pictures.\<close>

definition fails_on_picture :: "encoder \<Rightarrow> nat \<Rightarrow> bool" where
  "fails_on_picture enc n \<longleftrightarrow> (\<exists>k < n. enc k True = None)"

lemma encode_pictures_go: "fst (encode_pictures enc n f) \<longleftrightarrow> (\<forall>k < n. enc (tf_calls f + k) True \<noteq> None)"
proof (induction n arbitrary: f)
  case (Suc n)
  show ?case
  proof (cases "enc (tf_calls f) True")
    case None
    then show ?thesis by (auto simp: encode_frame_def Let_def)
  next
    case (Some cs)
    have calls: "(\<forall>k < n. enc (Suc (tf_calls f + k)) True \<noteq> None) \<longleftrightarrow> (\<forall>k < Suc n. enc (tf_calls f + k) True \<noteq> None)"
      using Some by (simp add: All_less_Suc2)
    show ?thesis
      unfolding calls [symmetric] using Some Suc.IH by (auto simp: encode_frame_def Let_def)
  qed
qed simp

lemma kvazaar_encode_frees:
  assumes "kvazaar_encode fuel enc width height input = Some (r, f)" and "n = length input div picture_size width height"
  shows "tf_frees f = (if fails_on_picture enc n then 16 else 0)"
proof -
  define f0 where "f0 = \<lparr>tf_calls = 0, tf_output = [], tf_memory = [], tf_frees = 0\<rparr>"
  obtain go f1 where e: "encode_pictures enc n f0 = (go, f1)" by (cases "encode_pictures enc n f0") auto
  have "go \<longleftrightarrow> \<not> fails_on_picture enc n"
    using encode_pictures_go [of enc n f0] e by (auto simp: f0_def fails_on_picture_def)
  moreover have "tf_frees f1 = (if go then 0 else 16)" using encode_pictures_frees [OF e] by (simp add: f0_def)
  moreover have "if go then flush_encoder fuel enc False f1 = Some (r, f) else f = f1"
    using assms e unfolding kvazaar_encode_def f0_def [symmetric] by (cases go) (simp_all add: Let_def)
  ultimately show ?thesis using flush_encoder_frees by (metis (full_types))
qed

lemma kvazaar_encode_fails:
  assumes "fails_on_picture enc (length input div picture_size width height)"
  shows "\<exists>f. kvazaar_encode fuel enc width height input = Some (False, f)"
proof -
  let ?r = "encode_pictures enc (length input div picture_size width height)
    \<lparr>tf_calls = 0, tf_output = [], tf_memory = [], tf_frees = 0\<rparr>"
  have "\<not> fst ?r" using assms by (auto simp: encode_pictures_go fails_on_picture_def)
  then obtain f where "?r = (False, f)" by (cases ?r) auto
  then show ?thesis by (simp add: kvazaar_encode_def Let_def)
qed

text \<open>A setup in which everything up to the encoding works.\<close>

definition ready_to_encode ::
  "kvazaar \<Rightarrow> encoder \<Rightarrow> kvz_config \<Rightarrow> string \<Rightarrow> string \<Rightarrow> string \<Rightarrow> u8 list \<Rightarrow> disk \<Rightarrow> bool" where
  "ready_to_encode kz enc config input output memory_filename raw d \<longleftrightarrow>
     open_in input d = Some raw \<and> input \<notin> {output, memory_filename} \<and> d_writable d output \<and> d_writable d memory_filename
     \<and> kz_open kz config = Some enc \<and> kz_picture_alloc kz (kc_width config) (kc_height config)
     \<and> 0 \<le> kc_width config * kc_height config \<and> kc_width config * kc_height config < 2 ^ 31"

lemma open_and_encode_ready:
  assumes "ready_to_encode kz enc (make_config preset w h qp fps period) input output memory_filename raw d"
  shows "open_and_encode fuel kz input output memory_filename w h qp fps period preset d
    = Inr (case kvazaar_encode fuel enc (nat \<bar>w\<bar>) (nat \<bar>h\<bar>) raw of None \<Rightarrow> None
        | Some (rvalue, f) \<Rightarrow> Some (if rvalue then EXIT_SUCCESS else EXIT_FAILURE,
            replicate (tf_frees f) Picture_Free @ [Encoder_Close, Config_Destroy, Picture_Free],
            append_file memory_filename (tf_memory f) (append_file output (tf_output f)
              (truncate_file memory_filename (truncate_file output d)))))"
  using assms
  by (cases "kvazaar_encode fuel enc (nat \<bar>w\<bar>) (nat \<bar>h\<bar>) raw")
    (simp_all add: open_and_encode_def ready_to_encode_def make_config_def cleanup_kvazaar_def truncate_file_def
      open_in_def Let_def case_prod_beta split: if_splits)

lemma count_list_replicate: "count_list (replicate n x) y = (if x = y then n else 0)"
  by (induction n) auto


definition failing_encoder :: encoder where
  "failing_encoder k input = (if k = 0 then Some [] else None)"

definition demo_kvazaar :: "encoder \<Rightarrow> kvazaar" where
  "demo_kvazaar enc = \<lparr>kz_open = \<lambda>c. Some enc, kz_picture_alloc = \<lambda>w h. True\<rparr>"

definition demo_disk :: "string \<Rightarrow> u8 list \<Rightarrow> disk" where
  "demo_disk name raw = empty_disk\<lparr>d_files := [name \<mapsto> raw]\<rparr>"

lemma demo_ready:
  "name \<notin> {output, mem} \<Longrightarrow> 0 \<le> kc_width c * kc_height c \<Longrightarrow> kc_width c * kc_height c < 2 ^ 31
    \<Longrightarrow> ready_to_encode (demo_kvazaar enc) enc c name output mem raw (demo_disk name raw)"
  by (simp add: ready_to_encode_def demo_kvazaar_def demo_disk_def empty_disk_def open_in_def)


end
