(* ===== verification/Session_Setup.thy ===== *)
theory Session_Setup
  imports V3C_Types
begin

section \<open>Setting up the two ends\<close>

text \<open>
  How the tests create their media streams: \<open>intialize_uvgrtp\<close> and \<open>cleanup_uvgrtp\<close> of
  \<open>uvgrtp/uvgrtp_util.hh\<close>, \<open>init_v3c_streams\<close> of \<open>uvgrtp/v3c_util.cc\<close>, the SRTP keys
  and ports the programs hand to the library, and the choice of these from the command line. The
  library is not part of the sources: a stream is the record of the calls made on it.
\<close>

subsection \<open>A media stream\<close>

datatype rtp_format = RTP_FORMAT_H265 | RTP_FORMAT_H266 | RTP_FORMAT_ATLAS

datatype rce_flag = RCE_PACE_FRAGMENT_SENDING | RCE_SRTP | RCE_SRTP_KMNGMNT_USER
  | RCE_SRTP_KEYSIZE_256 | RCE_NO_H26X_PREPEND_SC

datatype rcc = RCC_UDP_RCV_BUF_SIZE | RCC_UDP_SND_BUF_SIZE | RCC_RING_BUFFER_SIZE | RCC_PKT_MAX_DELAY
  | RCC_POLL_TIMEOUT | RCC_SSRC | RCC_REMOTE_SSRC | RCC_FPS_NUMERATOR

record media_stream =
  ms_local_port :: u16
  ms_remote_port :: u16
  ms_format :: rtp_format
  ms_flags :: "rce_flag set"
  ms_srtp :: "(u8 list \<times> u8 list) option"   \<comment> \<open>key and salt\<close>
  ms_options :: "rcc \<rightharpoonup> int"

definition create_stream :: "u16 \<Rightarrow> u16 \<Rightarrow> rtp_format \<Rightarrow> rce_flag set \<Rightarrow> media_stream" where
  "create_stream src_port dst_port fmt flags = \<lparr>ms_local_port = src_port, ms_remote_port = dst_port, ms_format = fmt,
     ms_flags = flags, ms_srtp = None, ms_options = Map.empty\<rparr>"

definition configure_ctx :: "rcc \<Rightarrow> int \<Rightarrow> media_stream \<Rightarrow> media_stream" where
  "configure_ctx opt v m = m\<lparr>ms_options := (ms_options m)(opt \<mapsto> v)\<rparr>"

definition add_srtp_ctx :: "u8 list \<times> u8 list \<Rightarrow> media_stream \<Rightarrow> media_stream" where
  "add_srtp_ctx ks m = m\<lparr>ms_srtp := Some ks\<rparr>"

text \<open>\<open>for (int i = 0; i < n; ++i) a[i] = f(i)\<close> on an array of bytes.\<close>

definition fill :: "(nat \<Rightarrow> nat) \<Rightarrow> nat \<Rightarrow> u8 list \<Rightarrow> u8 list" where
  "fill f n a = fold (\<lambda>i a. a[i := word_of_nat (f i)]) [0..<n] a"

subsection \<open>uvgrtp/uvgrtp_util.hh\<close>

definition KEY_SIZE :: nat where "KEY_SIZE = 16"
definition SALT_SIZE :: nat where "SALT_SIZE = 14"

text \<open>Both loops write \<open>key\<close>.\<close>

definition uvgrtp_key_salt :: "u8 list \<times> u8 list" where
  "uvgrtp_key_salt =
     (let key = replicate KEY_SIZE 0; salt = replicate SALT_SIZE 0;
          key = fill (\<lambda>i. i + 7) KEY_SIZE key;
          key = fill (\<lambda>i. i + 13) SALT_SIZE key in
      (key, salt))"

definition intialize_uvgrtp :: "u16 \<Rightarrow> u16 \<Rightarrow> bool \<Rightarrow> bool \<Rightarrow> bool \<Rightarrow> bool \<Rightarrow> media_stream" where
  "intialize_uvgrtp local_port remote_port srtp vvc optimize_latency atlas =
     (let flags = {};
          flags = (if \<not> optimize_latency then flags \<union> {RCE_PACE_FRAGMENT_SENDING} else flags);
          flags = (if srtp then flags \<union> {RCE_SRTP, RCE_SRTP_KMNGMNT_USER} else flags);
          fmt = RTP_FORMAT_H265;
          fmt = (if vvc then RTP_FORMAT_H266 else fmt);
          fmt = (if atlas then RTP_FORMAT_ATLAS else fmt);
          m = create_stream local_port remote_port fmt flags;
          m = (if srtp then add_srtp_ctx uvgrtp_key_salt m else m);
          m = configure_ctx RCC_UDP_RCV_BUF_SIZE (40 * 1000 * 1000) m;
          m = configure_ctx RCC_RING_BUFFER_SIZE (40 * 1000 * 1000) m;
          m = configure_ctx RCC_UDP_SND_BUF_SIZE (40 * 1000 * 1000) m;
          m = configure_ctx RCC_PKT_MAX_DELAY 1000 m;
          m = configure_ctx RCC_POLL_TIMEOUT 1000 m in
      m)"

text \<open>The library calls of \<open>cleanup_uvgrtp\<close>; the pointers may be null.\<close>

datatype 's cleanup_call = Destroy_Stream 's media_stream | Destroy_Session 's

definition cleanup_uvgrtp :: "'s option \<Rightarrow> media_stream option \<Rightarrow> 's cleanup_call list" where
  "cleanup_uvgrtp session mStream =
     (case session of None \<Rightarrow> []
      | Some sess \<Rightarrow> (case mStream of None \<Rightarrow> [] | Some m \<Rightarrow> [Destroy_Stream sess m]) @ [Destroy_Session sess])"

subsection \<open>uvgrtp/v3c_util.cc\<close>

record v3c_streams =
  st_vps :: "media_stream option"   \<comment> \<open>stays null\<close>
  st_ad :: media_stream
  st_ovd :: media_stream
  st_gvd :: media_stream
  st_avd :: media_stream

text \<open>The options of the geometry and attribute streams, and the SSRCs of all four.\<close>

definition big_buffers :: "media_stream \<Rightarrow> media_stream" where
  "big_buffers m =
     configure_ctx RCC_PKT_MAX_DELAY 1000 (configure_ctx RCC_RING_BUFFER_SIZE (40 * 1000 * 1000)
       (configure_ctx RCC_UDP_SND_BUF_SIZE (40 * 1000 * 1000) (configure_ctx RCC_UDP_RCV_BUF_SIZE (40 * 1000 * 1000) m)))"

definition init_v3c_streams :: "u16 \<Rightarrow> u16 \<Rightarrow> rce_flag set \<Rightarrow> bool \<Rightarrow> v3c_streams" where
  "init_v3c_streams src_port dst_port flags rec =
     (let flags = flags \<union> {RCE_NO_H26X_PREPEND_SC};
          ad = create_stream src_port dst_port RTP_FORMAT_ATLAS flags;
          ovd = create_stream src_port dst_port RTP_FORMAT_H265 flags;
          gvd = big_buffers (create_stream src_port dst_port RTP_FORMAT_H265 flags);
          avd = big_buffers (create_stream src_port dst_port RTP_FORMAT_H265 flags) in
      if rec then
        \<lparr>st_vps = None, st_ad = configure_ctx RCC_SSRC 22 (configure_ctx RCC_REMOTE_SSRC 2 ad),
         st_ovd = configure_ctx RCC_SSRC 33 (configure_ctx RCC_REMOTE_SSRC 3 ovd),
         st_gvd = configure_ctx RCC_SSRC 44 (configure_ctx RCC_REMOTE_SSRC 4 gvd),
         st_avd = configure_ctx RCC_SSRC 55 (configure_ctx RCC_REMOTE_SSRC 5 avd)\<rparr>
      else
        \<lparr>st_vps = None, st_ad = configure_ctx RCC_REMOTE_SSRC 22 (configure_ctx RCC_SSRC 2 ad),
         st_ovd = configure_ctx RCC_REMOTE_SSRC 33 (configure_ctx RCC_SSRC 3 ovd),
         st_gvd = configure_ctx RCC_REMOTE_SSRC 44 (configure_ctx RCC_SSRC 4 gvd),
         st_avd = configure_ctx RCC_REMOTE_SSRC 55 (configure_ctx RCC_SSRC 5 avd)\<rparr>)"

text \<open>What the four V-PCC programs do before their first frame; the sender of the throughput test paces.\<close>

definition KEY_SIZE_BYTES :: nat where "KEY_SIZE_BYTES = 256 div 8"
definition SALT_SIZE_BYTES :: nat where "SALT_SIZE_BYTES = 112 div 8"

definition vpcc_key_salt :: "u8 list \<times> u8 list" where
  "vpcc_key_salt =
     (fill (\<lambda>i. i) KEY_SIZE_BYTES (replicate KEY_SIZE_BYTES 0), fill (\<lambda>i. i * 2) SALT_SIZE_BYTES (replicate SALT_SIZE_BYTES 0))"

definition vpcc_setup :: "rce_flag set \<Rightarrow> bool \<Rightarrow> u16 \<Rightarrow> u16 \<Rightarrow> bool \<Rightarrow> v3c_streams" where
  "vpcc_setup flags srtp_enabled local_port remote_port rec =
     (let flags = (if srtp_enabled then flags \<union> {RCE_SRTP, RCE_SRTP_KMNGMNT_USER, RCE_SRTP_KEYSIZE_256} else flags);
          streams = init_v3c_streams local_port remote_port flags rec in
      if srtp_enabled then
        streams\<lparr>st_ad := add_srtp_ctx vpcc_key_salt (st_ad streams), st_ovd := add_srtp_ctx vpcc_key_salt (st_ovd streams),
          st_gvd := add_srtp_ctx vpcc_key_salt (st_gvd streams), st_avd := add_srtp_ctx vpcc_key_salt (st_avd streams)\<rparr>
      else streams)"

subsection \<open>The command line\<close>

definition get_srtp_state :: "string \<Rightarrow> bool" where
  "get_srtp_state srtp = (srtp = ''1'' \<or> srtp = ''yes'' \<or> srtp = ''y'' \<or> srtp = ''srtp'')"

definition get_vvc_state :: "string \<Rightarrow> bool" where
  "get_vvc_state format = (if format = ''vvc'' \<or> format = ''h266'' then True else False)"

definition get_atlas_state :: "string \<Rightarrow> bool" where
  "get_atlas_state format = (if format = ''atlas'' then True else False)"

text \<open>\<open>uint16_t thread_local_port = local_port + thread_num * 2\<close>\<close>

definition thread_port :: "int \<Rightarrow> nat \<Rightarrow> u16" where
  "thread_port port thread_num = word_of_int (port + int thread_num * 2)"

text \<open>
  The streams \<open>uvgrtp/sender.cc\<close> pushes frames on and the streams \<open>uvgrtp/receiver.cc\<close> installs its
  hook on, one per thread. The sender converts its ports to \<open>uint16_t\<close> first.
\<close>

definition sender_streams :: "int \<Rightarrow> int \<Rightarrow> nat \<Rightarrow> string \<Rightarrow> string \<Rightarrow> media_stream list" where
  "sender_streams local_port remote_port nthreads format srtp =
     (if get_atlas_state format then
        [st_ad (init_v3c_streams (word_of_int local_port) (word_of_int remote_port) {RCE_PACE_FRAGMENT_SENDING} False)]
      else map (\<lambda>i. intialize_uvgrtp (thread_port (uint (word_of_int local_port :: u16)) i)
                      (thread_port (uint (word_of_int remote_port :: u16)) i)
                      (get_srtp_state srtp) (get_vvc_state format) False False) [0..<nthreads])"

definition receiver_streams :: "int \<Rightarrow> int \<Rightarrow> nat \<Rightarrow> string \<Rightarrow> string \<Rightarrow> media_stream list" where
  "receiver_streams local_port remote_port nthreads format srtp =
     (if get_atlas_state format then
        [intialize_uvgrtp (thread_port local_port 0) (thread_port remote_port 0)
           (get_srtp_state srtp) (get_vvc_state format) False True]
      else map (\<lambda>i. intialize_uvgrtp (thread_port local_port i) (thread_port remote_port i)
                      (get_srtp_state srtp) (get_vvc_state format) False False) [0..<nthreads])"

subsection \<open>When the frames of one stream reach another\<close>

text \<open>
  What the receiving stream needs of the sending one: the ports meet, the payload format and the
  SRTP context are the same, and the SSRC is the one it expects, if it expects one.
\<close>

definition reaches :: "media_stream \<Rightarrow> media_stream \<Rightarrow> bool" where
  "reaches a b \<longleftrightarrow> ms_remote_port a = ms_local_port b \<and> ms_local_port a = ms_remote_port b
     \<and> ms_format a = ms_format b \<and> ms_srtp a = ms_srtp b
     \<and> (RCE_SRTP \<in> ms_flags a \<longleftrightarrow> RCE_SRTP \<in> ms_flags b)
     \<and> (RCE_SRTP_KEYSIZE_256 \<in> ms_flags a \<longleftrightarrow> RCE_SRTP_KEYSIZE_256 \<in> ms_flags b)
     \<and> (ms_options b RCC_REMOTE_SSRC = None \<or> ms_options b RCC_REMOTE_SSRC = ms_options a RCC_SSRC)"

text \<open>The four streams by unit type.\<close>

definition stream_of :: "v3c_streams \<Rightarrow> V3C_UNIT_TYPE \<Rightarrow> media_stream option" where
  "stream_of s t = (if t = V3C_AD then Some (st_ad s) else if t = V3C_OVD then Some (st_ovd s)
     else if t = V3C_GVD then Some (st_gvd s) else if t = V3C_AVD then Some (st_avd s) else None)"

named_theorems setup_simps \<open>the calls made on a stream, read off\<close>

lemmas [setup_simps] = create_stream_def configure_ctx_def add_srtp_ctx_def big_buffers_def

lemma thread_port_word: "thread_port (uint (word_of_int p :: u16)) i = thread_port p i"
  by (simp add: thread_port_def)

lemma thread_port_eq:
  "thread_port p i = thread_port p j \<longleftrightarrow> i mod 32768 = j mod 32768"
proof -
  have double: "(k * 2) mod 65536 = 2 * (k mod 32768)" for k :: nat
    using mult_mod_right [of 2 k 32768] by (simp add: mult.commute)
  have "thread_port p i = thread_port p j \<longleftrightarrow> (word_of_int (int (i * 2)) :: u16) = word_of_int (int (j * 2))"
    unfolding thread_port_def wi_hom_add [symmetric] by (metis add_left_cancel of_nat_mult of_nat_numeral)
  also have "\<dots> \<longleftrightarrow> int (i * 2) mod 65536 = int (j * 2) mod 65536"
    unfolding word_of_int_eq_iff take_bit_eq_mod by simp
  also have "\<dots> \<longleftrightarrow> (i * 2) mod 65536 = (j * 2) mod 65536"
    unfolding of_nat_eq_iff [where 'a = int, symmetric] zmod_int by simp
  also have "\<dots> \<longleftrightarrow> i mod 32768 = j mod 32768"
    by (simp add: double)
  finally show ?thesis .
qed

lemma uvgrtp_fields:
  "ms_local_port (intialize_uvgrtp p q srtp vvc ol atlas) = p"
  "ms_remote_port (intialize_uvgrtp p q srtp vvc ol atlas) = q"
  "ms_format (intialize_uvgrtp p q srtp vvc ol atlas)
    = (if atlas then RTP_FORMAT_ATLAS else if vvc then RTP_FORMAT_H266 else RTP_FORMAT_H265)"
  "ms_srtp (intialize_uvgrtp p q srtp vvc ol atlas) = (if srtp then Some uvgrtp_key_salt else None)"
  "RCE_SRTP \<in> ms_flags (intialize_uvgrtp p q srtp vvc ol atlas) \<longleftrightarrow> srtp"
  "RCE_SRTP_KEYSIZE_256 \<notin> ms_flags (intialize_uvgrtp p q srtp vvc ol atlas)"
  "ms_options (intialize_uvgrtp p q srtp vvc ol atlas) RCC_REMOTE_SSRC = None"
  by (simp_all add: intialize_uvgrtp_def Let_def setup_simps)

lemma v3c_fields:
  assumes "stream_of (vpcc_setup flags srtp p q rec) t = Some m" and "RCE_SRTP \<notin> flags" and "RCE_SRTP_KEYSIZE_256 \<notin> flags"
  shows "ms_local_port m = p" "ms_remote_port m = q" "ms_format m = (if t = V3C_AD then RTP_FORMAT_ATLAS else RTP_FORMAT_H265)"
    and "ms_srtp m = (if srtp then Some vpcc_key_salt else None)" "RCE_SRTP \<in> ms_flags m \<longleftrightarrow> srtp"
    and "RCE_SRTP_KEYSIZE_256 \<in> ms_flags m \<longleftrightarrow> srtp"
    and "ms_options m (if rec then RCC_REMOTE_SSRC else RCC_SSRC)
      = Some (if t = V3C_AD then 2 else if t = V3C_OVD then 3 else if t = V3C_GVD then 4 else 5)"
    and "ms_options m (if rec then RCC_SSRC else RCC_REMOTE_SSRC)
      = Some (if t = V3C_AD then 22 else if t = V3C_OVD then 33 else if t = V3C_GVD then 44 else 55)"
  using assms
  by (auto simp: stream_of_def vpcc_setup_def init_v3c_streams_def Let_def setup_simps split: if_splits)

lemma v3c_paired:
  assumes "stream_of (vpcc_setup flags srtp p q False) t = Some a" and "stream_of (vpcc_setup {} srtp' q p True) t' = Some b"
    and "flags \<subseteq> {RCE_PACE_FRAGMENT_SENDING}"
  shows "(reaches a b \<longleftrightarrow> t = t' \<and> srtp = srtp') \<and> (reaches b a \<longleftrightarrow> t = t' \<and> srtp = srtp')"
proof -
  have f: "RCE_SRTP \<notin> flags" "RCE_SRTP_KEYSIZE_256 \<notin> flags" using assms(3) by auto
  note a = v3c_fields [OF assms(1) f] and b = v3c_fields [OF assms(2), simplified]
  have "t \<in> {V3C_AD, V3C_OVD, V3C_GVD, V3C_AVD}" "t' \<in> {V3C_AD, V3C_OVD, V3C_GVD, V3C_AVD}"
    using assms(1,2) by (auto simp: stream_of_def split: if_splits)
  then show ?thesis
    using a(7,8) b(7,8) by (auto simp: reaches_def a(1-6) b(1-6))
qed

lemma reaches_configure: "opt \<noteq> RCC_SSRC \<Longrightarrow> reaches (configure_ctx opt v a) b = reaches a b"
  by (simp add: reaches_def configure_ctx_def)

subsection \<open>Properties\<close>

text \<open>
  C25: the four streams of a V-PCC test share one pair of ports, and still each frame finds its way:
  a stream of the sending program reaches a stream of the receiving program exactly when they
  are of the same unit type and both programs run with or both without SRTP, and the way back (for the
  frames the latency receiver echoes) is open exactly then too.
\<close>

theorem v3c_streams_paired:
  assumes "stream_of (vpcc_setup flags srtp p q False) t = Some a" and "stream_of (vpcc_setup {} srtp' q p True) t' = Some b"
    and "flags \<subseteq> {RCE_PACE_FRAGMENT_SENDING}"
  shows "(reaches a b \<longleftrightarrow> t = t' \<and> srtp = srtp') \<and> (reaches b a \<longleftrightarrow> t = t' \<and> srtp = srtp')"
  by (rule v3c_paired [OF assms])

theorem v3c_streams_paired_witness:
  "let a = st_gvd (vpcc_setup {RCE_PACE_FRAGMENT_SENDING} True 9000 9002 False);
       b = st_gvd (vpcc_setup {} True 9002 9000 True) in
   (reaches a b \<longleftrightarrow> V3C_GVD = V3C_GVD \<and> True = True) \<and> (reaches b a \<longleftrightarrow> V3C_GVD = V3C_GVD \<and> True = True)"
  unfolding Let_def
  by (rule v3c_streams_paired [where flags = "{RCE_PACE_FRAGMENT_SENDING}" and p = 9000 and q = 9002])
    (simp_all add: stream_of_def)

text \<open>
  The threads of a throughput test meet. With the ports of the two programs crossed, the same
  format and SRTP arguments, and at most 32768 threads, thread \<open>i\<close> of \<open>sender.cc\<close> reaches
  thread \<open>j\<close> of \<open>receiver.cc\<close> exactly when \<open>i = j\<close>, although their ports wrap at sixteen bits; except that with
  the atlas format and SRTP nothing arrives, as the receiver expects SRTP and the sender does not use it.
\<close>

theorem uvgrtp_threads_meet:
  assumes "i < length (sender_streams p q nthreads format srtp)" and "j < length (receiver_streams q p nthreads format srtp)"
    and "nthreads \<le> 32768"
  shows "reaches (sender_streams p q nthreads format srtp ! i) (receiver_streams q p nthreads format srtp ! j)
    \<longleftrightarrow> i = j \<and> \<not> (get_atlas_state format \<and> get_srtp_state srtp)"
proof (cases "get_atlas_state format")
  case True
  let ?m = "st_ad (init_v3c_streams (word_of_int p) (word_of_int q) {RCE_PACE_FRAGMENT_SENDING} False)"
  have "ms_local_port ?m = word_of_int p" "ms_remote_port ?m = word_of_int q" "ms_format ?m = RTP_FORMAT_ATLAS"
    "ms_srtp ?m = None" "RCE_SRTP \<notin> ms_flags ?m" "RCE_SRTP_KEYSIZE_256 \<notin> ms_flags ?m"
    by (simp_all add: init_v3c_streams_def Let_def setup_simps)
  then show ?thesis
    using assms True
    by (simp add: sender_streams_def receiver_streams_def reaches_def uvgrtp_fields thread_port_def)
next
  case False
  then have ij: "i < nthreads" "j < nthreads" using assms by (simp_all add: sender_streams_def receiver_streams_def)
  have "i mod 32768 = j mod 32768 \<longleftrightarrow> i = j" using ij assms(3) by simp
  then show ?thesis
    using ij False
    by (simp add: sender_streams_def receiver_streams_def reaches_def uvgrtp_fields thread_port_word thread_port_eq)
qed

theorem uvgrtp_threads_meet_witness:
  "reaches (sender_streams 65533 9000 3 ''hevc'' ''yes'' ! 2) (receiver_streams 9000 65533 3 ''hevc'' ''yes'' ! 2)
    \<longleftrightarrow> (2 :: nat) = 2 \<and> \<not> (get_atlas_state ''hevc'' \<and> get_srtp_state ''yes'')"
  by (rule uvgrtp_threads_meet) (simp_all add: sender_streams_def receiver_streams_def get_atlas_state_def)

end
