(* ===== verification/Throughput.thy ===== *)
theory Throughput
  imports Test_File_Creation Session_Setup V3C_Stream "HOL-Library.Multiset"
begin

section \<open>The throughput sender as a program\<close>

text \<open>
  \<open>main\<close> of \<open>uvgrtp/sender.cc\<close>: the command line, the input file and its chunk file, the streams, one thread
  per stream, and the lines the threads append to the result file. Each thread runs
  \<open>sender_thread\<close> of \<open>Senders\<close> on its own stream with its own timing (\<open>envs i\<close>); the threads share nothing but
  the input, which they only read, and the result file, to which thread \<open>i\<close> appends one line when it
  ends: \<open>finish\<close> is the order in which they do. \<open>period_of\<close> is the period in microseconds that the code computes
  with floating point from the frame rate. The program name is \<open>argv ! 0\<close>.
\<close>

record outcome =
  oc_status :: int
  oc_disk :: disk
  oc_sent :: "(media_stream \<times> world) list"   \<comment> \<open>what was pushed on which stream, and when\<close>

text \<open>What a sending function reports when it has come to its end.\<close>

definition report_sent :: "string \<Rightarrow> (nat \<times> nat) option \<Rightarrow> disk \<Rightarrow> disk" where
  "report_sent result_file r d =
     (case r of None \<Rightarrow> d | Some (bytes_sent, diff) \<Rightarrow> write_send_results_to_file result_file bytes_sent (word_of_nat diff) d)"

definition sender_main :: "(nat \<Rightarrow> env) \<Rightarrow> (int \<Rightarrow> u64) \<Rightarrow> nat list \<Rightarrow> string list \<Rightarrow> disk \<Rightarrow> outcome res" where
  "sender_main envs period_of finish argv d =
     (let failure = \<lparr>oc_status = EXIT_FAILURE, oc_disk = d, oc_sent = []\<rparr> in
      if length argv \<noteq> 11 then Inr failure
      else let input_file = argv ! 1; result_file = argv ! 2 in
        rbind (atoi (argv ! 4)) (\<lambda>local_port. rbind (atoi (argv ! 6)) (\<lambda>remote_port.
        rbind (atoi (argv ! 7)) (\<lambda>nthreads. rbind (atoi (argv ! 8)) (\<lambda>fps.
        let streams = map (configure_ctx RCC_FPS_NUMERATOR fps)
              (sender_streams local_port remote_port (nat nthreads) (argv ! 9) (argv ! 10));
            (mem, len) = get_mem input_file 0 d in
        if get_atlas_state (argv ! 9) then
          rbind (mmap_v3c_file (reachable mem) len empty_map) (\<lambda>(_, mmap).
          if mem = Null then Inr failure
          else rbind (sender_func (envs 0) (reachable mem) (period_of fps) (ad_units mmap)) (\<lambda>(r, s).
            Inr \<lparr>oc_status = EXIT_SUCCESS, oc_disk = report_sent result_file r d,
              oc_sent = zip (map (configure_ctx RCC_UDP_SND_BUF_SIZE (40 * 1000 * 1000)) streams) [cs_world s]\<rparr>))
        else
          let chunk_sizes = get_chunk_sizes (open_in (get_chunk_filename input_file) d) [] in
          if mem = Null \<or> chunk_sizes = [] then Inr failure
          else rbind (run_all (\<lambda>i. sender_thread (envs i) (reachable mem) (period_of fps) chunk_sizes) [0..<nat nthreads])
            (\<lambda>rs. Inr \<lparr>oc_status = EXIT_SUCCESS, oc_disk = fold (\<lambda>i. report_sent result_file (fst (rs ! i))) finish d,
              oc_sent = zip streams (map (\<lambda>r. cs_world (snd r)) rs)\<rparr>))))))"

text \<open>The arguments of the program, printed.\<close>

definition sender_args ::
  "string \<Rightarrow> string \<Rightarrow> string \<Rightarrow> int \<Rightarrow> string \<Rightarrow> int \<Rightarrow> nat \<Rightarrow> int \<Rightarrow> string \<Rightarrow> string \<Rightarrow> string list" where
  "sender_args input_file result_file local_address local_port remote_address remote_port nthreads fps format srtp =
     [''sender'', input_file, result_file, local_address, show_int local_port, remote_address, show_int remote_port,
      show_nat nthreads, show_int fps, format, srtp]"

definition receiver_args :: "string \<Rightarrow> string \<Rightarrow> int \<Rightarrow> string \<Rightarrow> int \<Rightarrow> nat \<Rightarrow> string \<Rightarrow> string \<Rightarrow> string list" where
  "receiver_args result_file local_address local_port remote_address remote_port nthreads format srtp =
     [''receiver'', result_file, local_address, show_int local_port, remote_address, show_int remote_port,
      show_nat nthreads, format, srtp]"

definition is_int :: "int \<Rightarrow> bool" where
  "is_int i \<longleftrightarrow> - (2 ^ 31) \<le> i \<and> i < 2 ^ 31"

lemma atoi_is_int: "is_int i \<Longrightarrow> atoi (show_int i) = Inr i"
  using atoi_show_int [of i] by (simp add: is_int_def)

lemma nth_numeral_Cons: "(x # xs) ! numeral k = xs ! (pred_numeral k)"
  by (simp add: numeral_eq_Suc)

lemma get_mem_readable:
  "open_in input d = Some xs \<Longrightarrow> \<exists>m len. get_mem input 0 d = (m, len) \<and> m \<noteq> Null \<and> reachable m = xs"
  by (auto simp: get_mem_def open_in_def split: if_splits)

text \<open>The program on arguments that were printed, up to its threads.\<close>

lemma sender_main_chunks:
  assumes "is_int p" "is_int q" "is_int fps" "nthreads < 2 ^ 31" and "\<not> get_atlas_state format"
    and "open_in input d = Some file" "open_in (get_chunk_filename input) d = Some chunks"
    and "get_chunk_sizes (Some chunks) [] = chunk_sizes" "chunk_sizes \<noteq> []"
    and threads: "\<And>i. i < nthreads \<Longrightarrow> sender_thread (envs i) file (period_of fps) chunk_sizes = Inr (r i, s i)"
  shows "sender_main envs period_of finish (sender_args input result la p ra q nthreads fps format srtp) d
    = Inr \<lparr>oc_status = EXIT_SUCCESS, oc_disk = fold (\<lambda>i. report_sent result (fst (map (\<lambda>i. (r i, s i)) [0..<nthreads] ! i))) finish d,
        oc_sent = zip (map (configure_ctx RCC_FPS_NUMERATOR fps) (sender_streams p q nthreads format srtp))
          (map (\<lambda>i. cs_world (s i)) [0..<nthreads])\<rparr>"
proof -
  obtain m len where m: "get_mem input 0 d = (m, len)" "m \<noteq> Null" "reachable m = file"
    using get_mem_readable [OF assms(6)] by metis
  have run: "run_all (\<lambda>i. sender_thread (envs i) file (period_of fps) chunk_sizes) [0..<nthreads]
      = Inr (map (\<lambda>i. (r i, s i)) [0..<nthreads])"
    using threads by (intro run_all_Inr) simp
  show ?thesis
    using assms(1-5,7-9) m run
    by (simp add: sender_main_def sender_args_def Let_def nth_numeral_Cons atoi_is_int atoi_show_nat o_def)
qed

text \<open>The lines of the threads, in the order in which they end.\<close>

lemma report_lines:
  assumes "whole_lines result d" and "\<And>i. i \<in> set finish \<Longrightarrow> i < nthreads \<and> r i = Some (bytes, ms i)"
  shows "result_nums result (fold (\<lambda>i. report_sent result (fst (map (\<lambda>i. (r i, s i)) [0..<nthreads] ! i))) finish d)
    = result_nums result d @ map (\<lambda>i. [bytes, bytes div 1000, bytes div 1000000, ms i mod 2 ^ 64, ms i mod 2 ^ 64 div 1000]) finish"
  using assms
proof (induction finish arbitrary: d)
  case (Cons i finish)
  have i: "i < nthreads" "r i = Some (bytes, ms i)" using Cons.prems(2) [of i] by simp_all
  let ?d = "write_send_results_to_file result bytes (word_of_nat (ms i)) d"
  have "report_sent result (fst (map (\<lambda>i. (r i, s i)) [0..<nthreads] ! i)) d = ?d"
    using i by (simp add: report_sent_def)
  moreover have "unat (word_of_nat (ms i) :: u64) = ms i mod 2 ^ 64" by (simp add: unsigned_of_nat take_bit_eq_mod)
  ultimately show ?case
    using Cons.IH [OF write_send_line(1) [OF Cons.prems(1)]] Cons.prems(2) write_send_line(2) [OF Cons.prems(1)] by simp
qed simp

subsection \<open>From the raw video to the network\<close>

definition test_file_args :: "string \<Rightarrow> int \<Rightarrow> int \<Rightarrow> int \<Rightarrow> int \<Rightarrow> int \<Rightarrow> string \<Rightarrow> string list" where
  "test_file_args input w h qp fps period preset =
     [''test_file_creation'', input, show_int w, show_int h, show_int qp, show_int fps, show_int period, preset]"

lemma test_file_main_args:
  assumes "is_int w" "is_int h" "is_int qp" "is_int fps" "is_int period" and "0 \<notin> {w, h, qp, fps, period}" "preset \<noteq> ''''"
  shows "test_file_main fuel kz (test_file_args input w h qp fps period preset) d
    = open_and_encode fuel kz input (output_name input) (get_chunk_filename (output_name input)) w h qp fps period preset d"
  using assms by (simp add: test_file_main_def test_file_args_def Let_def nth_numeral_Cons atoi_is_int)

text \<open>The two files behind a successful encoding.\<close>

lemma open_in_append:
  "open_in name (append_file name' xs d) = (if name' = name \<and> d_writable d name \<and> d_readable d name
     then Some ((case d_files d name of None \<Rightarrow> [] | Some ys \<Rightarrow> ys) @ xs) else open_in name d)"
  by (simp add: open_in_def append_file_def)

lemma files_written:
  assumes "output \<noteq> mem" and "d_writable d output" "d_writable d mem" "d_readable d output" "d_readable d mem"
    and "d' = append_file mem ys (append_file output xs (truncate_file mem (truncate_file output d)))"
  shows "open_in output d' = Some xs" "open_in mem d' = Some ys"
    "result \<notin> {output, mem} \<Longrightarrow> whole_lines result d \<Longrightarrow> whole_lines result d' \<and> result_nums result d' = result_nums result d"
  using assms
  by (simp_all add: open_in_append open_in_def truncate_file_def append_file_def whole_lines_def result_nums_def)

text \<open>
  C21: from the raw video to the network. Run \<open>test_file_creation\<close> on a video and then the throughput sender on the file it
  has created, with any number of threads, an encoder that accepts all pictures and can be emptied, and a library in which every push
  succeeds. Both programs end with success; every thread has pushed exactly the encoded frames, in
  order, one per push, on the stream for its ports; and \<open>parse.pl\<close> finds in the result file one new line per thread,
  in the order in which they ended, with the size of the encoded file.
\<close>

theorem created_file_is_sent:
  assumes args: "is_int w" "is_int h" "is_int qp" "is_int fps" "is_int intra" "0 \<notin> {w, h, qp, fps, intra}" "preset \<noteq> ''''"
    and ready: "ready_to_encode kz enc (make_config preset w h qp fps intra) input output mem raw d"
    and names: "output = output_name input" "mem = get_chunk_filename output" "result \<notin> {output, mem}"
    and disk: "d_readable d output" "d_readable d mem" "whole_lines result d"
    and enc: "drains enc n m" "n = length raw div picture_size (nat \<bar>w\<bar>) (nat \<bar>h\<bar>)" "m < fuel"
    and pics: "pics = encoded enc True 0 n @ encoded enc False n m" "pics \<noteq> []" "\<forall>x \<in> set pics. length x < 2 ^ 64"
    and sched: "length pics * unat (period_of rate) < 2 ^ 64" "length pics < 2 ^ 64"
    and send: "is_int p" "is_int q" "is_int rate" "nthreads < 2 ^ 31" "\<not> get_atlas_state format"
    and push: "\<And>i k. e_push_ok (envs i) k" and finish: "mset finish = mset [0..<nthreads]"
  shows "\<exists>calls d' oc ms. test_file_main fuel kz (test_file_args input w h qp fps intra preset) d = Inr (Some (EXIT_SUCCESS, calls, d'))
    \<and> sender_main envs period_of finish (sender_args output result la p ra q nthreads rate format srtp) d' = Inr oc
    \<and> oc_status oc = EXIT_SUCCESS
    \<and> map fst (oc_sent oc) = map (configure_ctx RCC_FPS_NUMERATOR rate) (sender_streams p q nthreads format srtp)
    \<and> map (\<lambda>sw. pushed (snd sw)) (oc_sent oc) = replicate nthreads pics
    \<and> result_nums result (oc_disk oc) = result_nums result d @ map (\<lambda>i.
        [length (concat pics), length (concat pics) div 1000, length (concat pics) div 1000000, ms i, ms i div 1000]) finish"
proof -
  let ?f = "files_of (n + m + 1) pics"
  let ?d = "append_file mem (tf_memory ?f) (append_file output (tf_output ?f) (truncate_file mem (truncate_file output d)))"
  have create: "test_file_main fuel kz (test_file_args input w h qp fps intra preset) d
      = Inr (Some (EXIT_SUCCESS, [Encoder_Close, Config_Destroy, Picture_Free], ?d))"
    using kvazaar_encode_files [OF enc(1) _ enc(3), of raw "nat \<bar>w\<bar>" "nat \<bar>h\<bar>"] enc(2) open_and_encode_ready [OF ready]
    unfolding test_file_main_args [OF args] names(1,2) [symmetric] pics(1) [symmetric] by (simp add: files_of_def)
  have other: "output \<noteq> mem" unfolding names using chunk_name_other [of input] by metis
  have w: "d_writable d output" "d_writable d mem" using ready by (simp_all add: ready_to_encode_def)
  note files = files_written [OF other w disk(1,2) refl, where ys = "tf_memory ?f" and xs = "tf_output ?f"]
  have sizes: "get_chunk_sizes (Some (tf_memory ?f)) [] = map length pics" by (rule sizes_of_files [OF pics(3)])
  have cut: "slices (tf_output ?f) 0 (map length pics) = pics"
    using slices_concat [of "[]" pics "[]"] by (simp add: files_of_def)
  have "\<exists>s ms. sender_thread (envs i) (tf_output ?f) (period_of rate) (map length pics)
      = Inr (Some (length (concat pics), ms), s) \<and> pushed (cs_world s) = pics" for i
    using sender_thread_run [of "map length pics" "tf_output ?f" "period_of rate" "envs i"] sched push cut
    by (auto simp: files_of_def length_concat)
  then obtain s ms where thread: "\<And>i. sender_thread (envs i) (tf_output ?f) (period_of rate) (map length pics)
      = Inr (Some (length (concat pics), ms i), s i)" and sent: "\<And>i. pushed (cs_world (s i)) = pics"
    by metis
  have chunks: "open_in (get_chunk_filename output) ?d = Some (tf_memory ?f)" using files(2) by (simp only: names(2))
  note run = sender_main_chunks [where r = "\<lambda>i. Some (length (concat pics), ms i)" and s = s and envs = envs
      and period_of = period_of and result = result and la = la and ra = ra and finish = finish, OF send files(1) chunks sizes _ thread]
  define thread_results where "thread_results = map (\<lambda>i. (Some (length (concat pics), ms i), s i)) [0..<nthreads]"
  define oc where "oc = \<lparr>oc_status = EXIT_SUCCESS, oc_disk = fold (\<lambda>i. report_sent result (fst (thread_results ! i))) finish ?d,
    oc_sent = zip (map (configure_ctx RCC_FPS_NUMERATOR rate) (sender_streams p q nthreads format srtp))
      (map (\<lambda>i. cs_world (s i)) [0..<nthreads])\<rparr>"
  have main: "sender_main envs period_of finish (sender_args output result la p ra q nthreads rate format srtp) ?d = Inr oc"
    using run pics(2) unfolding oc_def thread_results_def by simp
  have len: "length (sender_streams p q nthreads format srtp) = nthreads"
    using send(5) by (simp add: sender_streams_def)
  then have streams: "map fst (oc_sent oc) = map (configure_ctx RCC_FPS_NUMERATOR rate) (sender_streams p q nthreads format srtp)"
    by (simp add: oc_def)
  have "map snd (oc_sent oc) = map (\<lambda>i. cs_world (s i)) [0..<nthreads]" using len by (simp add: oc_def)
  then have "map pushed (map snd (oc_sent oc)) = replicate nthreads pics" by (simp add: sent o_def map_replicate_const)
  then have all_sent: "map (\<lambda>sw. pushed (snd sw)) (oc_sent oc) = replicate nthreads pics" by (simp add: o_def)
  have fin: "i < nthreads \<and> Some (length (concat pics), ms i) = Some (length (concat pics), ms i)" if "i \<in> set finish" for i
    using mset_eq_setD [OF finish] that by auto
  have lines: "result_nums result (oc_disk oc) = result_nums result d @ map (\<lambda>i.
        [length (concat pics), length (concat pics) div 1000, length (concat pics) div 1000000, ms i mod 2 ^ 64, ms i mod 2 ^ 64 div 1000]) finish"
    using report_lines [OF conjunct1 [OF files(3) [OF names(3) disk(3)]] fin] files(3) [OF names(3) disk(3)]
    by (simp add: oc_def thread_results_def)
  have "oc_status oc = EXIT_SUCCESS" by (simp add: oc_def)
  then show ?thesis using create main streams all_sent lines by (intro exI conjI) assumption+
qed

definition steady_env :: env where
  "steady_env = demo_env\<lparr>e_push_ok := \<lambda>_. True\<rparr>"

theorem created_file_is_sent_witness:
  "\<exists>calls d' oc ms. test_file_main 5 (demo_kvazaar demo_encoder) (test_file_args ''a.yuv'' 2 2 27 30 64 ''slow'')
        (demo_disk ''a.yuv'' (replicate 12 0)) = Inr (Some (EXIT_SUCCESS, calls, d'))
    \<and> sender_main (\<lambda>_. steady_env) (\<lambda>_. 40) [1, 0] (sender_args ''a.hevc'' ''out'' ''::1'' 9000 ''::1'' 9002 2 30 ''hevc'' ''no'') d' = Inr oc
    \<and> oc_status oc = EXIT_SUCCESS
    \<and> map fst (oc_sent oc) = map (configure_ctx RCC_FPS_NUMERATOR 30) (sender_streams 9000 9002 2 ''hevc'' ''no'')
    \<and> map (\<lambda>sw. pushed (snd sw)) (oc_sent oc) = replicate 2 [[1, 2, 3], [4]]
    \<and> result_nums ''out'' (oc_disk oc) = result_nums ''out'' (demo_disk ''a.yuv'' (replicate 12 0)) @ map (\<lambda>i.
        [length (concat [[1, 2, 3], [4 :: u8]]), length (concat [[1, 2, 3], [4 :: u8]]) div 1000,
         length (concat [[1, 2, 3], [4 :: u8]]) div 1000000, ms i, ms i div 1000]) [1, 0 :: nat]"
proof (rule created_file_is_sent [where kz = "demo_kvazaar demo_encoder" and enc = demo_encoder and n = 2 and m = 1
      and raw = "replicate 12 0" and mem = "''a.mhevc''"])
  show "''a.hevc'' = output_name ''a.yuv''" by (simp add: output_name_def)
  show "''a.mhevc'' = get_chunk_filename ''a.hevc''" by (simp add: get_chunk_filename_def)
  show "[[1, 2, 3], [4]] = encoded demo_encoder True 0 2 @ encoded demo_encoder False 2 1" by (rule demo_encoder_frames)
  show "drains demo_encoder 2 1" by (rule demo_encoder_drains)
  show "mset [1, 0] = mset [0..<2]" by (simp add: numeral_2_eq_2 add_mset_commute)
  show "ready_to_encode (demo_kvazaar demo_encoder) demo_encoder (make_config ''slow'' 2 2 27 30 64)
      ''a.yuv'' ''a.hevc'' ''a.mhevc'' (replicate 12 0) (demo_disk ''a.yuv'' (replicate 12 0))"
    by (rule demo_ready) (simp_all add: make_config_def)
qed (simp_all add: is_int_def picture_size_def demo_disk_def empty_disk_def whole_lines_def
    get_atlas_state_def steady_env_def)

end
