(* ===== verification/Receiver_Threads.thy ===== *)
theory Receiver_Threads
  imports Receivers Throughput
begin

section \<open>The throughput receiver, statement by statement\<close>

text \<open>
  \<open>main\<close>, \<open>receiver_thread\<close> and \<open>hook\<close> of \<open>uvgrtp/receiver.cc\<close> as concurrent threads. Every stream has a thread of the
  library that calls \<open>hook\<close> for its frames and a thread of the program that waits; thread \<open>i\<close> uses the slot \<open>i div 2\<close> of
  \<open>thread_info\<close>, so two streams share one. \<open>Receivers\<close> treats a call of the hook as one step; here each statement is one, and
  \<open>x += y\<close> and \<open>++x\<close> on the fields of the slot, which are not atomic, are a read and a write. The counters \<open>nready\<close>
  and \<open>frames_received\<close> are atomic.
\<close>

subsection \<open>Setting up\<close>

record receiver_plan =
  rp_result_filename :: string
  rp_slots :: nat                       \<comment> \<open>what \<open>calloc\<close> has room for\<close>
  rp_streams :: "media_stream list"

definition receiver_setup :: "string list \<Rightarrow> receiver_plan option res" where
  "receiver_setup argv =
     (if length argv \<noteq> 9 then Inr None
      else rbind (atoi (argv ! 3)) (\<lambda>local_port. rbind (atoi (argv ! 5)) (\<lambda>remote_port. rbind (atoi (argv ! 6)) (\<lambda>nthreads.
        Inr (Some \<lparr>rp_result_filename = argv ! 1, rp_slots = nat nthreads,
          rp_streams = receiver_streams local_port remote_port (nat nthreads) (argv ! 7) (argv ! 8)\<rparr>)))))"

subsection \<open>The steps of a call of the hook\<close>

text \<open>Where a library thread is; \<open>x\<close> is \<open>payload_len\<close>, the other numbers are what it has read.\<close>

datatype pc =
    Idle
  | Called "nat option"        \<comment> \<open>entered, with the payload length or a null pointer\<close>
  | Started nat                \<comment> \<open>behind the first \<open>if\<close>\<close>
  | Stamped nat                \<comment> \<open>behind \<open>last = now()\<close>\<close>
  | Read_Bytes nat nat
  | Added_Bytes nat
  | Read_Pkts nat nat
  | Counted                    \<comment> \<open>behind \<open>++pkts\<close>\<close>
  | Checking                   \<comment> \<open>behind \<open>++frames_received\<close>\<close>
  | Reporting                  \<comment> \<open>\<open>pkts\<close> was the expected number\<close>
  | Reported

text \<open>\<open>rt_calls i\<close> is history: the payload lengths of the frames thread \<open>i\<close> has counted in its slot.\<close>

record race_state =
  rt_slots :: "nat \<Rightarrow> thread_info"
  rt_nready :: nat
  rt_frames_received :: nat
  rt_results :: "(nat \<times> nat \<times> nat) list"
  rt_pc :: "nat \<Rightarrow> pc"
  rt_calls :: "nat \<Rightarrow> nat list"

definition race_init :: race_state where
  "race_init = \<lparr>rt_slots = \<lambda>_. \<lparr>ti_pkts = 0, ti_bytes = 0, ti_start = 0, ti_last = 0\<rparr>, rt_nready = 0,
     rt_frames_received = 0, rt_results = [], rt_pc = \<lambda>_. Idle, rt_calls = \<lambda>_. []\<rparr>"

definition goto :: "nat \<Rightarrow> pc \<Rightarrow> race_state \<Rightarrow> race_state" where
  "goto i p s = s\<lparr>rt_pc := (rt_pc s)(i := p)\<rparr>"

definition slot :: "race_state \<Rightarrow> nat \<Rightarrow> thread_info" where
  "slot s i = rt_slots s (tid_of i)"

definition set_slot :: "nat \<Rightarrow> thread_info \<Rightarrow> race_state \<Rightarrow> race_state" where
  "set_slot i t s = s\<lparr>rt_slots := (rt_slots s)(tid_of i := t)\<rparr>"

definition started :: "nat \<Rightarrow> thread_info \<Rightarrow> thread_info" where
  "started now t = (if ti_pkts t = 0 then t\<lparr>ti_start := now\<rparr> else t)"

inductive hook_step :: "nat \<Rightarrow> race_state \<Rightarrow> race_state \<Rightarrow> bool" where
  enter: "rt_pc s i = Idle \<Longrightarrow> hook_step i s (goto i (Called frame) s)"
| start: "rt_pc s i = Called (Some x) \<Longrightarrow> hook_step i s (goto i (Started x) (set_slot i (started now (slot s i)) s))"
| discard: "rt_pc s i = Called None \<Longrightarrow>
    hook_step i s (goto i Idle ((set_slot i (started now (slot s i)) s)\<lparr>rt_nready := rt_nready s + 1\<rparr>))"
| stamp: "rt_pc s i = Started x \<Longrightarrow> hook_step i s (goto i (Stamped x) (set_slot i ((slot s i)\<lparr>ti_last := now\<rparr>) s))"
| read_bytes: "rt_pc s i = Stamped x \<Longrightarrow> hook_step i s (goto i (Read_Bytes x (ti_bytes (slot s i))) s)"
| add_bytes: "rt_pc s i = Read_Bytes x b \<Longrightarrow>
    hook_step i s (goto i (Added_Bytes x) (set_slot i ((slot s i)\<lparr>ti_bytes := b + x\<rparr>) s))"
| read_pkts: "rt_pc s i = Added_Bytes x \<Longrightarrow> hook_step i s (goto i (Read_Pkts x (ti_pkts (slot s i))) s)"
| add_pkt: "rt_pc s i = Read_Pkts x p \<Longrightarrow>
    hook_step i s (goto i Counted ((set_slot i ((slot s i)\<lparr>ti_pkts := p + 1\<rparr>) s)
      \<lparr>rt_calls := (rt_calls s)(i := rt_calls s i @ [x])\<rparr>))"
| count: "rt_pc s i = Counted \<Longrightarrow> hook_step i s (goto i Checking (s\<lparr>rt_frames_received := rt_frames_received s + 1\<rparr>))"
| check_hit: "rt_pc s i = Checking \<Longrightarrow> ti_pkts (slot s i) = EXPECTED_FRAMES \<Longrightarrow> hook_step i s (goto i Reporting s)"
| check_miss: "rt_pc s i = Checking \<Longrightarrow> ti_pkts (slot s i) \<noteq> EXPECTED_FRAMES \<Longrightarrow> hook_step i s (goto i Idle s)"
| report: "rt_pc s i = Reporting \<Longrightarrow>
    hook_step i s (goto i Reported (s\<lparr>rt_results := rt_results s @ [result_line (slot s i)]\<rparr>))"
| ready: "rt_pc s i = Reported \<Longrightarrow> hook_step i s (goto i Idle (s\<lparr>rt_nready := rt_nready s + 1\<rparr>))"

inductive_cases hook_step_elim: "hook_step i s s'"

text \<open>The same as a function: the payload length matters to a thread that is idle, the time to one that takes it.\<close>

definition next_step :: "nat \<times> nat option \<times> nat \<Rightarrow> race_state \<Rightarrow> race_state" where
  "next_step = (\<lambda>(i, frame, now) s.
     case rt_pc s i of
       Idle \<Rightarrow> goto i (Called frame) s
     | Called None \<Rightarrow> goto i Idle ((set_slot i (started now (slot s i)) s)\<lparr>rt_nready := rt_nready s + 1\<rparr>)
     | Called (Some x) \<Rightarrow> goto i (Started x) (set_slot i (started now (slot s i)) s)
     | Started x \<Rightarrow> goto i (Stamped x) (set_slot i ((slot s i)\<lparr>ti_last := now\<rparr>) s)
     | Stamped x \<Rightarrow> goto i (Read_Bytes x (ti_bytes (slot s i))) s
     | Read_Bytes x b \<Rightarrow> goto i (Added_Bytes x) (set_slot i ((slot s i)\<lparr>ti_bytes := b + x\<rparr>) s)
     | Added_Bytes x \<Rightarrow> goto i (Read_Pkts x (ti_pkts (slot s i))) s
     | Read_Pkts x p \<Rightarrow> goto i Counted ((set_slot i ((slot s i)\<lparr>ti_pkts := p + 1\<rparr>) s)
         \<lparr>rt_calls := (rt_calls s)(i := rt_calls s i @ [x])\<rparr>)
     | Counted \<Rightarrow> goto i Checking (s\<lparr>rt_frames_received := rt_frames_received s + 1\<rparr>)
     | Checking \<Rightarrow> goto i (if ti_pkts (slot s i) = EXPECTED_FRAMES then Reporting else Idle) s
     | Reporting \<Rightarrow> goto i Reported (s\<lparr>rt_results := rt_results s @ [result_line (slot s i)]\<rparr>)
     | Reported \<Rightarrow> goto i Idle (s\<lparr>rt_nready := rt_nready s + 1\<rparr>))"

lemma hook_step_next: "hook_step i s s' \<longleftrightarrow> (\<exists>frame now. s' = next_step (i, frame, now) s)"
proof
  assume "hook_step i s s'"
  then show "\<exists>frame now. s' = next_step (i, frame, now) s"
    by (cases rule: hook_step.cases) (auto simp: next_step_def)
next
  assume "\<exists>frame now. s' = next_step (i, frame, now) s"
  then obtain frame now where "s' = next_step (i, frame, now) s" by blast
  then show "hook_step i s s'"
    by (cases "rt_pc s i") (auto simp: next_step_def split: option.splits intro: hook_step.intros hook_step.intros [unfolded Suc_eq_plus1 [symmetric]])
qed

text \<open>All library threads, interleaved; \<open>n\<close> of them.\<close>

inductive reached :: "nat \<Rightarrow> race_state \<Rightarrow> bool" for n where
  initial: "reached n race_init"
| step: "reached n s \<Longrightarrow> i < n \<Longrightarrow> hook_step i s s' \<Longrightarrow> reached n s'"

lemma reached_run:
  "reached n s \<Longrightarrow> \<forall>e \<in> set es. fst e < n \<Longrightarrow> reached n (fold next_step es s)"
proof (induction es arbitrary: s)
  case (Cons e es)
  have "hook_step (fst e) s (next_step e s)" unfolding hook_step_next by (metis prod.collapse)
  then have "reached n (next_step e s)" using Cons.prems by (intro reached.step [OF Cons.prems(1)]) auto
  then show ?case using Cons by simp
qed simp

subsection \<open>No frame is counted twice\<close>

text \<open>The two threads of a slot, what they have counted, and the bytes they have added.\<close>

definition counted :: "race_state \<Rightarrow> nat \<Rightarrow> nat" where
  "counted s k = length (rt_calls s (2 * k)) + length (rt_calls s (2 * k + 1))"

fun pending :: "pc \<Rightarrow> nat" where
  "pending (Added_Bytes x) = x"
| "pending (Read_Pkts x p) = x"
| "pending _ = 0"

definition added_by :: "race_state \<Rightarrow> nat \<Rightarrow> nat" where
  "added_by s i = sum_list (rt_calls s i) + pending (rt_pc s i)"

definition added :: "race_state \<Rightarrow> nat \<Rightarrow> nat" where
  "added s k = added_by s (2 * k) + added_by s (2 * k + 1)"

text \<open>What a thread has read is not more than what its slot could hold.\<close>

fun read_ok :: "(nat \<Rightarrow> nat \<Rightarrow> bool) \<Rightarrow> nat \<Rightarrow> nat \<Rightarrow> pc \<Rightarrow> bool" where
  "read_ok le c a (Read_Bytes x b) = le b a"
| "read_ok le c a (Read_Pkts x p) = le p c"
| "read_ok le c a _ = True"

definition slot_inv :: "(nat \<Rightarrow> nat \<Rightarrow> bool) \<Rightarrow> race_state \<Rightarrow> nat \<Rightarrow> bool" where
  "slot_inv le s k \<longleftrightarrow> le (ti_pkts (rt_slots s k)) (counted s k) \<and> le (ti_bytes (rt_slots s k)) (added s k)
     \<and> read_ok le (counted s k) (added s k) (rt_pc s (2 * k)) \<and> read_ok le (counted s k) (added s k) (rt_pc s (2 * k + 1))"

lemma tid_cases: "tid_of i = k \<longleftrightarrow> i = 2 * k \<or> i = 2 * k + 1"
  by (auto simp: tid_of_def)

lemmas race_defs = goto_def set_slot_def slot_def started_def

lemma tid_of_pair [simp]: "tid_of (2 * k) = k" "tid_of (Suc (2 * k)) = k"
  by (simp_all add: tid_of_def)

lemma read_ok_mono: "read_ok (\<le>) c a p \<Longrightarrow> c \<le> c' \<Longrightarrow> a \<le> a' \<Longrightarrow> read_ok (\<le>) c' a' p"
  by (cases p) auto

lemmas slot_simps = slot_inv_def race_defs counted_def added_def added_by_def

lemma slot_inv_other:
  assumes "hook_step i s s'" and "i \<noteq> 2 * k" and "i \<noteq> Suc (2 * k)"
  shows "slot_inv le s' k = slot_inv le s k"
proof -
  have tid: "tid_of i \<noteq> k" using assms(2,3) by (auto simp: tid_cases)
  show ?thesis using assms tid by (cases rule: hook_step.cases) (auto simp: slot_simps)
qed

lemma slot_inv_step:
  assumes step: "hook_step i s s'" and inv: "slot_inv (\<le>) s k"
  shows "slot_inv (\<le>) s' k"
proof -
  consider "i = 2 * k" | "i = Suc (2 * k)" | "i \<noteq> 2 * k" "i \<noteq> Suc (2 * k)" by blast
  then show ?thesis
  proof cases
    case 1
    show ?thesis
      using step inv unfolding 1 by (cases rule: hook_step.cases) (auto simp: slot_simps elim!: read_ok_mono)
  next
    case 2
    show ?thesis
      using step inv unfolding 2 by (cases rule: hook_step.cases) (auto simp: slot_simps elim!: read_ok_mono)
  next
    case 3
    then show ?thesis using slot_inv_other [OF step] inv by blast
  qed
qed

lemma reached_bounded: "reached n s \<Longrightarrow> slot_inv (\<le>) s k"
proof (induction rule: reached.induct)
  case initial
  show ?case by (simp add: slot_simps race_init_def)
next
  case (step s i s')
  show ?case by (rule slot_inv_step [OF step(3,4)])
qed

subsection \<open>A slot used by one thread\<close>

text \<open>A thread that has not written to its slot, except for the times.\<close>

fun before_counting :: "pc \<Rightarrow> bool" where
  "before_counting Idle = True"
| "before_counting (Called f) = True"
| "before_counting (Started x) = True"
| "before_counting (Stamped x) = True"
| "before_counting p = False"

definition untouched :: "race_state \<Rightarrow> nat \<Rightarrow> bool" where
  "untouched s i \<longleftrightarrow> rt_calls s i = [] \<and> before_counting (rt_pc s i)"

definition behind_counting :: "pc \<Rightarrow> bool" where
  "behind_counting p \<longleftrightarrow> p \<in> {Counted, Checking, Reporting, Reported}"

lemma reached_calls: "reached n s \<Longrightarrow> behind_counting (rt_pc s i) \<Longrightarrow> rt_calls s i \<noteq> []"
proof (induction rule: reached.induct)
  case initial
  then show ?case by (simp add: race_init_def behind_counting_def)
next
  case (step s j s')
  show ?case
    using step(3) step.IH step.prems
    by (cases rule: hook_step.cases) (auto simp: race_defs behind_counting_def split: if_splits)
qed

lemma untouched_before:
  assumes "hook_step i s s'" and "untouched s' j" and "behind_counting (rt_pc s j) \<Longrightarrow> rt_calls s j \<noteq> []"
  shows "untouched s j"
  using assms
  by (cases rule: hook_step.cases) (auto simp: race_defs untouched_def behind_counting_def split: if_splits)

lemma slot_exact_step:
  assumes step: "hook_step i s s'" and inv: "slot_inv (=) s k" and alone: "untouched s' (2 * k) \<or> untouched s' (Suc (2 * k))"
    and before: "untouched s (2 * k) \<or> untouched s (Suc (2 * k))"
  shows "slot_inv (=) s' k"
proof -
  consider "i = 2 * k" | "i = Suc (2 * k)" | "i \<noteq> 2 * k" "i \<noteq> Suc (2 * k)" by blast
  then show ?thesis
  proof cases
    case 1
    show ?thesis
      using step inv alone before unfolding 1
      by (cases rule: hook_step.cases) (auto simp: slot_simps untouched_def elim!: before_counting.elims)
  next
    case 2
    show ?thesis
      using step inv alone before unfolding 2
      by (cases rule: hook_step.cases) (auto simp: slot_simps untouched_def elim!: before_counting.elims)
  next
    case 3
    then show ?thesis using slot_inv_other [OF step] inv by blast
  qed
qed

lemma reached_exact:
  "reached n s \<Longrightarrow> untouched s (2 * k) \<or> untouched s (Suc (2 * k)) \<Longrightarrow> slot_inv (=) s k"
proof (induction rule: reached.induct)
  case initial
  show ?case by (simp add: slot_simps race_init_def)
next
  case (step s i s')
  have before: "untouched s (2 * k) \<or> untouched s (Suc (2 * k))"
    using untouched_before [OF step(3)] reached_calls [OF step(1)] step.prems by blast
  show ?case by (rule slot_exact_step [OF step(3) step.IH [OF before] step.prems before])
qed

subsection \<open>The atomic counter\<close>

definition received :: "race_state \<Rightarrow> nat \<Rightarrow> nat" where
  "received s i = length (rt_calls s i) - (if rt_pc s i = Counted then 1 else 0)"

lemma sum_upd_Suc:
  fixes f g :: "nat \<Rightarrow> nat"
  assumes "i < n" and "g i = f i + 1" and "\<And>j. j \<noteq> i \<Longrightarrow> g j = f j"
  shows "sum g {..<n} = sum f {..<n} + 1"
proof -
  have "sum g {..<n} = g i + sum g ({..<n} - {i})" using assms(1) by (intro sum.remove) auto
  moreover have "sum f {..<n} = f i + sum f ({..<n} - {i})" using assms(1) by (intro sum.remove) auto
  moreover have "sum g ({..<n} - {i}) = sum f ({..<n} - {i})" using assms(3) by (intro sum.cong) auto
  ultimately show ?thesis using assms(2) by simp
qed

lemma reached_received: "reached n s \<Longrightarrow> rt_frames_received s = sum (received s) {..<n}"
proof (induction rule: reached.induct)
  case initial
  show ?case by (simp add: race_init_def received_def)
next
  case (step s i s')
  show ?case
  proof (cases "rt_pc s i = Counted")
    case True
    have ne: "rt_calls s i \<noteq> []" using reached_calls [OF step(1), of i] True by (simp add: behind_counting_def)
    have s': "s' = goto i Checking (s\<lparr>rt_frames_received := rt_frames_received s + 1\<rparr>)"
      using step(3) True by (cases rule: hook_step.cases) auto
    have "sum (received s') {..<n} = sum (received s) {..<n} + 1"
      by (rule sum_upd_Suc [OF step(2)]) (use True ne in \<open>auto simp: s' race_defs received_def\<close>)
    then show ?thesis using step.IH by (simp add: s' race_defs)
  next
    case False
    have "received s' = received s"
      using step(3) False by (cases rule: hook_step.cases) (auto simp: race_defs received_def fun_eq_iff)
    moreover have "rt_frames_received s' = rt_frames_received s"
      using step(3) False by (cases rule: hook_step.cases) (auto simp: race_defs)
    ultimately show ?thesis using step.IH by simp
  qed
qed

subsection \<open>Properties\<close>

text \<open>Two threads of a slot whose calls overlap in the worst way.\<close>

definition overlapping :: "(nat \<times> nat option \<times> nat) list" where
  "overlapping = replicate 6 (0, Some 10, 7) @ replicate 6 (1, Some 20, 8) @ [(0, None, 9), (1, None, 9), (0, None, 9), (1, None, 9), (0, None, 9), (1, None, 9)]"

lemma overlapping_run:
  "rt_pc (fold next_step overlapping race_init) = (\<lambda>_. Idle)"
  "rt_calls (fold next_step overlapping race_init) = (\<lambda>_. [])(0 := [10], 1 := [20])"
  "ti_pkts (rt_slots (fold next_step overlapping race_init) 0) = 1"
  by (simp_all add: overlapping_def numeral_eq_Suc next_step_def race_defs race_init_def tid_of_def EXPECTED_FRAMES_def fun_eq_iff)

text \<open>
  C15: what the unsynchronised counters of \<open>receiver.cc\<close> can get wrong. In every interleaving of the statements of the hooks, once all
  calls are over: the atomic \<open>frames_received\<close> is the number of frames of all threads; a slot never has more packets or bytes than its
  two threads received; and it has exactly those of a thread whose partner got no frame, so that one
  thread is always counted exactly. But as soon as there are two threads, they share a slot, and an
  interleaving loses a frame.
\<close>

theorem receiver_race:
  assumes "reached n s" and "rt_pc s = (\<lambda>_. Idle)"
  shows "rt_frames_received s = (\<Sum>i<n. length (rt_calls s i))
    \<and> ti_pkts (rt_slots s k) \<le> length (rt_calls s (2 * k)) + length (rt_calls s (2 * k + 1))
    \<and> ti_bytes (rt_slots s k) \<le> sum_list (rt_calls s (2 * k)) + sum_list (rt_calls s (2 * k + 1))
    \<and> (rt_calls s (2 * k) = [] \<or> rt_calls s (2 * k + 1) = [] \<longrightarrow>
        ti_pkts (rt_slots s k) = length (rt_calls s (2 * k) @ rt_calls s (2 * k + 1))
      \<and> ti_bytes (rt_slots s k) = sum_list (rt_calls s (2 * k) @ rt_calls s (2 * k + 1)))
    \<and> (2 \<le> n \<longrightarrow> (\<exists>s'. reached n s' \<and> rt_pc s' = (\<lambda>_. Idle) \<and> rt_frames_received s' = 2
        \<and> (\<forall>k > 0. ti_pkts (rt_slots s' k) = 0) \<and> ti_pkts (rt_slots s' 0) = 1))"
proof -
  have "received s = (\<lambda>i. length (rt_calls s i))" by (simp add: received_def assms(2) fun_eq_iff)
  then have total: "rt_frames_received s = (\<Sum>i<n. length (rt_calls s i))" using reached_received [OF assms(1)] by simp
  have bound: "ti_pkts (rt_slots s k) \<le> length (rt_calls s (2 * k)) + length (rt_calls s (2 * k + 1))"
    "ti_bytes (rt_slots s k) \<le> sum_list (rt_calls s (2 * k)) + sum_list (rt_calls s (2 * k + 1))"
    using reached_bounded [OF assms(1), of k] by (simp_all add: slot_simps assms(2))
  have exact: "ti_pkts (rt_slots s k) = length (rt_calls s (2 * k) @ rt_calls s (2 * k + 1))
      \<and> ti_bytes (rt_slots s k) = sum_list (rt_calls s (2 * k) @ rt_calls s (2 * k + 1))"
    if "rt_calls s (2 * k) = [] \<or> rt_calls s (2 * k + 1) = []"
    using reached_exact [OF assms(1), of k] that by (auto simp: slot_simps untouched_def assms(2))
  have lost: "\<exists>s'. reached n s' \<and> rt_pc s' = (\<lambda>_. Idle) \<and> rt_frames_received s' = 2
      \<and> (\<forall>k > 0. ti_pkts (rt_slots s' k) = 0) \<and> ti_pkts (rt_slots s' 0) = 1" if n: "2 \<le> n"
  proof -
    let ?s = "fold next_step overlapping race_init"
    have r: "reached n ?s"
      by (rule reached_run [OF reached.initial]) (use n in \<open>auto simp: overlapping_def\<close>)
    have "(\<Sum>i<n. length (rt_calls ?s i)) = (\<Sum>i\<in>{0, 1}. length (rt_calls ?s i))"
      using n by (intro sum.mono_neutral_right) (auto simp: overlapping_run(2))
    then have "rt_frames_received ?s = 2"
      using reached_received [OF r] by (simp add: received_def [abs_def] overlapping_run)
    moreover have "ti_pkts (rt_slots ?s k) = 0" if "0 < k" for k
      using reached_bounded [OF r, of k] that by (simp add: slot_simps overlapping_run)
    ultimately show ?thesis using r overlapping_run(1,3) by blast
  qed
  show ?thesis using total bound exact lost by blast
qed

theorem receiver_race_witness:
  "let s = fold next_step overlapping race_init in reached 2 s
    \<and> rt_frames_received s = (\<Sum>i<2. length (rt_calls s i))
    \<and> ti_pkts (rt_slots s 0) \<le> length (rt_calls s (2 * 0)) + length (rt_calls s (2 * 0 + 1))
    \<and> ti_bytes (rt_slots s 0) \<le> sum_list (rt_calls s (2 * 0)) + sum_list (rt_calls s (2 * 0 + 1))
    \<and> (\<exists>s'. reached 2 s' \<and> rt_pc s' = (\<lambda>_. Idle) \<and> rt_frames_received s' = 2
        \<and> (\<forall>k > 0. ti_pkts (rt_slots s' k) = 0) \<and> ti_pkts (rt_slots s' 0) = 1)"
proof -
  have r: "reached 2 (fold next_step overlapping race_init)"
    by (rule reached_run [OF reached.initial]) (auto simp: overlapping_def)
  show ?thesis unfolding Let_def using receiver_race [OF r overlapping_run(1), of 0] r by blast
qed

text \<open>The streams of a sender that has ended with success.\<close>

lemma sender_main_streams:
  assumes "is_int p" "is_int q" "is_int fps" "nthreads < 2 ^ 31"
    and "sender_main envs period_of finish (sender_args input result la p ra q nthreads fps format srtp) d = Inr oc"
    and "oc_status oc = EXIT_SUCCESS"
  shows "\<exists>c. map fst (oc_sent oc) = map c (sender_streams p q nthreads format srtp) \<and> (\<forall>a b. reaches (c a) b = reaches a b)"
proof -
  let ?fps = "configure_ctx RCC_FPS_NUMERATOR fps" and ?buf = "configure_ctx RCC_UDP_SND_BUF_SIZE (40 * 1000 * 1000)"
  note args = sender_main_def sender_args_def Let_def nth_numeral_Cons atoi_is_int [OF assms(1)] atoi_is_int [OF assms(2)]
    atoi_is_int [OF assms(3)] atoi_show_nat [OF assms(4)]
  have fail: "EXIT_FAILURE \<noteq> EXIT_SUCCESS" by (simp add: EXIT_FAILURE_def EXIT_SUCCESS_def)
  show ?thesis
  proof (cases "get_atlas_state format")
    case True
    then obtain s where "oc_sent oc = zip (map ?buf (map ?fps (sender_streams p q nthreads format srtp))) [s]"
      using assms(5,6) fail by (auto simp: args rbind_eq_Inr split: prod.splits if_splits)
    moreover have "length (sender_streams p q nthreads format srtp) = 1" using True by (simp add: sender_streams_def)
    ultimately have "map fst (oc_sent oc) = map (?buf \<circ> ?fps) (sender_streams p q nthreads format srtp)" by simp
    then show ?thesis by (intro exI [of _ "?buf \<circ> ?fps"]) (simp add: reaches_configure)
  next
    case False
    obtain mem len where mem: "get_mem input 0 d = (mem, len)" by fastforce
    obtain rs where run: "run_all (\<lambda>i. sender_thread (envs i) (reachable mem) (period_of fps)
        (get_chunk_sizes (open_in (get_chunk_filename input) d) [])) [0..<nthreads] = Inr rs"
      and "oc_sent oc = zip (map ?fps (sender_streams p q nthreads format srtp)) (map (\<lambda>r. cs_world (snd r)) rs)"
      using assms(5,6) fail False by (auto simp: args mem rbind_eq_Inr split: if_splits)
    moreover have "length rs = nthreads" using run_all_length [OF run] by simp
    moreover have "length (sender_streams p q nthreads format srtp) = nthreads" using False by (simp add: sender_streams_def)
    ultimately have "map fst (oc_sent oc) = map ?fps (sender_streams p q nthreads format srtp)" by simp
    then show ?thesis by (intro exI [of _ ?fps]) (simp add: reaches_configure)
  qed
qed

text \<open>
  C26: the threads of a throughput test meet. Start the two programs with crossed ports and the same number of threads (at
  most 32768), format and SRTP arguments, and let the sender end with success. Both have the same number of streams, and stream \<open>i\<close> of the sender reaches
  stream \<open>j\<close> of the receiver exactly when \<open>i = j\<close>, although ports wrap at sixteen bits; except that with the atlas
  format and SRTP nothing arrives. The receiver's array has the slot of every stream, except for the
  atlas format with zero threads.
\<close>

theorem programs_meet:
  assumes "is_int p" "is_int q" "is_int fps" "nthreads \<le> 32768"
    and "sender_main envs period_of finish (sender_args input result la p ra q nthreads fps format srtp) d = Inr oc"
    and "oc_status oc = EXIT_SUCCESS"
  shows "\<exists>plan. receiver_setup (receiver_args result' la' q ra' p nthreads format srtp) = Inr (Some plan)
    \<and> length (oc_sent oc) = length (rp_streams plan)
    \<and> (\<forall>i < length (oc_sent oc). \<forall>j < length (oc_sent oc). reaches (fst (oc_sent oc ! i)) (rp_streams plan ! j)
        \<longleftrightarrow> i = j \<and> \<not> (get_atlas_state format \<and> get_srtp_state srtp))
    \<and> (\<forall>j < length (rp_streams plan). tid_of j < rp_slots plan \<longleftrightarrow> 0 < nthreads)"
proof -
  have n: "nthreads < 2 ^ 31" using assms(4) by simp
  obtain c where c: "map fst (oc_sent oc) = map c (sender_streams p q nthreads format srtp)" "\<forall>a b. reaches (c a) b = reaches a b"
    using sender_main_streams [OF assms(1-3) n assms(5,6)] by blast
  have len: "length (oc_sent oc) = length (sender_streams p q nthreads format srtp)"
    using arg_cong [OF c(1), of length] by simp
  have plan: "receiver_setup (receiver_args result' la' q ra' p nthreads format srtp)
      = Inr (Some \<lparr>rp_result_filename = result', rp_slots = nthreads, rp_streams = receiver_streams q p nthreads format srtp\<rparr>)"
    by (simp add: receiver_setup_def receiver_args_def nth_numeral_Cons atoi_is_int assms(1,2) atoi_show_nat [OF n])
  have same: "length (sender_streams p q nthreads format srtp) = length (receiver_streams q p nthreads format srtp)"
    by (simp add: sender_streams_def receiver_streams_def)
  have "reaches (fst (oc_sent oc ! i)) (receiver_streams q p nthreads format srtp ! j)
      \<longleftrightarrow> i = j \<and> \<not> (get_atlas_state format \<and> get_srtp_state srtp)"
    if "i < length (oc_sent oc)" "j < length (oc_sent oc)" for i j
  proof -
    have "fst (oc_sent oc ! i) = map fst (oc_sent oc) ! i" using that by simp
    then have "fst (oc_sent oc ! i) = c (sender_streams p q nthreads format srtp ! i)" unfolding c(1) using that len by simp
    then show ?thesis using uvgrtp_threads_meet [OF _ _ assms(4)] that len same c(2) by simp
  qed
  moreover have "tid_of j < nthreads \<longleftrightarrow> 0 < nthreads" if "j < length (receiver_streams q p nthreads format srtp)" for j
    using that by (auto simp: receiver_streams_def tid_of_def split: if_splits)
  ultimately show ?thesis using plan len same by simp
qed

theorem programs_meet_witness:
  "\<exists>(oc :: outcome) plan. receiver_setup (receiver_args ''out'' ''::1'' 9002 ''::1'' 9000 2 ''hevc'' ''yes'') = Inr (Some plan)
    \<and> length (oc_sent oc) = length (rp_streams plan) \<and> length (oc_sent oc) = 2
    \<and> (\<forall>i < length (oc_sent oc). \<forall>j < length (oc_sent oc). reaches (fst (oc_sent oc ! i)) (rp_streams plan ! j)
        \<longleftrightarrow> i = j \<and> \<not> (get_atlas_state ''hevc'' \<and> get_srtp_state ''yes''))
    \<and> (\<forall>j < length (rp_streams plan). tid_of j < rp_slots plan \<longleftrightarrow> (0 :: nat) < 2)"
proof -
  let ?d = "empty_disk\<lparr>d_files := [''a.hevc'' \<mapsto> [1, 2, 3], ''a.mhevc'' \<mapsto> concat (map (le_bytes 8) [2, 1])]\<rparr>"
  have "get_chunk_sizes (Some (concat (map (le_bytes 8) [2, 1]))) [] = [2, 1]"
    using read_sizes_concat [of "[2, 1]" "[]" "[]"] by (simp add: get_chunk_sizes_def)
  moreover have "\<exists>r s. sender_thread steady_env [1, 2, 3] 40 [2, 1] = Inr (r, s)"
    using sender_thread_run [of "[2, 1]" "[1, 2, 3]" 40 steady_env] by auto
  then obtain r s where "sender_thread steady_env [1, 2, 3] 40 [2, 1] = Inr (r, s)" by blast
  ultimately obtain oc where oc: "sender_main (\<lambda>_. steady_env) (\<lambda>_. 40) [0, 1]
      (sender_args ''a.hevc'' ''out'' ''::1'' 9000 ''::1'' 9002 2 30 ''hevc'' ''yes'') ?d = Inr oc" "oc_status oc = EXIT_SUCCESS"
      "length (oc_sent oc) = 2"
    using sender_main_chunks [of 9000 9002 30 2 "''hevc''" "''a.hevc''" ?d "[1, 2, 3]" "concat (map (le_bytes 8) [2, 1])" "[2, 1]"
        "\<lambda>_. steady_env" "\<lambda>_. 40" "\<lambda>_. r" "\<lambda>_. s" "[0, 1]" "''out''" "''::1''" "''::1''" "''yes''"]
    by (simp add: is_int_def get_atlas_state_def open_in_def empty_disk_def get_chunk_filename_def sender_streams_def)
  show ?thesis
    using programs_meet [OF _ _ _ _ oc(1,2), of "''out''" "''::1''" "''::1''"] oc(3) by (intro exI [of _ oc]) (simp add: is_int_def)
qed

end
