(* ===== verification/FFmpeg_Latency.thy ===== *)
theory FFmpeg_Latency
  imports Senders
begin

section \<open>The FFmpeg latency test: ffmpeg/latency_sender.cc\<close>

text \<open>
  The two threads of the measuring program, which share \<open>timestamps\<close>, a map from chunk sizes to
  send times, and \<open>timestamps2\<close>, the send times in order. \<open>sender\<close> writes the file chunk by chunk;
  \<open>receiver\<close> takes the packets that come back. Each is modelled with what the other thread
  does to the shared containers between its iterations as an input.
\<close>

subsection \<open>The sending thread\<close>

record ff_sender =
  fl_timestamps :: "nat \<rightharpoonup> nat"
  fl_timestamps2 :: "nat list"
  fl_ff_key :: nat
  fl_current_frame :: u64
  fl_offset :: nat
  fl_world :: world

definition ff_sender_init :: ff_sender where
  "ff_sender_init = \<lparr>fl_timestamps = Map.empty, fl_timestamps2 = [], fl_ff_key = 0, fl_current_frame = 0,
     fl_offset = 0, fl_world = world_init\<rparr>"

text \<open>An item is the keys the receiving thread has erased since the last iteration, and the chunk size.\<close>

definition erase_keys :: "nat list \<Rightarrow> (nat \<rightharpoonup> nat) \<Rightarrow> (nat \<rightharpoonup> nat)" where
  "erase_keys keys m = fold (\<lambda>key m. m(key := None)) keys m"

definition ff_sender_body :: "env \<Rightarrow> u8 list \<Rightarrow> u64 \<Rightarrow> nat list \<times> nat \<Rightarrow> ff_sender \<Rightarrow> (bool \<times> ff_sender) res" where
  "ff_sender_body env mem period = (\<lambda>(erased, chunk_size) s.
     let s = s\<lparr>fl_timestamps := erase_keys erased (fl_timestamps s)\<rparr>;
         s = (if fl_offset s = 0 then s\<lparr>fl_ff_key := chunk_size\<rparr> else s) in
     if fl_timestamps s chunk_size \<noteq> None then Inr (True, s)
     else
       let now = w_now (fl_world s);
           s = s\<lparr>fl_timestamps := (fl_timestamps s)(chunk_size \<mapsto> now), fl_timestamps2 := fl_timestamps2 s @ [now]\<rparr> in
       rbind (push_frame env mem (fl_offset s) (pkt_size chunk_size) (fl_world s)) (\<lambda>(_, w).
       let current_frame = fl_current_frame s + 1 in
       Inr (True, s\<lparr>fl_current_frame := current_frame, fl_offset := fl_offset s + chunk_size,
                    fl_world := pace env period current_frame w\<rparr>)))"

definition ff_latency_sender :: "env \<Rightarrow> u8 list \<Rightarrow> u64 \<Rightarrow> (nat list \<times> nat) list \<Rightarrow> (bool \<times> ff_sender) res" where
  "ff_latency_sender env mem period items = for_each (ff_sender_body env mem period) items ff_sender_init"

text \<open>The chunk sizes that are not skipped, when the sizes \<open>seen\<close> are in the map.\<close>

fun kept_sizes :: "nat set \<Rightarrow> (nat list \<times> nat) list \<Rightarrow> nat list" where
  "kept_sizes seen [] = []"
| "kept_sizes seen ((erased, n) # items) =
     (if n \<in> seen - set erased then kept_sizes (seen - set erased) items
      else n # kept_sizes (insert n (seen - set erased)) items)"

lemma dom_erase_keys [simp]: "dom (erase_keys keys m) = dom m - set keys"
  by (induction keys arbitrary: m) (auto simp: erase_keys_def)

lemma erase_keys_None: "erase_keys keys m n = None \<longleftrightarrow> n \<notin> dom m - set keys"
  by (metis dom_erase_keys domIff)

lemma kept_sizes_le: "length (kept_sizes seen items) \<le> length items"
  by (induction seen items rule: kept_sizes.induct) auto

lemma kept_sizes_sum: "sum_list (kept_sizes seen items) \<le> sum_list (map snd items)"
  by (induction seen items rule: kept_sizes.induct) auto

lemma kept_sizes_distinct:
  "distinct (map snd items) \<Longrightarrow> seen \<inter> snd ` set items = {} \<Longrightarrow> kept_sizes seen items = map snd items"
  by (induction seen items rule: kept_sizes.induct) auto

definition ff_view :: "ff_sender \<Rightarrow> chunk_state" where
  "ff_view s = \<lparr>cs_bytes_sent = fl_offset s, cs_current_frame = fl_current_frame s, cs_world = fl_world s\<rparr>"

definition ff_sender_inv :: "u8 list \<Rightarrow> u64 \<Rightarrow> nat \<Rightarrow> (nat list \<times> nat) list \<Rightarrow> ff_sender \<Rightarrow> bool" where
  "ff_sender_inv mem period lim items s \<longleftrightarrow> ffmpeg_inv mem period lim (map snd items) (ff_view s)
     \<and> fl_timestamps2 s = map fst (w_log (fl_world s))"

definition ff_sender_rest :: "u8 list \<Rightarrow> (nat list \<times> nat) list \<Rightarrow> ff_sender \<Rightarrow> u8 list list" where
  "ff_sender_rest mem items s = slices mem (fl_offset s) (kept_sizes (dom (fl_timestamps s)) items)"

lemma ff_sender_body_ok:
  assumes inv: "ff_sender_inv mem period lim (item # items) s" and time: "on_time length (unat period) (fl_world s)"
  shows "\<exists>s'. ff_sender_body env mem period item s = Inr (True, s') \<and> on_time length (unat period) (fl_world s')
    \<and> pushed (fl_world s') @ ff_sender_rest mem items s' = pushed (fl_world s) @ ff_sender_rest mem (item # items) s
    \<and> ff_sender_inv mem period lim items s'"
proof -
  obtain erased n where item: "item = (erased, n)" by fastforce
  let ?ts = "erase_keys erased (fl_timestamps s)"
  let ?s = "s\<lparr>fl_timestamps := ?ts\<rparr>"
  let ?s = "if fl_offset s = 0 then ?s\<lparr>fl_ff_key := n\<rparr> else ?s"
  show ?thesis
  proof (cases "?ts n")
    case (Some t)
    then have "n \<in> dom (fl_timestamps s) - set erased" using erase_keys_None [of erased "fl_timestamps s" n] by auto
    then have "ff_sender_rest mem items ?s = ff_sender_rest mem (item # items) s"
      by (simp add: ff_sender_rest_def item)
    moreover have "ff_sender_body env mem period item s = Inr (True, ?s)"
      using Some by (simp add: ff_sender_body_def item Let_def)
    moreover have "ff_sender_inv mem period lim items ?s"
      using inv by (auto simp: ff_sender_inv_def ffmpeg_inv_def chunk_inv_def ff_view_def item)
    moreover have "fl_world ?s = fl_world s" by simp
    ultimately show ?thesis using time by (intro exI [of _ ?s]) simp
  next
    case None
    obtain ok w where w: "push_frame env mem (fl_offset s) n (fl_world s) = Inr (ok, w)"
      and p: "pushed w = pushed (fl_world s) @ [take n (drop (fl_offset s) mem)]"
      and cf: "unat (fl_current_frame s + 1) = length (pushed w)"
      and on: "on_time length (unat period) (pace env period (fl_current_frame s + 1) w)"
      using push_and_pace [of "fl_offset s" n mem period "fl_world s" "fl_current_frame s" lim env] time inv
      by (auto simp: ff_sender_inv_def ffmpeg_inv_def chunk_inv_def ff_view_def item)
    have log: "map fst (w_log w) = map fst (w_log (fl_world s)) @ [w_now (fl_world s)]"
      using w by (auto simp: push_frame_def rbind_eq_Inr Let_def)
    let ?s' = "?s\<lparr>fl_timestamps := ?ts(n \<mapsto> w_now (fl_world s)), fl_timestamps2 := fl_timestamps2 s @ [w_now (fl_world s)],
      fl_current_frame := fl_current_frame s + 1, fl_offset := fl_offset s + n,
      fl_world := pace env period (fl_current_frame s + 1) w\<rparr>"
    have "n < 2147483648" using inv by (simp add: ff_sender_inv_def ffmpeg_inv_def item)
    then have "ff_sender_body env mem period item s = Inr (True, ?s')"
      using None w by (cases "fl_offset s = 0") (simp_all add: ff_sender_body_def item pkt_size_small Let_def)
    moreover have "ff_sender_inv mem period lim items ?s'"
      using inv p cf log by (simp add: ff_sender_inv_def ffmpeg_inv_def chunk_inv_def ff_view_def item)
    moreover have "n \<notin> dom (fl_timestamps s) - set erased"
      using None by (simp add: erase_keys_None)
    then have "ff_sender_rest mem (item # items) s = take n (drop (fl_offset s) mem) # ff_sender_rest mem items ?s'"
      by (auto simp: ff_sender_rest_def item)
    ultimately show ?thesis using p on by (intro exI [of _ ?s']) simp
  qed
qed

interpretation ff_sender: paced "ff_sender_body env mem period" fl_world length "unat period"
    "ff_sender_inv mem period lim" "ff_sender_rest mem" True
  for env mem period lim
proof
  fix i "is" s
  assume "ff_sender_inv mem period lim (i # is) s" "on_time length (unat period) (fl_world s)"
  from ff_sender_body_ok [OF this, of env]
  show "\<exists>go s' ys. ff_sender_body env mem period i s = Inr (go, s') \<and> log_on_time length (unat period) (fl_world s')
    \<and> (True \<longrightarrow> go) \<and> pushed (fl_world s') @ ys = pushed (fl_world s) @ ff_sender_rest mem (i # is) s
    \<and> (go \<longrightarrow> ff_sender_inv mem period lim is s' \<and> on_time length (unat period) (fl_world s') \<and> ys = ff_sender_rest mem is s')"
    using on_time_log by blast
qed (simp add: ff_sender_rest_def)

subsection \<open>The receiving thread\<close>

record ff_receiver =
  fr_timestamps2 :: "nat list"
  fr_frame_total :: nat
  fr_intra_total :: nat
  fr_inter_total :: nat
  fr_frames :: nat
  fr_intras :: nat
  fr_inters :: nat

definition ff_receiver_init :: ff_receiver where
  "ff_receiver_init = \<lparr>fr_timestamps2 = [], fr_frame_total = 0, fr_intra_total = 0, fr_inter_total = 0,
     fr_frames = 0, fr_intras = 0, fr_inters = 0\<rparr>"

text \<open>
  An item is the send times pushed since the last packet, the time, and the packet. The flag is false
  at \<open>break\<close>.
\<close>

type_synonym packet = "nat list \<times> nat \<times> u8 list"

definition ff_receiver_body :: "packet \<Rightarrow> ff_receiver \<Rightarrow> (bool \<times> ff_receiver) res" where
  "ff_receiver_body = (\<lambda>(sent, now, packet) s.
     let queue = fr_timestamps2 s @ sent in
     rbind (if queue = [] then Inl Empty_Container else Inr (hd queue)) (\<lambda>front.
     let diff = now - front; s = s\<lparr>fr_timestamps2 := tl queue\<rparr> in
     rbind (rd8 packet 3) (\<lambda>b.
     let s = (if nalu_type b = 19 then s\<lparr>fr_intra_total := fr_intra_total s + diff div 1000, fr_intras := fr_intras s + 1\<rparr>
              else if nalu_type b = 1 then s\<lparr>fr_inter_total := fr_inter_total s + diff div 1000, fr_inters := fr_inters s + 1\<rparr>
              else s);
         s = s\<lparr>fr_frames := fr_frames s + 1\<rparr> in
     if fr_frames s < 596 then Inr (True, s\<lparr>fr_frame_total := fr_frame_total s + diff div 1000\<rparr>)
     else Inr (False, s))))"

definition ff_latency_receiver :: "packet list \<Rightarrow> (bool \<times> ff_receiver) res" where
  "ff_latency_receiver packets = for_each ff_receiver_body packets ff_receiver_init"

text \<open>The specification: the latency in milliseconds and NAL unit type of each packet.\<close>

definition measure_one :: "nat \<Rightarrow> packet \<Rightarrow> nat \<times> u8" where
  "measure_one t = (\<lambda>(_, now, x). ((now - t) div 1000, nalu_type (x ! 3)))"

definition sent_times :: "packet list \<Rightarrow> nat list" where
  "sent_times packets = concat (map fst packets)"

lemma ff_receiver_run:
  assumes "\<forall>k < length ps. k < length (fr_timestamps2 s) + length (sent_times (take (Suc k) ps))"
    and "\<forall>(_, _, x) \<in> set ps. 3 < length x" and "fr_frames s < 596"
    and "ms = map2 measure_one (fr_timestamps2 s @ sent_times ps) ps"
  shows "\<exists>s'. for_each ff_receiver_body ps s = Inr (fr_frames s + length ps < 596, s')
    \<and> fr_frames s' = min (fr_frames s + length ps) 596
    \<and> fr_frame_total s' = fr_frame_total s + sum_list (map fst (take (595 - fr_frames s) ms))
    \<and> (fr_intras s', fr_intra_total s')
      = (fr_intras s + fst (total_of 19 (take (596 - fr_frames s) ms)), fr_intra_total s + snd (total_of 19 (take (596 - fr_frames s) ms)))
    \<and> (fr_inters s', fr_inter_total s')
      = (fr_inters s + fst (total_of 1 (take (596 - fr_frames s) ms)), fr_inter_total s + snd (total_of 1 (take (596 - fr_frames s) ms)))"
  using assms
proof (induction ps arbitrary: s ms)
  case Nil
  then show ?case by (simp add: total_of_def)
next
  case (Cons p ps)
  obtain sent now x where p: "p = (sent, now, x)" by (cases p) auto
  obtain t q where q: "fr_timestamps2 s @ sent = t # q"
    using Cons.prems(1) by (cases "fr_timestamps2 s @ sent") (auto simp: p sent_times_def)
  let ?d = "(now - t) div 1000" and ?ty = "nalu_type (x ! 3)"
  let ?s1 = "s\<lparr>fr_timestamps2 := q\<rparr>"
  let ?s2 = "if ?ty = 19 then ?s1\<lparr>fr_intra_total := fr_intra_total s + ?d, fr_intras := fr_intras s + 1\<rparr>
    else if ?ty = 1 then ?s1\<lparr>fr_inter_total := fr_inter_total s + ?d, fr_inters := fr_inters s + 1\<rparr> else ?s1"
  let ?s3 = "?s2\<lparr>fr_frames := fr_frames s + 1\<rparr>"
  have x: "3 < length x" using Cons.prems(2) by (simp add: p)
  have all: "fr_timestamps2 s @ sent_times (p # ps) = t # q @ sent_times ps"
    using q by (simp add: sent_times_def p)
  have m1: "measure_one t p = (?d, ?ty)" by (simp add: measure_one_def p)
  have ms: "ms = (?d, ?ty) # map2 measure_one (q @ sent_times ps) ps"
    unfolding Cons.prems(4) all by (simp add: m1)
  have body: "ff_receiver_body p s = (if fr_frames s + 1 < 596
      then Inr (True, ?s3\<lparr>fr_frame_total := fr_frame_total s + ?d\<rparr>) else Inr (False, ?s3))"
    unfolding ff_receiver_body_def p Let_def prod.case q using x by simp
  show ?case
  proof (cases "fr_frames s + 1 < 596")
    case False
    then have "596 - fr_frames s = 1" "595 - fr_frames s = 0" using Cons.prems(3) by simp_all
    then show ?thesis using False Cons.prems(3) by (simp add: body ms total_of_def)
  next
    case True
    let ?s4 = "?s3\<lparr>fr_frame_total := fr_frame_total s + ?d\<rparr>"
    let ?ms = "map2 measure_one (q @ sent_times ps) ps"
    have q4: "fr_timestamps2 ?s4 = q" by simp
    have "k < length q + length (sent_times (take (Suc k) ps))" if "k < length ps" for k
      using Cons.prems(1) [rule_format, of "Suc k"] that arg_cong [OF q, of length]
      by (simp add: sent_times_def p)
    then have pre: "\<forall>k < length ps. k < length (fr_timestamps2 ?s4) + length (sent_times (take (Suc k) ps))"
      "\<forall>(_, _, x) \<in> set ps. 3 < length x" "fr_frames ?s4 < 596" "?ms = map2 measure_one (fr_timestamps2 ?s4 @ sent_times ps) ps"
      unfolding q4 using Cons.prems(2) True by simp_all
    obtain s' where s': "for_each ff_receiver_body ps ?s4 = Inr (fr_frames ?s4 + length ps < 596, s')"
      "fr_frames s' = min (fr_frames ?s4 + length ps) 596"
      "fr_frame_total s' = fr_frame_total ?s4 + sum_list (map fst (take (595 - fr_frames ?s4) ?ms))"
      "(fr_intras s', fr_intra_total s') = (fr_intras ?s4 + fst (total_of 19 (take (596 - fr_frames ?s4) ?ms)),
         fr_intra_total ?s4 + snd (total_of 19 (take (596 - fr_frames ?s4) ?ms)))"
      "(fr_inters s', fr_inter_total s') = (fr_inters ?s4 + fst (total_of 1 (take (596 - fr_frames ?s4) ?ms)),
         fr_inter_total ?s4 + snd (total_of 1 (take (596 - fr_frames ?s4) ?ms)))"
      using Cons.IH [OF pre] by blast
    have n: "596 - fr_frames s = Suc (596 - (fr_frames s + 1))" "595 - fr_frames s = Suc (595 - (fr_frames s + 1))"
      using True by simp_all
    show ?thesis
      using True s' unfolding ms n by (intro exI [of _ s']) (simp add: body total_of_def)
  qed
qed

subsection \<open>Properties\<close>

text \<open>
  What the FFmpeg latency test sends. For chunk sizes that fit the file and an \<open>int\<close>, and whatever the
  receiving thread erases from the map meanwhile, the sending thread stays inside the file, keeps the
  schedule, and pushes the file cut at the chunk sizes it keeps: a size that is still in the map is
  skipped without moving on in the file, so every later frame is cut at the wrong place. The
  send times handed to the receiving thread are those of the pushes, in order. If the chunk
  sizes are distinct, every frame is sent, cut where it should be.
\<close>

theorem ff_latency_sender_sends:
  assumes "sum_list (map snd items) \<le> length mem" and "\<forall>(_, n) \<in> set items. n < 2147483648"
    and "length items * unat period < 2 ^ 64" and "length items < 2 ^ 64"
  shows "\<exists>s. ff_latency_sender env mem period items = Inr (True, s)
    \<and> pushed (fl_world s) = slices mem 0 (kept_sizes {} items)
    \<and> (distinct (map snd items) \<longrightarrow> pushed (fl_world s) = slices mem 0 (map snd items))
    \<and> fl_timestamps2 s = map fst (w_log (fl_world s))
    \<and> (\<forall>k < length (w_log (fl_world s)). k * unat period \<le> fst (w_log (fl_world s) ! k))"
proof -
  have inv: "ff_sender_inv mem period (length items) items ff_sender_init"
    using assms by (auto simp: ff_sender_inv_def ffmpeg_inv_def chunk_inv_def ff_view_def ff_sender_init_def world_init_def pushed_def)
  have start: "on_time length (unat period) (fl_world ff_sender_init)"
    by (simp add: ff_sender_init_def on_time_init)
  obtain s where "for_each (ff_sender_body env mem period) items ff_sender_init = Inr (True, s)"
    "ff_sender_inv mem period (length items) [] s" "on_time length (unat period) (fl_world s)"
    "pushed (fl_world s) = slices mem 0 (kept_sizes {} items)"
    using ff_sender.run_steady [OF inv start, of env]
    by (auto simp: ff_sender_rest_def ff_sender_init_def world_init_def pushed_def)
  then show ?thesis
    using log_on_time_length [OF on_time_log] kept_sizes_distinct [of items "{}"]
    by (intro exI [of _ s]) (auto simp: ff_latency_sender_def ff_sender_inv_def)
qed

theorem ff_latency_sender_sends_witness:
  "\<exists>s. ff_latency_sender demo_env [1, 2, 3, 4, 5, 6, 7] 40 [([], 2), ([], 2), ([2], 3)] = Inr (True, s)
    \<and> pushed (fl_world s) = slices [1, 2, 3, 4, 5, 6, 7] 0 (kept_sizes {} [([], 2), ([], 2), ([2], 3)])
    \<and> (distinct (map snd [([], 2), ([], 2), ([2 :: nat], 3 :: nat)])
         \<longrightarrow> pushed (fl_world s) = slices [1, 2, 3, 4, 5, 6, 7] 0 (map snd [([], 2), ([], 2), ([2 :: nat], 3)]))
    \<and> fl_timestamps2 s = map fst (w_log (fl_world s))
    \<and> (\<forall>k < length (w_log (fl_world s)). k * unat (40 :: u64) \<le> fst (w_log (fl_world s) ! k))"
  by (rule ff_latency_sender_sends) simp_all

text \<open>
  What the FFmpeg latency test measures. If every packet that comes back has its type byte and comes after
  more frames were sent than packets came before it, the receiving thread never takes from an
  empty queue and measures packet \<open>k\<close> against the send time of frame \<open>k\<close>, whichever frame it
  really carries. It stops at the 596th packet; the counters and totals of the intra and inter frames are those of the first
  596 packets, and the overall total, which is divided by 596 too, lacks the last of them.
\<close>

theorem ff_latency_receiver_measures:
  assumes "\<forall>k < length ps. k < length (sent_times (take (Suc k) ps))" and "\<forall>(_, _, x) \<in> set ps. 3 < length x"
    and "ms = map2 measure_one (sent_times ps) ps"
  shows "\<exists>s. ff_latency_receiver ps = Inr (length ps < 596, s) \<and> fr_frames s = min (length ps) 596
    \<and> fr_frame_total s = sum_list (map fst (take 595 ms))
    \<and> (fr_intras s, fr_intra_total s) = total_of 19 (take 596 ms)
    \<and> (fr_inters s, fr_inter_total s) = total_of 1 (take 596 ms)"
  using ff_receiver_run [of ps ff_receiver_init ms] assms
  by (simp add: ff_latency_receiver_def ff_receiver_init_def)

theorem ff_latency_receiver_measures_witness:
  "\<exists>s. ff_latency_receiver [([10, 20], 5010, [0, 0, 1, 38]), ([], 9020, [0, 0, 1, 2])] = Inr (length [0, 0 :: nat] < 596, s)
    \<and> fr_frames s = min (length [0, 0 :: nat]) 596
    \<and> fr_frame_total s = sum_list (map fst (take 595 [(5, 19 :: u8), (9 :: nat, 1)]))
    \<and> (fr_intras s, fr_intra_total s) = total_of 19 (take 596 [(5, 19), (9, 1)])
    \<and> (fr_inters s, fr_inter_total s) = total_of 1 (take 596 [(5, 19), (9, 1)])"
proof -
  let ?ps = "[([10, 20], 5010, [0, 0, 1, 38]), ([], 9020, [0, 0, 1, 2])] :: packet list"
  have "[(5, 19), (9, 1)] = map2 measure_one (sent_times ?ps) ?ps"
    by (simp add: sent_times_def measure_one_def nalu_type_def)
  moreover have "\<forall>k < length ?ps. k < length (sent_times (take (Suc k) ?ps))"
    by (auto simp: less_Suc_eq sent_times_def)
  ultimately show ?thesis
    using ff_latency_receiver_measures [of ?ps "[(5, 19), (9, 1)]"] by simp
qed

end
