(* ===== verification/FFmpeg_Receiver.thy ===== *)
theory FFmpeg_Receiver
  imports Hooks
begin

section \<open>The FFmpeg throughput receiver: ffmpeg/receiver.cc\<close>

text \<open>
  Every thread reads packets until its read is interrupted. The packet counter and the time of the
  last packet are globals of all threads, the byte count is a thread's own. An event is the thread, and the stream
  index, size and time of the packet it read.
\<close>

record ff_threads =
  ft_pkts :: nat
  ft_last :: nat
  ft_size :: "nat list"     \<comment> \<open>\<open>size\<close> of each thread\<close>

definition ff_threads_init :: "nat \<Rightarrow> ff_threads" where
  "ff_threads_init nthreads = \<lparr>ft_pkts = 0, ft_last = 0, ft_size = replicate nthreads 0\<rparr>"

text \<open>The interrupt callback: 1 ends the blocking read. Times are microseconds.\<close>

definition cb :: "nat \<Rightarrow> ff_threads \<Rightarrow> int" where
  "cb now s = (if ft_pkts s \<noteq> 0 then let diff = (now - ft_last s) div 1000 in if 10 \<le> diff then 1 else 0 else 0)"

definition ff_read_body :: "nat \<Rightarrow> nat \<times> nat \<times> nat \<times> nat \<Rightarrow> ff_threads \<Rightarrow> ff_threads res" where
  "ff_read_body video_stream_index = (\<lambda>(thread_num, stream_index, size, now) s.
     let s = (if stream_index = video_stream_index
              then s\<lparr>ft_size := (ft_size s)[thread_num := ft_size s ! thread_num + size]\<rparr> else s) in
     Inr (s\<lparr>ft_pkts := ft_pkts s + 1, ft_last := now\<rparr>))"

text \<open>The line a thread prints: whether it is to be kept, bytes, packets, milliseconds.\<close>

definition ff_report :: "nat \<Rightarrow> nat \<Rightarrow> ff_threads \<Rightarrow> bool \<times> nat \<times> nat \<times> nat" where
  "ff_report start thread_num s = (ft_pkts s = 598, ft_size s ! thread_num, ft_pkts s, (ft_last s - start) div 1000)"

definition video_bytes :: "nat \<Rightarrow> nat \<Rightarrow> (nat \<times> nat \<times> nat \<times> nat) list \<Rightarrow> nat" where
  "video_bytes v th es = sum_list (map (\<lambda>(_, _, n, _). n) (filter (\<lambda>(t, i, _, _). t = th \<and> i = v) es))"

lemma ff_read_run:
  assumes "\<forall>e \<in> set es. fst e < length (ft_size s)" and "th < length (ft_size s)"
  shows "\<exists>s'. run_hook (ff_read_body v) es s = Inr s' \<and> ft_pkts s' = ft_pkts s + length es
    \<and> ft_size s' ! th = ft_size s ! th + video_bytes v th es
    \<and> ft_last s' = (if es = [] then ft_last s else snd (snd (snd (last es))))"
  using assms
proof (induction es arbitrary: s)
  case (Cons e es)
  obtain t i n now where e: "e = (t, i, n, now)" by (cases e) auto
  obtain s1 where run: "ff_read_body v e s = Inr s1" by (simp add: ff_read_body_def e Let_def)
  then have s1: "ff_read_body v e s = Inr s1" "ft_pkts s1 = ft_pkts s + 1" "ft_last s1 = now"
    "ft_size s1 = (if i = v then (ft_size s)[t := ft_size s ! t + n] else ft_size s)"
    by (auto simp: ff_read_body_def e Let_def)
  have len: "length (ft_size s1) = length (ft_size s)" using s1(4) by simp
  obtain s' where "run_hook (ff_read_body v) es s1 = Inr s'" "ft_pkts s' = ft_pkts s1 + length es"
    "ft_size s' ! th = ft_size s1 ! th + video_bytes v th es" "ft_last s' = (if es = [] then ft_last s1 else snd (snd (snd (last es))))"
    using Cons.IH [of s1] Cons.prems len by auto
  then show ?case
    using s1 Cons.prems by (intro exI [of _ s']) (auto simp: e video_bytes_def)
qed (simp add: video_bytes_def)

text \<open>
  What the threads report: each its own bytes, but the packets of all threads together, so with two threads that read
  the expected 598 packets each, no line is kept.
\<close>

lemma ff_receiver_reports:
  assumes "\<forall>e \<in> set es. fst e < nthreads" and "th < nthreads" and "es \<noteq> []"
  shows "\<exists>s. run_hook (ff_read_body v) es (ff_threads_init nthreads) = Inr s
    \<and> ff_report start th s = (length es = 598, video_bytes v th es, length es, (snd (snd (snd (last es))) - start) div 1000)
    \<and> (cb now s = 1 \<longleftrightarrow> 10000 \<le> now - snd (snd (snd (last es))))"
proof -
  obtain s where "run_hook (ff_read_body v) es (ff_threads_init nthreads) = Inr s" "ft_pkts s = length es"
    "ft_size s ! th = video_bytes v th es" "ft_last s = snd (snd (snd (last es)))"
    using ff_read_run [of es "ff_threads_init nthreads" th v] assms by (auto simp: ff_threads_init_def)
  moreover have "10 \<le> k div 1000 \<longleftrightarrow> 10000 \<le> k" for k :: nat by auto
  ultimately show ?thesis
    using assms(3) by (intro exI [of _ s]) (simp add: ff_report_def cb_def Let_def)
qed

end
