(* ===== verification/V3C_Programs.thy ===== *)
theory V3C_Programs
  imports Throughput Latency_Tests
begin

section \<open>The V-PCC throughput test as two programs\<close>

text \<open>
  \<open>main\<close> of \<open>uvgrtp/vpcc_sender.cc\<close> and of \<open>uvgrtp/vpcc_receiver.cc\<close>: command lines, the four streams, the input file,
  the four threads or hooks, and the line appended to the result file. \<open>began t\<close> is the time at which the
  thread of stream \<open>t\<close> starts, in microseconds since the epoch.
\<close>

subsection \<open>What a parsed file spans\<close>

lemma spans_end:
  "(l, n) \<in> set (spans w p xs) \<Longrightarrow> l + n \<le> p + length xs * w + length (concat xs) \<and> n \<in> length ` set xs"
proof (induction w p xs rule: spans.induct)
  case (2 w p x xs)
  show ?case
  proof (cases "(l, n) = (p + w, length x)")
    case False
    then have "(l, n) \<in> set (spans w (p + w + length x) xs)" using 2(2) by auto
    then show ?thesis using 2(1) by auto
  qed simp
qed simp

lemma length_frames: "length (frames (be_bytes w) xs) = length xs * w + length (concat xs)"
  by (induction xs) (simp_all add: frames_def)

definition unit_nals :: "V3C_UNIT_TYPE \<Rightarrow> v3c_file_map \<Rightarrow> nal_info list" where
  "unit_nals t m = concat (map ui_nal_infos (units_of t m))"

lemma file_unit_spans:
  assumes "unit_ok w u" and "i \<in> set (unit_nals t (file_unit l u m))" and "i \<notin> set (unit_nals t m)"
  shows "nal_location i + nal_size i \<le> l + length (unit_payload u) \<and> nal_size i \<in> length ` set (snd (snd (unit_content u)))"
proof (cases u)
  case (Parameter_Set bytes)
  then show ?thesis using assms by (cases t) (auto simp: unit_nals_def new_unit_def)
next
  case (Nal_Units t' h prec nals)
  have "i \<in> (\<lambda>(l, n). nal_item l n) ` set (spans prec (l + length (header_part t' h prec)) nals)"
    using assms Nal_Units by (auto simp: unit_nals_def new_unit_def units_of_push split: if_splits)
  then obtain l' n where "(l', n) \<in> set (spans prec (l + length (header_part t' h prec)) nals)" "i = nal_item l' n" by auto
  then show ?thesis
    using spans_end [of l' n prec "l + length (header_part t' h prec)" nals] Nal_Units
    by (simp add: length_frames)
qed

lemma file_units_spans:
  assumes "\<forall>u \<in> set us. unit_ok w u" and "i \<in> set (unit_nals t (file_units w p us m))" and "i \<notin> set (unit_nals t m)"
  shows "nal_location i + nal_size i \<le> p + length (sample_stream w us)
    \<and> (\<exists>u \<in> set us. nal_size i \<in> length ` set (snd (snd (unit_content u))))"
  using assms
proof (induction us arbitrary: p m)
  case (Cons u us)
  let ?m = "file_unit (p + w) u m"
  have s: "length (sample_stream w (u # us)) = w + length (unit_payload u) + length (sample_stream w us)"
    by (simp add: sample_stream_def)
  show ?case
  proof (cases "i \<in> set (unit_nals t ?m)")
    case True
    then show ?thesis using file_unit_spans [of w u i t "p + w" m] Cons.prems s by auto
  next
    case False
    have ok: "\<forall>u \<in> set us. unit_ok w u" using Cons.prems(1) by simp
    have "i \<in> set (unit_nals t (file_units w (p + w + length (unit_payload u)) us ?m))" using Cons.prems(2) by simp
    from Cons.IH [OF ok this False] show ?thesis using s by auto
  qed
qed simp

text \<open>No NAL unit is empty.\<close>

definition nals_nonempty :: "v3c_unit list \<Rightarrow> bool" where
  "nals_nonempty us \<longleftrightarrow> (\<forall>u \<in> set us. \<forall>x \<in> set (snd (snd (unit_content u))). x \<noteq> [])"

text \<open>The NAL units of a type, as the format has them.\<close>

definition nals_of :: "V3C_UNIT_TYPE \<Rightarrow> v3c_unit list \<Rightarrow> u8 list list" where
  "nals_of t us = concat (map snd (contents_of t us))"

text \<open>A sample stream file: the precision byte, the units, and nothing behind them.\<close>

definition sample_file :: "nat \<Rightarrow> u8 \<Rightarrow> v3c_unit list \<Rightarrow> u8 list \<Rightarrow> bool" where
  "sample_file w b us file \<longleftrightarrow> w \<in> {2, 3} \<and> (\<forall>u \<in> set us. unit_ok w u) \<and> unat (drop_bit 5 b + 1) = w
     \<and> file = b # sample_stream w us"

lemma parsed_sample_file:
  assumes "sample_file w b us file" and "nals_nonempty us"
  obtains m where "mmap_v3c_file file (length file) empty_map = Inr (True, m)"
    and "\<And>t. map (nal_bytes file) (unit_nals t m) = nals_of t us" and "\<And>t. \<forall>i \<in> set (unit_nals t m). nal_in file i"
proof -
  have us: "w \<in> {2, 3}" "\<forall>u \<in> set us. unit_ok w u" "unat (drop_bit 5 b + 1) = w" and fl: "file = b # sample_stream w us @ []"
    using assms(1) by (simp_all add: sample_file_def)
  have len: "length file = 1 + length (sample_stream w us)" by (simp add: fl)
  let ?m = "file_units w 1 us empty_map"
  have parse: "mmap_v3c_file file (length file) empty_map = Inr (True, ?m)"
    using mmap_sample_stream [OF us, of "[]" empty_map] by (simp add: fl)
  have stored: "stored file t ?m = contents_of t us" for t
    using parse_sample_stream_stored [OF us fl len] parse by auto
  have contents: "map (nal_bytes file) (unit_nals t ?m) = nals_of t us" for t
  proof -
    have "concat (map snd (stored file t ?m)) = map (nal_bytes file) (unit_nals t ?m)"
      by (simp add: stored_def unit_nals_def nal_contents_def nal_bytes_def [abs_def] cut_out_def map_concat o_def)
    then show ?thesis unfolding stored nals_of_def by (rule sym)
  qed
  have inside: "nal_in file i" if "i \<in> set (unit_nals t ?m)" for t i
  proof -
    have none: "i \<notin> set (unit_nals t empty_map)" by (cases t) (simp_all add: unit_nals_def empty_map_def)
    show ?thesis
      using file_units_spans [OF us(2) that none] assms(2) len unfolding nals_nonempty_def nal_in_def by auto
  qed
  show thesis by (rule that [OF parse contents]) (use inside in blast)
qed

subsection \<open>uvgrtp/vpcc_sender.cc\<close>

definition vpcc_types :: "V3C_UNIT_TYPE list" where
  "vpcc_types = [V3C_AD, V3C_OVD, V3C_GVD, V3C_AVD]"

definition vpcc_stream_list :: "v3c_streams \<Rightarrow> media_stream list" where
  "vpcc_stream_list s = [st_ad s, st_ovd s, st_gvd s, st_avd s]"

lemma length_vpcc_stream_list [simp]: "length (vpcc_stream_list s) = 4"
  by (simp add: vpcc_stream_list_def)

text \<open>
  The result of the four threads: \<open>bytes_sent\<close> of each and the time from its start to its end. The difference of
  the times is in microseconds; it is written as it is.
\<close>

definition vpcc_sender_result :: "(V3C_UNIT_TYPE \<Rightarrow> nat) \<Rightarrow> (nat \<times> nat) list \<Rightarrow> nat \<times> u64" where
  "vpcc_sender_result began rs =
     (let total_bytes_sent = fst (rs ! 0) + fst (rs ! 1) + fst (rs ! 2) + fst (rs ! 3);
          start = find_earliest_time_point (began V3C_AD) (began V3C_OVD) (began V3C_GVD) (began V3C_AVD);
          end = find_latest_time_point (began V3C_AD + snd (rs ! 0)) (began V3C_OVD + snd (rs ! 1))
                  (began V3C_GVD + snd (rs ! 2)) (began V3C_AVD + snd (rs ! 3));
          diff = int end - int start in
      (total_bytes_sent, word_of_int diff))"

definition vpcc_sender_main ::
  "(V3C_UNIT_TYPE \<Rightarrow> env) \<Rightarrow> (V3C_UNIT_TYPE \<Rightarrow> nat) \<Rightarrow> (int \<Rightarrow> u64) \<Rightarrow> string list \<Rightarrow> disk \<Rightarrow> outcome res" where
  "vpcc_sender_main envs began period_of argv d =
     (let failure = \<lparr>oc_status = EXIT_FAILURE, oc_disk = d, oc_sent = []\<rparr> in
      if length argv \<noteq> 11 then Inr failure
      else let input_file = argv ! 1; result_file = argv ! 2 in
        rbind (atoi (argv ! 4)) (\<lambda>local_port. rbind (atoi (argv ! 6)) (\<lambda>remote_port. rbind (atoi (argv ! 8)) (\<lambda>fps.
        let streams = vpcc_setup {RCE_PACE_FRAGMENT_SENDING} (get_srtp_state (argv ! 10))
              (word_of_int local_port) (word_of_int remote_port) False;
            (mem, len) = get_mem input_file 0 d in
        if mem = Null then Inr failure
        else rbind (mmap_v3c_file (reachable mem) len empty_map) (\<lambda>(_, mmap).
          rbind (run_all (\<lambda>t. vpcc_sender_func (envs t) (reachable mem) t (period_of fps) (units_of t mmap)) vpcc_types) (\<lambda>rs.
          let (total_bytes_sent, diff) = vpcc_sender_result began (map fst rs) in
          Inr \<lparr>oc_status = EXIT_SUCCESS, oc_disk = write_send_results_to_file result_file total_bytes_sent diff d,
            oc_sent = zip (map (\<lambda>m. configure_ctx RCC_UDP_SND_BUF_SIZE (40 * 1000 * 1000) (configure_ctx RCC_FPS_NUMERATOR fps m))
                (vpcc_stream_list streams)) (map (\<lambda>r. vs_world (snd r)) rs)\<rparr>))))))"

subsection \<open>uvgrtp/vpcc_receiver.cc\<close>

text \<open>One call of the hook of some stream.\<close>

type_synonym vpcc_results = "V3C_UNIT_TYPE \<Rightarrow> stream_results"

definition any_vpcc_hook ::
  "V3C_UNIT_TYPE \<times> int \<times> u8 list option \<Rightarrow> vpcc_results \<times> bool \<Rightarrow> (vpcc_results \<times> bool) res" where
  "any_vpcc_hook = (\<lambda>(t, now, frame) (rs, frame_received).
     rbind (vpcc_hook (now, frame) (rs t, frame_received)) (\<lambda>(r, b). Inr (rs(t := r), b)))"

text \<open>
  \<open>while (frame_received)\<close> with the calls of the hooks in each \<open>TIMEOUT\<close>; \<open>None\<close> when it still waits after all of them.
\<close>

primrec vpcc_wait ::
  "(V3C_UNIT_TYPE \<times> int \<times> u8 list option) list list \<Rightarrow> vpcc_results \<times> bool \<Rightarrow> vpcc_results option res" where
  "vpcc_wait [] s = Inr (if snd s then None else Some (fst s))"
| "vpcc_wait (arrived # periods) s =
     (if snd s then rbind (run_hook any_vpcc_hook arrived (fst s, False)) (vpcc_wait periods) else Inr (Some (fst s)))"

text \<open>The exit status and the disk; \<open>None\<close> while frames keep coming.\<close>

definition vpcc_receiver_main ::
  "(V3C_UNIT_TYPE \<times> int \<times> u8 list option) list list \<Rightarrow> string list \<Rightarrow> disk
    \<Rightarrow> (int \<times> disk \<times> media_stream list) option res" where
  "vpcc_receiver_main periods argv d =
     (if length argv \<noteq> 9 then Inr (Some (EXIT_FAILURE, d, []))
      else rbind (atoi (argv ! 3)) (\<lambda>local_port. rbind (atoi (argv ! 5)) (\<lambda>remote_port.
        let streams = vpcc_setup {} (get_srtp_state (argv ! 8)) (word_of_int local_port) (word_of_int remote_port) True in
        rbind (vpcc_wait periods (\<lambda>_. results_init, True)) (\<lambda>rs. Inr (map_option (\<lambda>r.
          let (bytes, packets, diff) = vpcc_receiver_result (r V3C_AD) (r V3C_OVD) (r V3C_GVD) (r V3C_AVD) in
          (EXIT_SUCCESS, write_receive_results_to_file (argv ! 1) bytes packets (word_of_int diff) d,
           vpcc_stream_list streams)) rs)))))"

subsection \<open>The frames of a stream\<close>

definition frames_at :: "V3C_UNIT_TYPE \<Rightarrow> (V3C_UNIT_TYPE \<times> int \<times> u8 list option) list \<Rightarrow> (int \<times> u8 list) list" where
  "frames_at t es = map (\<lambda>(now, f). (now, the f)) (on_stream t es)"

lemma any_vpcc_hook_run:
  assumes "\<forall>e \<in> set es. snd (snd e) \<noteq> None"
  shows "run_hook any_vpcc_hook es (\<lambda>t. results_of (ev t), b)
    = Inr (\<lambda>t. results_of (ev t @ frames_at t es), b \<or> es \<noteq> [])"
  using assms
proof (induction es arbitrary: ev b)
  case Nil
  then show ?case by (simp add: frames_at_def)
next
  case (Cons e es)
  obtain t now x where e: "e = (t, now, Some x)" using Cons.prems by (cases e) auto
  let ?ev = "ev(t := ev t @ [(now, x)])"
  have "vpcc_hook (now, Some x) (results_of (ev t), b) = Inr (results_of (ev t @ [(now, x)]), True)"
    using vpcc_hook_step [of "Some x" now "ev t" b] by (simp add: results_upd_def)
  then have "any_vpcc_hook e (\<lambda>t. results_of (ev t), b) = Inr (\<lambda>t. results_of (?ev t), True)"
    by (simp add: any_vpcc_hook_def e fun_eq_iff)
  moreover have "(\<lambda>t'. results_of (?ev t' @ frames_at t' es)) = (\<lambda>t'. results_of (ev t' @ frames_at t' (e # es)))"
    by (simp add: frames_at_def e fun_eq_iff)
  ultimately show ?case
    using Cons.IH [of ?ev True] Cons.prems by simp
qed

lemma frames_at_append: "frames_at t (es @ fs) = frames_at t es @ frames_at t fs"
  by (simp add: frames_at_def)

lemma vpcc_wait_run:
  assumes "\<forall>es \<in> set busy. es \<noteq> [] \<and> (\<forall>e \<in> set es. snd (snd e) \<noteq> None)"
  shows "vpcc_wait (busy @ [] # after) (\<lambda>t. results_of (ev t), True)
    = Inr (Some (\<lambda>t. results_of (ev t @ frames_at t (concat busy))))"
  using assms
proof (induction busy arbitrary: ev)
  case Nil
  have "vpcc_wait after (\<lambda>t. results_of (ev t), False) = Inr (Some (\<lambda>t. results_of (ev t)))"
    by (cases after) simp_all
  then show ?case by (simp add: frames_at_def)
next
  case (Cons es busy)
  have "run_hook any_vpcc_hook es (\<lambda>t. results_of (ev t), False) = Inr (\<lambda>t. results_of (ev t @ frames_at t es), True)"
    using any_vpcc_hook_run [of es ev False] Cons.prems by simp
  then show ?case
    using Cons.IH [of "\<lambda>t. ev t @ frames_at t es"] Cons.prems by (simp add: frames_at_append)
qed

lemma vpcc_sender_main_run:
  assumes "open_in input d = Some file" "sample_file w b us file" "nals_nonempty us" and "is_int p" "is_int q" "is_int fps"
    and sched: "\<forall>t \<in> set vpcc_types. length (nals_of t us) * unat (period_of fps) < 2 ^ 64 \<and> length (nals_of t us) < 2 ^ 64"
  shows "\<exists>oc diff. vpcc_sender_main envs began period_of (sender_args input result la p ra q nthreads fps format srtp) d = Inr oc
    \<and> oc_status oc = EXIT_SUCCESS \<and> map (\<lambda>sw. pushed (snd sw)) (oc_sent oc) = map (\<lambda>t. nals_of t us) vpcc_types
    \<and> map fst (oc_sent oc) = map (\<lambda>m. configure_ctx RCC_UDP_SND_BUF_SIZE (40 * 1000 * 1000) (configure_ctx RCC_FPS_NUMERATOR fps m))
        (vpcc_stream_list (vpcc_setup {RCE_PACE_FRAGMENT_SENDING} (get_srtp_state srtp) (word_of_int p) (word_of_int q) False))
    \<and> oc_disk oc = write_send_results_to_file result (\<Sum>t \<leftarrow> vpcc_types. length (concat (nals_of t us))) diff d"
proof -
  obtain m where m: "mmap_v3c_file file (length file) empty_map = Inr (True, m)"
    "\<And>t. map (nal_bytes file) (unit_nals t m) = nals_of t us" "\<And>t. \<forall>i \<in> set (unit_nals t m). nal_in file i"
    using parsed_sample_file [OF assms(2,3)] by blast
  have len: "length (unit_nals t m) = length (nals_of t us)" for t using arg_cong [OF m(2) [of t], of length] by simp
  have "\<exists>x s. vpcc_sender_func (envs t) file t (period_of fps) (units_of t m)
      = Inr ((length (concat (nals_of t us)), x), s) \<and> pushed (vs_world s) = nals_of t us" if "t \<in> set vpcc_types" for t
    using vpcc_run [of "unit_nals t m" "units_of t m" "file" "period_of fps" "envs t" t] m(2,3) [of t] sched that len
    by (auto simp: unit_nals_def)
  then obtain x s where xs: "\<And>t. t \<in> set vpcc_types \<Longrightarrow> vpcc_sender_func (envs t) file t (period_of fps) (units_of t m)
      = Inr ((length (concat (nals_of t us)), x t), s t) \<and> pushed (vs_world (s t)) = nals_of t us"
    by metis
  let ?rs = "map (\<lambda>t. ((length (concat (nals_of t us)), x t), s t)) vpcc_types"
  have run: "run_all (\<lambda>t. vpcc_sender_func (envs t) file t (period_of fps) (units_of t m)) vpcc_types = Inr ?rs"
    using xs by (intro run_all_Inr) blast
  have "file \<noteq> []" using assms(2) by (auto simp: sample_file_def)
  then have mem: "get_mem input 0 d = (Mapped file, length file)"
    using assms(1) by (auto simp: get_mem_def open_in_def split: if_splits)
  obtain total_bytes diff where res: "vpcc_sender_result began (map fst ?rs) = (total_bytes, diff)" by fastforce
  have total_bytes: "total_bytes = (\<Sum>t \<leftarrow> vpcc_types. length (concat (nals_of t us)))"
    using res by (simp add: vpcc_sender_result_def vpcc_types_def Let_def nth_numeral_Cons)
  let ?streams = "map (\<lambda>m. configure_ctx RCC_UDP_SND_BUF_SIZE (40 * 1000 * 1000) (configure_ctx RCC_FPS_NUMERATOR fps m))
        (vpcc_stream_list (vpcc_setup {RCE_PACE_FRAGMENT_SENDING} (get_srtp_state srtp) (word_of_int p) (word_of_int q) False))"
  define oc where "oc = \<lparr>oc_status = EXIT_SUCCESS, oc_disk = write_send_results_to_file result total_bytes diff d,
    oc_sent = zip ?streams (map (\<lambda>r. vs_world (snd r)) ?rs)\<rparr>"
  have main: "vpcc_sender_main envs began period_of (sender_args input result la p ra q nthreads fps format srtp) d = Inr oc"
    using assms(4-6) mem m(1) run res
    by (simp add: vpcc_sender_main_def sender_args_def Let_def nth_numeral_Cons atoi_is_int oc_def)
  have n: "length ?streams = length ?rs" by (simp add: vpcc_stream_list_def vpcc_types_def)
  have "map snd (oc_sent oc) = map (\<lambda>t. vs_world (s t)) vpcc_types" using n by (simp add: oc_def)
  then have "map pushed (map snd (oc_sent oc)) = map (\<lambda>t. nals_of t us) vpcc_types" using xs by simp
  then have "map (\<lambda>sw. pushed (snd sw)) (oc_sent oc) = map (\<lambda>t. nals_of t us) vpcc_types" by (simp add: o_def)
  moreover have "map fst (oc_sent oc) = ?streams" unfolding oc_def using n by (simp only: outcome.simps map_fst_zip length_map)
  moreover have "oc_status oc = EXIT_SUCCESS" "oc_disk oc = write_send_results_to_file result total_bytes diff d"
    by (simp_all add: oc_def)
  ultimately show ?thesis using main unfolding total_bytes by blast
qed

lemma vpcc_receiver_main_run:
  assumes "is_int p" "is_int q" and "\<forall>es \<in> set busy. es \<noteq> [] \<and> (\<forall>e \<in> set es. snd (snd e) \<noteq> None)"
    and rs: "rs = (\<lambda>t. results_of (frames_at t (concat busy)))"
  shows "\<exists>diff. vpcc_receiver_main (busy @ [] # after) (receiver_args result la p ra q nthreads format srtp) d
    = Inr (Some (EXIT_SUCCESS, write_receive_results_to_file result
        (\<Sum>t \<leftarrow> vpcc_types. length (concat (map snd (frames_at t (concat busy)))))
        (\<Sum>t \<leftarrow> vpcc_types. length (frames_at t (concat busy))) diff d,
        vpcc_stream_list (vpcc_setup {} (get_srtp_state srtp) (word_of_int p) (word_of_int q) True)))"
proof -
  have "(\<lambda>_. results_init) = (\<lambda>t :: V3C_UNIT_TYPE. results_of [])"
    by (simp add: results_of_def results_init_def)
  then have wait: "vpcc_wait (busy @ [] # after) (\<lambda>_. results_init, True) = Inr (Some rs)"
    using vpcc_wait_run [OF assms(3), of after "\<lambda>_. []"] unfolding rs by simp
  have "\<exists>diff. vpcc_receiver_result (rs V3C_AD) (rs V3C_OVD) (rs V3C_GVD) (rs V3C_AVD)
      = (\<Sum>t \<leftarrow> vpcc_types. length (concat (map snd (frames_at t (concat busy)))),
         \<Sum>t \<leftarrow> vpcc_types. length (frames_at t (concat busy)), diff)"
    unfolding rs by (simp add: vpcc_receiver_result_def vpcc_types_def results_of_def Let_def)
  then obtain diff where res: "vpcc_receiver_result (rs V3C_AD) (rs V3C_OVD) (rs V3C_GVD) (rs V3C_AVD)
      = (\<Sum>t \<leftarrow> vpcc_types. length (concat (map snd (frames_at t (concat busy)))),
         \<Sum>t \<leftarrow> vpcc_types. length (frames_at t (concat busy)), diff)" by blast
  show ?thesis
    using assms(1,2) wait res
    by (intro exI [of _ "word_of_int diff"])
      (simp add: vpcc_receiver_main_def receiver_args_def Let_def nth_numeral_Cons atoi_is_int)
qed

lemma stream_of_nth:
  assumes "k < length vpcc_types"
  shows "stream_of s (vpcc_types ! k) = Some (vpcc_stream_list s ! k)"
proof -
  have "k \<in> {0, 1, 2, 3}" using assms by (auto simp: vpcc_types_def)
  then show ?thesis by (auto simp: vpcc_types_def vpcc_stream_list_def stream_of_def)
qed

subsection \<open>Properties\<close>

text \<open>
  C14: the V-PCC throughput test, program against program, over a lossless network. Take any sample stream file without empty NAL
  units; start both programs with crossed ports and the same SRTP argument. The sender ends with success and has pushed, on each
  of the four streams, exactly the NAL units of that type in the file, parameter sets included, in order; each stream
  reaches its counterpart; and when the receiver's hooks have been called with these NAL units, in any interleaving of the streams, and
  one timeout has passed without a frame, it ends with success too. The lines of the two result files agree: the same number of
  bytes, and as many packets as NAL units.
\<close>

theorem vpcc_throughput_test:
  assumes input: "open_in input d = Some file" "sample_file w b us file" "nals_nonempty us"
    and args: "is_int p" "is_int q" "is_int fps"
    and sched: "\<forall>t \<in> set vpcc_types. length (nals_of t us) * unat (period_of fps) < 2 ^ 64 \<and> length (nals_of t us) < 2 ^ 64"
    and results: "whole_lines result d" "whole_lines result' d'"
    and busy: "\<forall>es \<in> set busy. es \<noteq> [] \<and> (\<forall>e \<in> set es. snd (snd e) \<noteq> None)"
    and lossless: "\<forall>t \<in> set vpcc_types. map snd (frames_at t (concat busy)) = nals_of t us"
    and total_bytes: "bytes = (\<Sum>t \<leftarrow> vpcc_types. length (concat (nals_of t us)))"
    and packets: "packets = (\<Sum>t \<leftarrow> vpcc_types. length (nals_of t us))"
  shows "\<exists>oc d'' streams us_sent us_received.
      vpcc_sender_main envs began period_of (sender_args input result la p ra q nthreads fps format srtp) d = Inr oc
    \<and> oc_status oc = EXIT_SUCCESS \<and> map (\<lambda>sw. pushed (snd sw)) (oc_sent oc) = map (\<lambda>t. nals_of t us) vpcc_types
    \<and> result_nums result (oc_disk oc)
        = result_nums result d @ [[bytes, bytes div 1000, bytes div 1000000, us_sent, us_sent div 1000]]
    \<and> vpcc_receiver_main (busy @ [] # after) (receiver_args result' la' q ra' p nthreads format srtp) d'
        = Inr (Some (EXIT_SUCCESS, d'', streams))
    \<and> result_nums result' d'' = result_nums result' d' @ [[bytes, packets, us_received]]
    \<and> (\<forall>k < 4. reaches (fst (oc_sent oc ! k)) (streams ! k))"
proof -
  obtain oc diff where s: "vpcc_sender_main envs began period_of (sender_args input result la p ra q nthreads fps format srtp) d = Inr oc"
    "oc_status oc = EXIT_SUCCESS" "map (\<lambda>sw. pushed (snd sw)) (oc_sent oc) = map (\<lambda>t. nals_of t us) vpcc_types"
    "map fst (oc_sent oc) = map (\<lambda>m. configure_ctx RCC_UDP_SND_BUF_SIZE (40 * 1000 * 1000) (configure_ctx RCC_FPS_NUMERATOR fps m))
        (vpcc_stream_list (vpcc_setup {RCE_PACE_FRAGMENT_SENDING} (get_srtp_state srtp) (word_of_int p) (word_of_int q) False))"
    "oc_disk oc = write_send_results_to_file result bytes diff d"
    using vpcc_sender_main_run [where period_of = period_of and envs = envs, OF input args sched, where began = began and result = result and la = la and ra = ra
        and nthreads = nthreads and format = format and srtp = srtp] unfolding total_bytes by blast
  let ?streams = "vpcc_stream_list (vpcc_setup {} (get_srtp_state srtp) (word_of_int q) (word_of_int p) True)"
  have same: "(\<Sum>t \<leftarrow> vpcc_types. length (concat (map snd (frames_at t (concat busy))))) = bytes"
    "(\<Sum>t \<leftarrow> vpcc_types. length (frames_at t (concat busy))) = packets"
  proof -
    have "length (frames_at t (concat busy)) = length (nals_of t us)" if "t \<in> set vpcc_types" for t
      using arg_cong [OF bspec [OF lossless that], of length] by simp
    then show "(\<Sum>t \<leftarrow> vpcc_types. length (frames_at t (concat busy))) = packets"
      unfolding packets by (intro arg_cong [where f = sum_list] map_cong) auto
    show "(\<Sum>t \<leftarrow> vpcc_types. length (concat (map snd (frames_at t (concat busy))))) = bytes"
      unfolding total_bytes using lossless by (intro arg_cong [where f = sum_list] map_cong) auto
  qed
  obtain diff' where r: "vpcc_receiver_main (busy @ [] # after) (receiver_args result' la' q ra' p nthreads format srtp) d'
      = Inr (Some (EXIT_SUCCESS, write_receive_results_to_file result' bytes packets diff' d', ?streams))"
    using vpcc_receiver_main_run [OF args(2,1) busy refl, of after result' la' ra' nthreads format srtp d'] unfolding same by blast
  have "reaches (fst (oc_sent oc ! k)) (?streams ! k)" if "k < 4" for k
  proof -
    have k: "k < length vpcc_types" using that by (simp add: vpcc_types_def)
    have len: "length (oc_sent oc) = 4" using arg_cong [OF s(4), of length] by (simp add: vpcc_stream_list_def)
    have "fst (oc_sent oc ! k) = map fst (oc_sent oc) ! k" using that len by simp
    then have "fst (oc_sent oc ! k) = configure_ctx RCC_UDP_SND_BUF_SIZE (40 * 1000 * 1000) (configure_ctx RCC_FPS_NUMERATOR fps
        (vpcc_stream_list (vpcc_setup {RCE_PACE_FRAGMENT_SENDING} (get_srtp_state srtp) (word_of_int p) (word_of_int q) False) ! k))"
      unfolding s(4) using that by simp
    then show ?thesis
      using v3c_paired [OF stream_of_nth [OF k] stream_of_nth [OF k]] by (simp add: reaches_configure)
  qed
  then show ?thesis
    using s r write_send_line(2) [OF results(1), of bytes diff] write_receive_line(2) [OF results(2), of bytes packets diff']
    by (intro exI [of _ oc] exI [of _ "write_receive_results_to_file result' bytes packets diff' d'"] exI [of _ ?streams]
        exI [of _ "unat diff"] exI [of _ "unat diff'"]) simp
qed

definition small_units :: "v3c_unit list" where
  "small_units =
     [Parameter_Set [7, 1, 2],
      Nal_Units V3C_AD \<lparr>vuh_unit_type = 1,
        vuh = Ad \<lparr>ad_vuh_v3c_parameter_set_id = 3, ad_vuh_atlas_id = 5\<rparr>\<rparr> 2 [[1, 2, 3], [4]],
      Nal_Units V3C_GVD \<lparr>vuh_unit_type = 3,
        vuh = Gvd \<lparr>gvd_vuh_v3c_parameter_set_id = 3, gvd_vuh_atlas_id = 5,
                   gvd_vuh_map_index = 9, gvd_vuh_auxiliary_video_flag = True\<rparr>\<rparr> 4 [[9]]]"

lemma small_file: "sample_file 3 64 small_units (64 # sample_stream 3 small_units)"
  by (simp add: sample_file_def small_units_def read_unit_type_def header_ok_def is_atlas_def header_part_def
      v3c_header_bytes_def Let_def)

lemma small_nals: "nals_of t small_units
    = (if t = V3C_VPS then [[7, 1, 2]] else if t = V3C_AD then [[1, 2, 3], [4]] else if t = V3C_GVD then [[9]] else [])"
  by (cases t) (simp_all add: nals_of_def contents_of_def small_units_def)

definition small_busy :: "(V3C_UNIT_TYPE \<times> int \<times> u8 list option) list list" where
  "small_busy = [[(V3C_AD, 70, Some [1, 2, 3])], [(V3C_GVD, 80, Some [9]), (V3C_AD, 90, Some [4])]]"

theorem vpcc_throughput_test_witness:
  "\<exists>oc d'' streams us_sent us_received.
      vpcc_sender_main (\<lambda>_. demo_env) (\<lambda>_. 1000) (\<lambda>_. 40) (sender_args ''a.vpcc'' ''out'' ''::1'' 9000 ''::1'' 9002 1 30 ''vpcc'' ''yes'')
        (demo_disk ''a.vpcc'' (64 # sample_stream 3 small_units)) = Inr oc
    \<and> oc_status oc = EXIT_SUCCESS \<and> map (\<lambda>sw. pushed (snd sw)) (oc_sent oc) = map (\<lambda>t. nals_of t small_units) vpcc_types
    \<and> result_nums ''out'' (oc_disk oc) = result_nums ''out'' (demo_disk ''a.vpcc'' (64 # sample_stream 3 small_units))
        @ [[5, 5 div 1000, 5 div 1000000, us_sent, us_sent div 1000]]
    \<and> vpcc_receiver_main (small_busy @ [] # [[]]) (receiver_args ''out'' ''::1'' 9002 ''::1'' 9000 1 ''vpcc'' ''yes'') empty_disk
        = Inr (Some (EXIT_SUCCESS, d'', streams))
    \<and> result_nums ''out'' d'' = result_nums ''out'' empty_disk @ [[5, 3, us_received]]
    \<and> (\<forall>k < 4. reaches (fst (oc_sent oc ! k)) (streams ! k))"
proof (rule vpcc_throughput_test [OF _ small_file])
  show "nals_nonempty small_units" by (simp add: nals_nonempty_def small_units_def)
qed (simp_all add: is_int_def demo_disk_def empty_disk_def open_in_def whole_lines_def small_nals vpcc_types_def
    small_busy_def frames_at_def)

end
