(* ===== verification/Latency_Programs.thy ===== *)
theory Latency_Programs
  imports V3C_Programs
begin

section \<open>The latency tests as programs\<close>

text \<open>
  \<open>main\<close> and \<open>sender\<close> or \<open>receiver\<close> of \<open>uvgrtp/latency_sender.cc\<close>, \<open>uvgrtp/latency_receiver.cc\<close>,
  \<open>uvgrtp/vpcc_latency_sender.cc\<close> and \<open>uvgrtp/vpcc_latency_receiver.cc\<close>, around the loops and hooks of
  \<open>Senders\<close>, \<open>Latency\<close> and \<open>Echo\<close>. What the code computes in \<open>float\<close> is a parameter: the
  averages, how they are printed, and the period, which depends on the argument \<open>fps\<close> through \<open>atof\<close>.
\<close>

record 'f floats =
  fl_mean :: "nat \<Rightarrow> nat \<Rightarrow> 'f"          \<comment> \<open>\<open>total / (float)n\<close>\<close>
  fl_frame_time :: "int \<Rightarrow> nat \<Rightarrow> 'f"    \<comment> \<open>\<open>total_time / 1000 / (float)full_frames\<close>\<close>
  fl_zero :: 'f
  fl_show :: "'f \<Rightarrow> string"
  fl_period :: "string \<Rightarrow> u64"

definition failed :: "disk \<Rightarrow> outcome" where
  "failed d = \<lparr>oc_status = EXIT_FAILURE, oc_disk = d, oc_sent = []\<rparr>"

subsection \<open>uvgrtp/latency_sender.cc\<close>

text \<open>
  The rest of \<open>sender\<close> once the input is there: the sending loop, meanwhile the calls \<open>echoes\<close> of the receive hook, and
  the averages at the end.
\<close>

definition latency_test ::
  "'f floats \<Rightarrow> env \<Rightarrow> echo list \<Rightarrow> u8 list \<Rightarrow> u64 \<Rightarrow> bool \<Rightarrow> bool \<Rightarrow> v3c_unit_info list \<Rightarrow> nat list \<Rightarrow> media_stream \<Rightarrow> disk
    \<Rightarrow> outcome res" where
  "latency_test fl env echoes mem period vvc atlas units chunk_sizes stream d =
     rbind (latency_sender env mem period atlas units chunk_sizes) (\<lambda>(ok, s).
     if \<not> ok then Inr \<lparr>oc_status = EXIT_FAILURE, oc_disk = d, oc_sent = [(stream, lt_world s)]\<rparr>
     else rbind (run_hook (hook_sender vvc atlas) echoes hook_init) (\<lambda>h.
       Inr \<lparr>oc_status = EXIT_SUCCESS,
         oc_disk = write_latency_results_to_file (fl_show fl) ''latency_results'' (hk_frames h)
           (fl_mean fl (hk_total_intra h) (hk_nintras h)) (fl_mean fl (hk_total_inter h) (hk_ninters h))
           (fl_mean fl (hk_total h) (hk_frames h)) d,
         oc_sent = [(stream, lt_world s)]\<rparr>))"

definition latency_sender_main :: "'f floats \<Rightarrow> env \<Rightarrow> echo list \<Rightarrow> string list \<Rightarrow> disk \<Rightarrow> outcome res" where
  "latency_sender_main fl env echoes argv d =
     (if length argv \<noteq> 9 then Inr (failed d)
      else let input_file = argv ! 1; period = fl_period fl (argv ! 6); vvc_enabled = get_vvc_state (argv ! 7);
             atlas_enabled = get_atlas_state (argv ! 7) in
        rbind (atoi (argv ! 3)) (\<lambda>local_port. rbind (atoi (argv ! 5)) (\<lambda>remote_port.
        let stream = intialize_uvgrtp (word_of_int local_port) (word_of_int remote_port) (get_srtp_state (argv ! 8))
              vvc_enabled True atlas_enabled;
            (mem, len) = get_mem input_file 0 d in
        if atlas_enabled then
          rbind (mmap_v3c_file (reachable mem) len empty_map) (\<lambda>(_, mmap).
          if mem = Null then Inr (failed d)
          else latency_test fl env echoes (reachable mem) period vvc_enabled True (ad_units mmap) [] stream d)
        else
          let chunk_sizes = get_chunk_sizes (open_in (get_chunk_filename input_file) d) [] in
          if chunk_sizes = [] then Inr (failed d)
          else if mem = Null then Inr (failed d)
          else latency_test fl env echoes (reachable mem) period vvc_enabled False [] chunk_sizes stream d)))"

subsection \<open>uvgrtp/latency_receiver.cc\<close>

text \<open>The exit status, the stream and the final state of the hook; the inner \<open>None\<close> while frames keep coming.\<close>

definition latency_receiver_main ::
  "u8 list option list list \<Rightarrow> string list \<Rightarrow> (int \<times> (media_stream \<times> echo_state) option) option res" where
  "latency_receiver_main periods argv =
     (if length argv \<noteq> 7 then Inr (Some (EXIT_FAILURE, None))
      else let vvc_enabled = get_vvc_state (argv ! 5); atlas_enabled = get_atlas_state (argv ! 5) in
        rbind (atoi (argv ! 2)) (\<lambda>local_port. rbind (atoi (argv ! 4)) (\<lambda>remote_port.
        let stream = intialize_uvgrtp (word_of_int local_port) (word_of_int remote_port) (get_srtp_state (argv ! 6))
              vvc_enabled True atlas_enabled in
        rbind (receiver_loop atlas_enabled periods echo_init) (\<lambda>r.
        Inr (map_option (\<lambda>s. (EXIT_SUCCESS, Some (stream, s))) r)))))"

subsection \<open>uvgrtp/vpcc_latency_sender.cc\<close>

definition frame_loss :: "send_log \<Rightarrow> recv_log \<Rightarrow> bool" where
  "frame_loss s r \<longleftrightarrow> length (ad_send s) \<noteq> length (ad_recv r) \<or> length (ovd_send s) \<noteq> length (ovd_recv r)
     \<or> length (gvd_send s) \<noteq> length (gvd_recv r) \<or> length (avd_send s) \<noteq> length (avd_recv r)"

text \<open>\<open>came_back\<close> are the calls of the four receive hooks.\<close>

definition vpcc_latency_sender_main ::
  "'f floats \<Rightarrow> (V3C_UNIT_TYPE \<Rightarrow> env) \<Rightarrow> (V3C_UNIT_TYPE \<times> nat \<times> u8 list option) list \<Rightarrow> string list \<Rightarrow> disk \<Rightarrow> outcome res" where
  "vpcc_latency_sender_main fl envs came_back argv d =
     (if length argv \<noteq> 9 then Inr (failed d)
      else rbind (atoi (argv ! 3)) (\<lambda>local_port. rbind (atoi (argv ! 5)) (\<lambda>remote_port.
        let streams = vpcc_setup {} (get_srtp_state (argv ! 8)) (word_of_int local_port) (word_of_int remote_port) False;
            (mem, len) = get_mem (argv ! 1) 0 d in
        if mem = Null then Inr (failed d)
        else rbind (mmap_v3c_file (reachable mem) len empty_map) (\<lambda>(_, mmap).
          rbind (run_all (\<lambda>t. vpcc_latency_sender_func (envs t) (reachable mem) t (fl_period fl (argv ! 6)) (units_of t mmap))
            vpcc_types) (\<lambda>rs.
          rbind (run_hook measuring_hooks came_back recv_init) (\<lambda>log.
          let sends = vpcc_logs (\<lambda>t. snd (rs ! (if t = V3C_AD then 0 else if t = V3C_OVD then 1 else if t = V3C_GVD then 2 else 3)));
              outcome = (\<lambda>disk. \<lparr>oc_status = EXIT_SUCCESS, oc_disk = disk,
                oc_sent = zip (vpcc_stream_list streams) (map (\<lambda>r. vl_world (snd r)) rs)\<rparr>);
              write = (\<lambda>frame_count time. write_latency_results_to_file (fl_show fl) ''latency_results'' frame_count time
                (fl_zero fl) (fl_zero fl) d) in
          if frame_loss sends log then Inr (outcome (write 0 (fl_zero fl)))
          else rbind (vpcc_latency_result sends log) (\<lambda>(full_frames, total_time).
            Inr (outcome (write full_frames (fl_frame_time fl total_time full_frames))))))))))"

subsection \<open>uvgrtp/vpcc_latency_receiver.cc\<close>

primrec vpcc_echo_loop :: "(V3C_UNIT_TYPE \<times> u8 list option) list list \<Rightarrow> vpcc_echo_state \<Rightarrow> vpcc_echo_state option res" where
  "vpcc_echo_loop [] s = Inr (if ve_frame_received s then None else Some s)"
| "vpcc_echo_loop (arrived # periods) s =
     (if ve_frame_received s
      then rbind (run_hook vpcc_echo_hook arrived (s\<lparr>ve_frame_received := False\<rparr>)) (vpcc_echo_loop periods)
      else Inr (Some s))"

text \<open>Periods with frames, then one without.\<close>

lemma vpcc_echo_loop_busy:
  assumes "vpcc_echo_inv s" and "ve_frame_received s" and "\<forall>es \<in> set busy. es \<noteq> [] \<and> (\<forall>(t, f) \<in> set es. streamed t \<and> f \<noteq> None)"
  shows "\<exists>s'. vpcc_echo_loop (busy @ [[]]) s = Inr (Some s') \<and> vpcc_echo_inv s'
    \<and> ve_pushed s' = ve_pushed s @ map (\<lambda>(t, f). (t, the f)) (concat busy)"
  using assms
proof (induction busy arbitrary: s)
  case Nil
  then show ?case by (simp add: vpcc_echo_inv_received)
next
  case (Cons es busy)
  have es: "es \<noteq> []" "\<forall>(t, f) \<in> set es. streamed t \<and> f \<noteq> None" using Cons.prems(3) by simp_all
  obtain s1 where s1: "run_hook vpcc_echo_hook es (s\<lparr>ve_frame_received := False\<rparr>) = Inr s1" "vpcc_echo_inv s1"
    "ve_frame_received s1" "ve_pushed s1 = ve_pushed s @ map (\<lambda>(t, f). (t, the f)) es"
    using vpcc_echo_hook_run [of "s\<lparr>ve_frame_received := False\<rparr>" es] Cons.prems(1) es by (auto simp: vpcc_echo_inv_received)
  obtain s' where "vpcc_echo_loop (busy @ [[]]) s1 = Inr (Some s')" "vpcc_echo_inv s'"
    "ve_pushed s' = ve_pushed s1 @ map (\<lambda>(t, f). (t, the f)) (concat busy)"
    using Cons.IH [OF s1(2,3)] Cons.prems(3) by auto
  then show ?case using Cons.prems(2) s1(1,4) by simp
qed

definition vpcc_latency_receiver_main ::
  "(V3C_UNIT_TYPE \<times> u8 list option) list list \<Rightarrow> string list
    \<Rightarrow> (int \<times> (media_stream list \<times> vpcc_echo_state) option) option res" where
  "vpcc_latency_receiver_main periods argv =
     (if length argv \<noteq> 7 then Inr (Some (EXIT_FAILURE, None))
      else rbind (atoi (argv ! 2)) (\<lambda>local_port. rbind (atoi (argv ! 4)) (\<lambda>remote_port.
        let streams = vpcc_setup {} (get_srtp_state (argv ! 6)) (word_of_int local_port) (word_of_int remote_port) True in
        rbind (vpcc_echo_loop periods vpcc_echo_init) (\<lambda>r.
        Inr (map_option (\<lambda>s. (EXIT_SUCCESS, Some (vpcc_stream_list streams, s))) r)))))"

subsection \<open>An input that cannot be used\<close>

definition latency_args :: "string \<Rightarrow> string \<Rightarrow> int \<Rightarrow> string \<Rightarrow> int \<Rightarrow> string \<Rightarrow> string \<Rightarrow> string \<Rightarrow> string list" where
  "latency_args input_file local_address local_port remote_address remote_port fps format srtp =
     [''latency_sender'', input_file, local_address, show_int local_port, remote_address, show_int remote_port, fps, format, srtp]"

definition echo_args :: "string \<Rightarrow> int \<Rightarrow> string \<Rightarrow> int \<Rightarrow> string \<Rightarrow> string \<Rightarrow> string list" where
  "echo_args local_address local_port remote_address remote_port format srtp =
     [''latency_receiver'', local_address, show_int local_port, remote_address, show_int remote_port, format, srtp]"

lemma get_mem_unusable:
  assumes "open_in input d \<in> {None, Some []}"
  shows "\<exists>m. get_mem input 0 d = (m, 0) \<and> reachable m = [] \<and> (m = Null \<longleftrightarrow> open_in input d = None)"
  using assms by (auto simp: get_mem_def open_in_def split: option.splits if_splits)

lemma mmap_nothing: "mmap_v3c_file [] len m = Inl Out_Of_Bounds"
  by (simp add: mmap_v3c_file_def rd8_def)

text \<open>The four programs on such an input.\<close>

lemma unusable_vpcc:
  assumes "is_int p" "is_int q" "is_int fps" and m: "get_mem input 0 d = (m, 0)" "reachable m = []" "m = Null \<longleftrightarrow> open_in input d = None"
  shows "vpcc_sender_main envs' began period_of (sender_args input result la p ra q nthreads fps format srtp) d
      = (if open_in input d = None then Inr (failed d) else Inl Out_Of_Bounds)"
    and "vpcc_latency_sender_main fl envs' came_back (latency_args input la p ra q rate format srtp) d
      = (if open_in input d = None then Inr (failed d) else Inl Out_Of_Bounds)"
  using m(3)
  by (simp_all add: vpcc_sender_main_def sender_args_def vpcc_latency_sender_main_def latency_args_def Let_def nth_numeral_Cons
      atoi_is_int assms mmap_nothing failed_def)

lemma unusable_chunks:
  assumes "is_int p" "is_int q" "is_int fps" "nthreads < 2 ^ 31" and m: "get_mem input 0 d = (m, 0)" "reachable m = []"
    and "get_atlas_state format \<or> m = Null"
  shows "sender_main envs period_of finish (sender_args input result la p ra q nthreads fps format srtp) d
      = (if get_atlas_state format then Inl Out_Of_Bounds else Inr (failed d))"
    and "latency_sender_main fl env echoes (latency_args input la p ra q rate format srtp) d
      = (if get_atlas_state format then Inl Out_Of_Bounds else Inr (failed d))"
  using assms(7)
  by (cases "get_atlas_state format"; simp add: sender_main_def sender_args_def latency_sender_main_def latency_args_def Let_def
      nth_numeral_Cons atoi_is_int atoi_show_nat [OF assms(4)] assms(1-6) mmap_nothing failed_def)+

text \<open>
  C38: an input file that is missing, unreadable or empty. The V-PCC programs end with a failure status on a file that
  they cannot open, but \<open>sender.cc\<close> and \<open>latency_sender.cc\<close> in atlas mode hand the null pointer to the parser before they test it, and
  all four parse an empty file through \<open>MAP_FAILED\<close>: an access outside any mapping. In the other formats a missing input is a failure
  status. Nothing has been written to the disk in any of these cases.
\<close>

theorem unusable_input:
  assumes "open_in input d \<in> {None, Some []}" and "is_int p" "is_int q" "is_int fps" "nthreads < 2 ^ 31"
  shows "vpcc_sender_main envs' began period_of (sender_args input result la p ra q nthreads fps format srtp) d
      = (if open_in input d = None then Inr (failed d) else Inl Out_Of_Bounds)
    \<and> vpcc_latency_sender_main fl envs' came_back (latency_args input la p ra q rate format srtp) d
      = (if open_in input d = None then Inr (failed d) else Inl Out_Of_Bounds)
    \<and> (get_atlas_state format \<longrightarrow> sender_main envs period_of finish (sender_args input result la p ra q nthreads fps format srtp) d = Inl Out_Of_Bounds
      \<and> latency_sender_main fl env echoes (latency_args input la p ra q rate format srtp) d = Inl Out_Of_Bounds)
    \<and> (\<not> get_atlas_state format \<and> open_in input d = None \<longrightarrow>
        sender_main envs period_of finish (sender_args input result la p ra q nthreads fps format srtp) d = Inr (failed d)
      \<and> latency_sender_main fl env echoes (latency_args input la p ra q rate format srtp) d = Inr (failed d))"
proof -
  obtain m where m: "get_mem input 0 d = (m, 0)" "reachable m = []" "m = Null \<longleftrightarrow> open_in input d = None"
    using get_mem_unusable [OF assms(1)] by metis
  show ?thesis
    by (simp add: unusable_vpcc [OF assms(2-4) m] unusable_chunks [OF assms(2-5) m(1,2)] m(3))
qed

definition demo_floats :: "nat floats" where
  "demo_floats = \<lparr>fl_mean = (div), fl_frame_time = \<lambda>t n. nat t div n, fl_zero = 0, fl_show = show_nat, fl_period = \<lambda>_. 40\<rparr>"

theorem unusable_input_witness:
  "vpcc_sender_main (\<lambda>_. demo_env) (\<lambda>_. 0) (\<lambda>_. 40) (sender_args ''in'' ''out'' ''::1'' 9000 ''::1'' 9002 1 30 ''atlas'' ''no'') empty_disk
      = Inr (failed empty_disk)
    \<and> vpcc_latency_sender_main demo_floats (\<lambda>_. demo_env) [] (latency_args ''in'' ''::1'' 9000 ''::1'' 9002 ''30'' ''atlas'' ''no'') empty_disk
      = Inr (failed empty_disk)
    \<and> sender_main (\<lambda>_. demo_env) (\<lambda>_. 40) [] (sender_args ''in'' ''out'' ''::1'' 9000 ''::1'' 9002 1 30 ''atlas'' ''no'') empty_disk
      = Inl Out_Of_Bounds
    \<and> latency_sender_main demo_floats demo_env [] (latency_args ''in'' ''::1'' 9000 ''::1'' 9002 ''30'' ''atlas'' ''no'') empty_disk
      = Inl Out_Of_Bounds"
proof -
  have none: "open_in ''in'' empty_disk = None" by (simp add: empty_disk_def open_in_def)
  have args: "open_in ''in'' empty_disk \<in> {None, Some []}" "is_int 9000" "is_int 9002" "is_int 30" "(1 :: nat) < 2 ^ 31"
    by (simp_all add: none is_int_def)
  have atlas: "get_atlas_state ''atlas''" by (simp add: get_atlas_state_def)
  note test = unusable_input [OF args, where format = "''atlas''", simplified none atlas]
  show ?thesis by (simp add: test del: One_nat_def)
qed

subsection \<open>The H.265 latency test, program against program\<close>

text \<open>The waiting loop when frames come in every period of \<open>busy\<close> and none in the next.\<close>

lemma receiver_loop_busy:
  assumes "echo_inv atlas s" and "er_frame_received s" and "\<forall>fs \<in> set busy. fs \<noteq> [] \<and> (\<forall>f \<in> set fs. echoable f)"
    and "length (er_pushed s) + length (concat busy) \<le> 604"
  shows "\<exists>s'. receiver_loop atlas (busy @ [[]]) s = Inr (Some s') \<and> echo_inv atlas s'
    \<and> map snd (er_pushed s') = map snd (er_pushed s) @ map the (concat busy)"
  using assms
proof (induction busy arbitrary: s)
  case Nil
  have "keeps_waiting (s\<lparr>er_frame_received := False\<rparr>) = False" by (simp add: keeps_waiting_def)
  then show ?case
    using Nil.prems(1) by (cases "keeps_waiting s") (auto simp: echo_inv_received)
next
  case (Cons fs busy)
  have n: "0 < length fs" using Cons.prems(3) by simp
  have "length (er_pushed s) < 604" using Cons.prems(4) n unfolding concat.simps length_append by linarith
  then have go: "keeps_waiting s"
    using Cons.prems(1,2) by (simp add: keeps_waiting_def EXPECTED_FRAMES_def echo_inv_def)
  obtain s1 where s1: "run_hook (hook_receiver atlas) fs (s\<lparr>er_frame_received := False\<rparr>) = Inr s1" "echo_inv atlas s1"
    "er_frame_received s1" "map snd (er_pushed s1) = map snd (er_pushed s) @ map the fs"
    using hook_receiver_run [of atlas "s\<lparr>er_frame_received := False\<rparr>" fs] Cons.prems(1,3) by (auto simp: echo_inv_received)
  have "length (er_pushed s1) = length (er_pushed s) + length fs"
    using arg_cong [OF s1(4), of length] by simp
  then have "length (er_pushed s1) + length (concat busy) \<le> 604" using Cons.prems(4) by simp
  then obtain s' where "receiver_loop atlas (busy @ [[]]) s1 = Inr (Some s')" "echo_inv atlas s'"
    "map snd (er_pushed s') = map snd (er_pushed s1) @ map the (concat busy)"
    using Cons.IH [OF s1(2,3)] Cons.prems(3) by auto
  then show ?case using go s1 by simp
qed

lemma uvgrtp_pair:
  "reaches (intialize_uvgrtp p q srtp vvc ol atlas) (intialize_uvgrtp q p srtp vvc ol atlas)"
  by (simp add: reaches_def uvgrtp_fields)

text \<open>The echoing program on the frames \<open>xs\<close>.\<close>

lemma h265_echo_program:
  assumes "is_int p" "is_int q" "\<not> get_vvc_state format" "\<not> get_atlas_state format"
    and busy: "concat busy = map Some xs" "[] \<notin> set busy" and long: "\<forall>x \<in> set xs. 4 < length x" and few: "length xs \<le> 604"
  shows "\<exists>r. latency_receiver_main (busy @ [[]]) (echo_args la q ra p format srtp)
      = Inr (Some (EXIT_SUCCESS, Some (intialize_uvgrtp (word_of_int q) (word_of_int p) (get_srtp_state srtp) False True False, r)))
    \<and> map snd (er_pushed r) = xs
    \<and> er_nintras r = length (filter (\<lambda>x. frame_kind False False x = Intra) xs)
    \<and> er_ninters r = length (filter (\<lambda>x. frame_kind False False x = Inter) xs)"
proof -
  have "echo_inv False echo_init" "er_frame_received echo_init" by (simp_all add: echo_inv_def echo_init_def)
  moreover have "fs \<noteq> [] \<and> (\<forall>f \<in> set fs. echoable f)" if "fs \<in> set busy" for fs
  proof -
    have "set fs \<subseteq> Some ` set xs" using that unfolding set_map [symmetric] busy(1) [symmetric] by auto
    then show ?thesis using long busy(2) that by (auto simp: echoable_def)
  qed
  moreover have "length (er_pushed echo_init) + length (concat busy) \<le> 604" using few unfolding busy(1) by (simp add: echo_init_def)
  ultimately obtain r where r: "receiver_loop False (busy @ [[]]) echo_init = Inr (Some r)" "echo_inv False r"
    "map snd (er_pushed r) = map snd (er_pushed echo_init) @ map the (concat busy)"
    using receiver_loop_busy by blast
  then have xs: "xs = map snd (er_pushed r)" unfolding busy(1) by (simp add: echo_init_def o_def)
  show ?thesis
    using assms(1-4) r(1,2)
    by (intro exI [of _ r])
      (simp add: latency_receiver_main_def echo_args_def Let_def nth_numeral_Cons atoi_is_int xs echo_inv_def filter_map o_def)
qed

text \<open>The measuring program, when the frames it has sent come back.\<close>

lemma h265_measuring_program:
  assumes input: "open_in input d = Some media" "open_in (get_chunk_filename input) d = Some chunks"
      "get_chunk_sizes (Some chunks) [] = chunk_sizes"
    and chunks: "chunk_sizes \<noteq> []" "sum_list chunk_sizes \<le> length media" "\<forall>n \<in> set chunk_sizes. 4 < n" "length chunk_sizes < 2 ^ 64"
    and sched: "length chunk_sizes * unat (fl_period fl fps) < 2 ^ 64" and push: "\<forall>k. e_push_ok env k"
    and args: "is_int p" "is_int q" "\<not> get_vvc_state format" "\<not> get_atlas_state format"
    and frames_out: "frames_out = slices media 0 chunk_sizes"
    and returned: "length moments = length chunk_sizes" "echoes = coming_back moments frames_out"
    and nintras: "nintras = length (filter (\<lambda>x. frame_kind False False x = Intra) frames_out)"
    and ninters: "ninters = length (filter (\<lambda>x. frame_kind False False x = Inter) frames_out)"
  shows "\<exists>oc. latency_sender_main fl env echoes (latency_args input la p ra q fps format srtp) d = Inr oc
    \<and> oc_status oc = EXIT_SUCCESS \<and> map (\<lambda>sw. pushed (snd sw)) (oc_sent oc) = [frames_out]
    \<and> map fst (oc_sent oc) = [intialize_uvgrtp (word_of_int p) (word_of_int q) (get_srtp_state srtp) False True False]
    \<and> oc_disk oc = write_latency_results_to_file (fl_show fl) ''latency_results'' (nintras + ninters)
        (fl_mean fl (ms_sum (of_kind False False Intra echoes)) nintras) (fl_mean fl (ms_sum (of_kind False False Inter echoes)) ninters)
        (fl_mean fl (ms_sum (of_kind False False Intra echoes) + ms_sum (of_kind False False Inter echoes)) (nintras + ninters)) d"
proof -
  obtain s where s: "latency_sender env media (fl_period fl fps) False [] chunk_sizes = Inr (True, s)"
    "pushed (lt_world s) = frames_out"
    using latency_chunk_run [OF chunks(1,2) sched chunks(4) push] unfolding frames_out by blast
  have sizes: "map length frames_out = chunk_sizes" using slices_lengths [of 0 chunk_sizes media] chunks(2) by (simp add: frames_out)
  then have "\<forall>n \<in> set (map length frames_out). 4 < n" using chunks(3) by simp
  then have long: "\<forall>x \<in> set frames_out. 4 < length x" by simp
  have "length frames_out = length chunk_sizes" using arg_cong [OF sizes, of length] by simp
  then have "map (\<lambda>(_, _, f). f) echoes = map Some frames_out"
    unfolding returned(2) using returned(1) by (intro coming_back_frames) simp
  then obtain h where h: "run_hook (hook_sender False False) echoes hook_init = Inr h"
    "hk_nintras h = nintras" "hk_ninters h = ninters" "hook_inv False False h"
    "hk_total_intra h = ms_sum (of_kind False False Intra echoes)" "hk_total_inter h = ms_sum (of_kind False False Inter echoes)"
    using hook_sender_counts [OF _ long, of echoes] unfolding nintras ninters by blast
  have both: "hk_frames h = nintras + ninters" "hk_total h = hk_total_intra h + hk_total_inter h"
    using h(2-4) by (simp_all add: hook_inv_def)
  obtain m len where mem: "get_mem input 0 d = (m, len)" "m \<noteq> Null" "reachable m = media"
    using get_mem_readable [OF input(1)] by metis
  show ?thesis
    using args input chunks(1) mem s h
    by (simp add: latency_sender_main_def latency_args_def latency_test_def Let_def nth_numeral_Cons atoi_is_int both)
qed



end
