(* ===== verification/FFmpeg_Programs.thy ===== *)
theory FFmpeg_Programs
  imports FFmpeg_Latency FFmpeg_Receiver Latency_Programs
begin

section \<open>The FFmpeg programs as a whole\<close>

text \<open>
  The four programs in \<open>ffmpeg/\<close> from their command lines. FFmpeg itself is not part of the sources. The
  code hands it the address it sends to, as a string, options, and the name of one of the session descriptions
  in \<open>ffmpeg/sdp\<close>, from which it takes the port it receives on. Whether FFmpeg can open a description, and which of its
  streams carry video, are a parameter.
\<close>

subsection \<open>What is handed to the library\<close>

text \<open>\<open>snprintf(buf, n, ...)\<close>: at most \<open>n - 1\<close> characters.\<close>

definition snprintf :: "nat \<Rightarrow> string \<Rightarrow> string" where
  "snprintf n s = take (n - 1) s"

definition rtp_url :: "string \<Rightarrow> int \<Rightarrow> string" where
  "rtp_url remote_address port = snprintf 64 (''rtp://'' @ remote_address @ '': '' @ show_int port)"

text \<open>The calls of \<open>av_dict_set\<close>: key, value or a null pointer, flags.\<close>

type_synonym av_dict = "(string \<times> string option \<times> nat) list"

text \<open>The picture sizes given for the encoder and for the stream, the time base, and the options of \<open>avformat_write_header\<close>.\<close>

record av_output =
  ao_url :: string
  ao_context :: "int \<times> int"
  ao_stream :: "int \<times> int"
  ao_time_base :: "int \<times> int"
  ao_options :: av_dict

definition WIDTH :: int where "WIDTH = 3840"
definition HEIGHT :: int where "HEIGHT = 2160"

definition open_output :: "string \<Rightarrow> int \<Rightarrow> int \<Rightarrow> av_dict \<Rightarrow> av_output" where
  "open_output remote_address port fps options = \<lparr>ao_url = rtp_url remote_address port, ao_context = (HEIGHT, WIDTH),
     ao_stream = (WIDTH, HEIGHT), ao_time_base = (1, fps), ao_options = options\<rparr>"

definition buffer_size_value :: string where
  "buffer_size_value = snprintf 256 (show_int (40 * 1000 * 1000))"

definition receiver_options :: av_dict where
  "receiver_options =
    [(''protocol_whitelist'', Some ''file,udp,rtp'', 0), (''buffer_size'', Some buffer_size_value, 32),
     (''max_delay'', Some (snprintf 256 (show_int 10000000)), 32), (''recv_buffer_size'', Some buffer_size_value, 32),
     (''rcvbuf'', Some buffer_size_value, 32), (''avioflags'', Some (snprintf 256 ''direct''), 32), (''nobuffer'', None, 32),
     (''probesize'', Some (snprintf 256 (show_int 32)), 32), (''fpsprobesize'', Some (snprintf 256 (show_int 2)), 32),
     (''stimeout'', Some (snprintf 256 (show_int 1)), 32), (''timeout'', Some (snprintf 256 (show_int 1)), 32),
     (''rw_timeout'', Some (snprintf 256 (show_int 1)), 32)]"

definition latency_output_options :: av_dict where
  "latency_output_options =
    [(''buffer_size'', Some buffer_size_value, 32), (''flush_packets'', None, 32),
     (''max_interleave_delta'', Some (snprintf 256 (show_int 1000)), 32), (''avioflags'', Some (snprintf 256 ''direct''), 32)]"

definition latency_input_options :: av_dict where
  "latency_input_options =
    [(''protocol_whitelist'', Some ''file,udp,rtp'', 0), (''buffer_size'', Some buffer_size_value, 32),
     (''avioflags'', Some (snprintf 256 ''direct''), 32), (''nobuffer'', None, 32),
     (''probesize'', Some (snprintf 256 (show_int 32)), 32), (''fpsprobesize'', Some (snprintf 256 (show_int 2)), 32)]"

text \<open>What the library does with a description and options: whether it opens, whether it finds stream information, which streams are video.\<close>

record av_lib =
  al_open_input :: "string \<Rightarrow> av_dict \<Rightarrow> bool"
  al_find_stream_info :: "string \<Rightarrow> bool"
  al_is_video :: "string \<Rightarrow> bool list"

text \<open>The last video stream, and 0 when there is none.\<close>

definition video_stream :: "bool list \<Rightarrow> nat" where
  "video_stream vs = foldl (\<lambda>v i. if vs ! i then i else v) 0 [0..<length vs]"

subsection \<open>The session descriptions\<close>

definition sdp_path :: "string \<Rightarrow> int \<Rightarrow> string" where
  "sdp_path local_address nthreads =
     snprintf 256 ((if local_address = ''127.0.0.1'' then ''ffmpeg/sdp/localhost/hevc_'' else ''ffmpeg/sdp/lan/hevc_'')
       @ show_int nthreads @ ''.sdp'')"

definition lat_sdp_path :: "string \<Rightarrow> string" where
  "lat_sdp_path remote_address =
     snprintf 256 (if remote_address = ''127.0.0.1'' then ''ffmpeg/sdp/localhost/lat_hevc.sdp'' else ''ffmpeg/sdp/lan/lat_hevc.sdp'')"

text \<open>The ports in the files of the repository: the line \<open>m=video\<close> of each.\<close>

definition sdp_files :: "(string \<times> nat) list" where
  "sdp_files =
    [(''hevc_0.sdp'', 8888), (''hevc_1.sdp'', 8890), (''hevc_2.sdp'', 8892), (''hevc_3.sdp'', 8894), (''hevc_4.sdp'', 8896),
     (''hevc_5.sdp'', 8898), (''hevc_6.sdp'', 8900), (''hevc_7.sdp'', 8902), (''lat_hevc.sdp'', 8889)]"

definition sdp_port :: "string \<Rightarrow> nat option" where
  "sdp_port path = map_of (map (\<lambda>(f, p). (''ffmpeg/sdp/localhost/'' @ f, p)) sdp_files
     @ map (\<lambda>(f, p). (''ffmpeg/sdp/lan/'' @ f, p)) sdp_files) path"

subsection \<open>ffmpeg/sender.cc\<close>

record ff_outcome =
  fo_status :: int
  fo_disk :: disk
  fo_sent :: "(av_output \<times> world) list"

definition ff_sender_main :: "(nat \<Rightarrow> env) \<Rightarrow> (int \<Rightarrow> u64) \<Rightarrow> nat list \<Rightarrow> string list \<Rightarrow> disk \<Rightarrow> ff_outcome res" where
  "ff_sender_main envs period_of finish argv d =
     (let failure = \<lparr>fo_status = EXIT_FAILURE, fo_disk = d, fo_sent = []\<rparr> in
      if length argv \<noteq> 11 then Inr failure
      else let input_file = argv ! 1; result_file = argv ! 2; remote_address = argv ! 5 in
        rbind (atoi (argv ! 4)) (\<lambda>_. rbind (atoi (argv ! 6)) (\<lambda>remote_port.
        rbind (atoi (argv ! 7)) (\<lambda>nthreads. rbind (atoi (argv ! 8)) (\<lambda>fps.
        let (mem, len) = get_mem input_file 0 d;
            chunk_sizes = get_chunk_sizes (open_in (get_chunk_filename input_file) d) [];
            port = uint (word_of_int remote_port :: u16) in
        if mem = Null \<or> chunk_sizes = [] then Inr failure
        else rbind (run_all (\<lambda>i. ffmpeg_thread (envs i) (reachable mem) (period_of fps) chunk_sizes) [0..<nat nthreads])
          (\<lambda>rs. Inr \<lparr>fo_status = EXIT_SUCCESS, fo_disk = fold (\<lambda>i. report_sent result_file (Some (fst (rs ! i)))) finish d,
            fo_sent = zip (map (\<lambda>i. open_output remote_address (port + int i * 2) fps []) [0..<nat nthreads])
              (map (\<lambda>r. cs_world (snd r)) rs)\<rparr>))))))"

subsection \<open>ffmpeg/receiver.cc\<close>

text \<open>The setup of a thread: the description and the video stream, or \<open>None\<close> on failure.\<close>

definition ff_open :: "av_lib \<Rightarrow> int \<Rightarrow> string \<Rightarrow> (string \<times> nat) option" where
  "ff_open lib nthreads local_address =
     (let buf = sdp_path local_address nthreads in
      if \<not> al_open_input lib buf receiver_options then None
      else if \<not> al_find_stream_info lib buf then None
      else Some (buf, video_stream (al_is_video lib buf)))"

text \<open>A packet a thread reads (stream, size, time), or the end of its reading loop.\<close>

datatype ff_event = Packet nat nat nat | Interrupted

record ff_run =
  fn_threads :: ff_threads
  fn_nready :: nat
  fn_lines :: "(bool \<times> nat \<times> nat \<times> nat) list"

definition ff_thread_event :: "(string \<times> nat) option list \<Rightarrow> (nat \<Rightarrow> nat) \<Rightarrow> nat \<times> ff_event \<Rightarrow> ff_run \<Rightarrow> ff_run res" where
  "ff_thread_event opened start = (\<lambda>(i, e) s.
     case if i < length opened then opened ! i else None of
       None \<Rightarrow> Inr s
     | Some (_, v) \<Rightarrow>
         (case e of
            Packet stream_index n now \<Rightarrow> rbind (ff_read_body v (i, stream_index, n, now) (fn_threads s)) (\<lambda>t. Inr (s\<lparr>fn_threads := t\<rparr>))
          | Interrupted \<Rightarrow> Inr (s\<lparr>fn_lines := fn_lines s @ [ff_report (start i) i (fn_threads s)], fn_nready := fn_nready s + 1\<rparr>)))"

text \<open>The exit status, what each thread has opened, and what the threads have done. The result file is not written.\<close>

definition ff_receiver_main ::
  "(nat \<Rightarrow> av_lib) \<Rightarrow> (nat \<Rightarrow> nat) \<Rightarrow> (nat \<times> ff_event) list \<Rightarrow> string list
    \<Rightarrow> (int \<times> (string \<times> nat) option list \<times> ff_run) res" where
  "ff_receiver_main libs start events argv =
     (let init = (\<lambda>n. \<lparr>fn_threads = ff_threads_init n, fn_nready = 0, fn_lines = []\<rparr>) in
      if length argv \<noteq> 9 then Inr (EXIT_FAILURE, [], init 0)
      else rbind (atoi (argv ! 3)) (\<lambda>_. rbind (atoi (argv ! 5)) (\<lambda>_. rbind (atoi (argv ! 6)) (\<lambda>nthreads.
        let opened = map (\<lambda>i. ff_open (libs i) nthreads (argv ! 2)) [0..<nat nthreads];
            failed = length (filter (\<lambda>r. r = None) opened) in
        rbind (run_hook (ff_thread_event opened start) events ((init (nat nthreads))\<lparr>fn_nready := failed\<rparr>)) (\<lambda>s.
        Inr (EXIT_SUCCESS, opened, s))))))"

subsection \<open>ffmpeg/latency_receiver.cc and ffmpeg/latency_sender.cc\<close>

text \<open>\<open>init_ffmpeg\<close> of the echoing program.\<close>

definition init_ffmpeg :: "av_lib \<Rightarrow> string \<Rightarrow> int \<Rightarrow> (av_output \<times> string) option" where
  "init_ffmpeg lib remote_address remote_port =
     (let out = open_output remote_address remote_port 200 latency_output_options; buf = lat_sdp_path remote_address in
      if \<not> al_open_input lib buf latency_input_options then None
      else if \<not> al_find_stream_info lib buf then None
      else Some (out, buf))"

text \<open>\<open>while (av_read_frame(...) >= 0) av_write_frame(...)\<close>; \<open>None\<close> is a negative result, the outer \<open>None\<close> that packets keep coming.\<close>

fun ff_echo_loop :: "u8 list option list \<Rightarrow> u8 list list option" where
  "ff_echo_loop [] = None"
| "ff_echo_loop (None # reads) = Some []"
| "ff_echo_loop (Some pkt # reads) = map_option ((#) pkt) (ff_echo_loop reads)"

text \<open>The copy of \<open>init_ffmpeg\<close> in the sending program: another time base, and no search for stream information.\<close>

definition sender_init_ffmpeg :: "av_lib \<Rightarrow> string \<Rightarrow> int \<Rightarrow> (av_output \<times> string) option" where
  "sender_init_ffmpeg lib remote_address remote_port =
     (let out = open_output remote_address remote_port 30 latency_output_options; buf = lat_sdp_path remote_address in
      if \<not> al_open_input lib buf latency_input_options then None else Some (out, buf))"

definition ff_latency_receiver_main ::
  "av_lib \<Rightarrow> u8 list option list \<Rightarrow> string list \<Rightarrow> (int \<times> ((av_output \<times> string) \<times> u8 list list) option) option res" where
  "ff_latency_receiver_main lib reads argv =
     (if length argv \<noteq> 7 then Inr (Some (EXIT_FAILURE, None))
      else rbind (atoi (argv ! 2)) (\<lambda>_. rbind (atoi (argv ! 4)) (\<lambda>remote_port.
        case init_ffmpeg lib (argv ! 3) remote_port of
          None \<Rightarrow> Inr (Some (EXIT_FAILURE, None))
        | Some ctx \<Rightarrow> Inr (map_option (\<lambda>written. (EXIT_SUCCESS, Some (ctx, written))) (ff_echo_loop reads)))))"

text \<open>\<open>(1000 / (float)30) * 1000\<close> as an integer.\<close>

definition ff_period :: u64 where
  "ff_period = 33333"

record ff_latency_outcome =
  fm_ctx :: "av_output \<times> string"
  fm_sender :: ff_sender
  fm_receiver :: ff_receiver

text \<open>
  \<open>erased i\<close> are the keys the receiving thread erases before chunk \<open>i\<close>; \<open>packets\<close> is what it reads, \<open>stopped\<close> whether
  reading then fails. The inner \<open>None\<close> while \<open>ready\<close> is not set. A null pointer from \<open>init_ffmpeg\<close> is used by both threads.
\<close>

definition ff_latency_sender_main ::
  "av_lib \<Rightarrow> env \<Rightarrow> (nat \<Rightarrow> nat list) \<Rightarrow> packet list \<Rightarrow> bool \<Rightarrow> string list \<Rightarrow> disk \<Rightarrow> (int \<times> ff_latency_outcome option) option res" where
  "ff_latency_sender_main lib env erased packets stopped argv d =
     (if length argv \<noteq> 9 then Inr (Some (EXIT_FAILURE, None))
      else rbind (atoi (argv ! 3)) (\<lambda>_. rbind (atoi (argv ! 5)) (\<lambda>remote_port.
        let (mem, len) = get_mem (argv ! 1) 0 d;
            chunk_sizes = get_chunk_sizes (open_in (get_chunk_filename (argv ! 1)) d) [] in
        case sender_init_ffmpeg lib (argv ! 4) remote_port of
          None \<Rightarrow> Inl Bad_Pointer
        | Some ctx \<Rightarrow>
            rbind (ff_latency_sender env (reachable mem) ff_period (zip (map erased [0..<length chunk_sizes]) chunk_sizes)) (\<lambda>(_, s).
            rbind (ff_latency_receiver packets) (\<lambda>(reading, r).
            Inr (if reading \<and> \<not> stopped then None
                 else Some (EXIT_SUCCESS, Some \<lparr>fm_ctx = ctx, fm_sender = s, fm_receiver = r\<rparr>)))))))"

subsection \<open>Ports\<close>

text \<open>The port at the end of an address, as the library reads it; and whether what is sent there reaches an opened description.\<close>

definition url_port :: "string \<Rightarrow> int res" where
  "url_port url = atoi (rev (takeWhile (\<lambda>c. c \<noteq> CHR '':'') (rev url)))"

definition hears :: "(string \<times> nat) option \<Rightarrow> av_output \<Rightarrow> bool" where
  "hears opened out = (case opened of None \<Rightarrow> False
     | Some (path, _) \<Rightarrow> (case sdp_port path of None \<Rightarrow> False | Some port \<Rightarrow> url_port (ao_url out) = Inr (int port)))"

lemma length_show_nat: "n < 10 ^ Suc k \<Longrightarrow> length (show_nat n) \<le> Suc k"
proof (induction k arbitrary: n)
  case 0
  then show ?case by (subst show_nat.simps) simp
next
  case (Suc k)
  show ?case
  proof (cases "n < 10")
    case False
    have "n div 10 < 10 ^ Suc k" using Suc.prems by (simp add: less_mult_imp_div_less)
    then have "length (show_nat (n div 10)) \<le> Suc k" by (rule Suc.IH)
    then show ?thesis using False by (subst show_nat.simps) simp
  qed (subst show_nat.simps, simp)
qed

lemma url_port_rtp_url:
  assumes "length host \<le> 50" and "port < 100000"
  shows "url_port (rtp_url host (int port)) = Inr (int port)"
proof -
  have colon: "\<not> is_digit (CHR '':'')" "\<not> is_space (CHR '':'')" by (simp_all add: is_digit_def is_space_def)
  have "length (show_nat port) \<le> 5" using length_show_nat [of port 4] assms(2) by simp
  then have url: "rtp_url host (int port) = ''rtp://'' @ host @ '': '' @ show_nat port"
    using assms(1) by (simp add: rtp_url_def snprintf_def show_int_def)
  have "\<forall>c \<in> set (rev (show_nat port)). c \<noteq> CHR '':''" using show_nat_no_char [OF colon(1), of port] by auto
  then have "takeWhile (\<lambda>c. c \<noteq> CHR '':'') (rev (rtp_url host (int port))) = rev (show_nat port) @ '' ''"
    by (simp add: url takeWhile_append)
  then have "url_port (rtp_url host (int port)) = atoi (CHR '' '' # show_nat port)" by (simp add: url_port_def)
  also have "\<dots> = atoi (show_nat port)" by (simp add: atoi_def is_space_def)
  also have "\<dots> = Inr (int port)" using assms(2) by (simp add: atoi_show_nat)
  finally show ?thesis .
qed

lemma show_nat_digits_8:
  "show_nat 0 = ''0''" "show_nat 1 = ''1''" "show_nat 2 = ''2''" "show_nat 3 = ''3''"
  "show_nat 4 = ''4''" "show_nat 5 = ''5''" "show_nat 6 = ''6''" "show_nat 7 = ''7''"
  by (subst show_nat.simps, simp add: digit_def char_of_def bit_0)+

lemma sdp_port_path:
  assumes "n < 8"
  shows "sdp_port (sdp_path local_address (int n)) = Some (8888 + 2 * n)"
proof -
  have digit: "n < 10 \<Longrightarrow> show_nat n = [digit n]" by (subst show_nat.simps) simp
  have path: "sdp_path local_address (int n) = (if local_address = ''127.0.0.1'' then ''ffmpeg/sdp/localhost/hevc_'' else ''ffmpeg/sdp/lan/hevc_'')
      @ show_nat n @ ''.sdp''"
    using assms digit by (simp add: sdp_path_def snprintf_def show_int_def)
  have "n = 0 \<or> n = 1 \<or> n = 2 \<or> n = 3 \<or> n = 4 \<or> n = 5 \<or> n = 6 \<or> n = 7" using assms by linarith
  then show ?thesis
    unfolding path
    by (elim disjE; cases "local_address = ''127.0.0.1''"; simp only: show_nat_digits_8 sdp_port_def sdp_files_def; simp)
qed

lemma sdp_port_lat_path: "sdp_port (lat_sdp_path remote_address) = Some 8889"
  by (simp add: lat_sdp_path_def snprintf_def sdp_port_def sdp_files_def)

subsection \<open>Who is heard\<close>

lemma ff_sender_main_sent:
  assumes "is_int lp" "is_int p" "is_int rate" "nthreads < 2 ^ 31"
    and main: "ff_sender_main envs period_of finish (sender_args input result la lp ra p nthreads rate format srtp) d = Inr oc"
    and "fo_status oc = EXIT_SUCCESS"
  shows "map fst (fo_sent oc) = map (\<lambda>i. open_output ra (uint (word_of_int p :: u16) + int i * 2) rate []) [0..<nthreads]"
proof -
  obtain m len where m: "get_mem input 0 d = (m, len)" by fastforce
  let ?sizes = "get_chunk_sizes (open_in (get_chunk_filename input) d) []"
  have ne: "m \<noteq> Null" "?sizes \<noteq> []"
    using main assms(1-4,6) m
    by (auto simp: ff_sender_main_def sender_args_def Let_def nth_numeral_Cons atoi_is_int atoi_show_nat EXIT_SUCCESS_def EXIT_FAILURE_def split: if_splits)
  then obtain rs where rs: "run_all (\<lambda>i. ffmpeg_thread (envs i) (reachable m) (period_of rate) ?sizes) [0..<nthreads] = Inr rs"
    "oc = \<lparr>fo_status = EXIT_SUCCESS, fo_disk = fold (\<lambda>i. report_sent result (Some (fst (rs ! i)))) finish d,
      fo_sent = zip (map (\<lambda>i. open_output ra (uint (word_of_int p :: u16) + int i * 2) rate []) [0..<nthreads])
        (map (\<lambda>r. cs_world (snd r)) rs)\<rparr>"
    using main assms(1-4) m
    by (auto simp: ff_sender_main_def sender_args_def Let_def nth_numeral_Cons atoi_is_int atoi_show_nat rbind_eq_Inr)
  have "length rs = nthreads" using run_all_length [OF rs(1)] by simp
  then show ?thesis by (simp add: rs(2))
qed

text \<open>The program on a file and its chunk file.\<close>

lemma ff_sender_main_chunks:
  assumes "is_int lp" "is_int p" "is_int rate" "nthreads < 2 ^ 31"
    and "open_in input d = Some media" "open_in (get_chunk_filename input) d = Some chunks"
    and "get_chunk_sizes (Some chunks) [] = chunk_sizes" "chunk_sizes \<noteq> []"
    and threads: "\<And>i. i < nthreads \<Longrightarrow> ffmpeg_thread (envs i) media (period_of rate) chunk_sizes = Inr (r i, s i)"
  shows "\<exists>oc. ff_sender_main envs period_of finish (sender_args input result la lp ra p nthreads rate format srtp) d = Inr oc
    \<and> fo_status oc = EXIT_SUCCESS \<and> map snd (fo_sent oc) = map (\<lambda>i. cs_world (s i)) [0..<nthreads]"
proof -
  obtain m len where m: "get_mem input 0 d = (m, len)" "m \<noteq> Null" "reachable m = media"
    using get_mem_readable [OF assms(5)] by metis
  have "run_all (\<lambda>i. ffmpeg_thread (envs i) media (period_of rate) chunk_sizes) [0..<nthreads] = Inr (map (\<lambda>i. (r i, s i)) [0..<nthreads])"
    using threads by (intro run_all_Inr) simp
  then show ?thesis
    using assms(1-4,6-8) m
    by (simp add: ff_sender_main_def sender_args_def Let_def nth_numeral_Cons atoi_is_int atoi_show_nat o_def)
qed

lemma ff_receiver_main_opened:
  assumes "is_int lp" "is_int rp" "n < 2 ^ 31"
    and "ff_receiver_main libs start events (receiver_args result la lp ra rp n format srtp) = Inr (status, opened, run)"
  shows "opened = map (\<lambda>i. ff_open (libs i) (int n) la) [0..<n]"
  using assms
  by (auto simp: ff_receiver_main_def receiver_args_def Let_def nth_numeral_Cons atoi_is_int atoi_show_nat rbind_eq_Inr)

text \<open>
  C18: which threads of an FFmpeg throughput test hear each other. Start both programs with the same number of threads, at
  most seven, and let the sender end with success. Thread \<open>i\<close> of the sender sends to the port
  it was given plus \<open>2 i\<close>; but every thread of the receiver opens the description \<open>hevc_n.sdp\<close>, where \<open>n\<close> is the number of all
  threads, and listens on port \<open>8888 + 2 n\<close>, whatever its arguments say. So at most one thread of the sender is heard,
  and none when the sender is given port 8888, the first of the descriptions.
\<close>

theorem ffmpeg_threads_heard:
  assumes "is_int lp" "is_int lp'" "is_int rp'" "is_int rate" and "port < 65536" and "n < 8" and "length ra \<le> 50"
    and "ff_sender_main envs period_of finish (sender_args input result la lp ra (int port) n rate format srtp) d = Inr oc"
    and "fo_status oc = EXIT_SUCCESS"
    and "ff_receiver_main libs start events (receiver_args result' la' lp' ra' rp' n format' srtp') = Inr (status, opened, run)"
  shows "length (fo_sent oc) = n \<and> length opened = n
    \<and> (\<forall>i < n. \<forall>j < n. hears (opened ! j) (fst (fo_sent oc ! i)) \<longleftrightarrow> opened ! j \<noteq> None \<and> port + 2 * i = 8888 + 2 * n)
    \<and> (port = 8888 \<longrightarrow> (\<forall>i < n. \<forall>j < n. \<not> hears (opened ! j) (fst (fo_sent oc ! i))))"
proof -
  have ints: "is_int (int port)" "n < 2 ^ 31" using assms(5,6) by (simp_all add: is_int_def)
  have p: "uint (word_of_int (int port) :: u16) = int port"
    using assms(5) by (simp add: unsigned_of_nat take_bit_nat_eq_self)
  have sent: "map fst (fo_sent oc) = map (\<lambda>i. open_output ra (int port + int i * 2) rate []) [0..<n]"
    using ff_sender_main_sent [OF assms(1) ints(1) assms(4) ints(2) assms(8,9)] unfolding p .
  have "length (map fst (fo_sent oc)) = n" unfolding sent by simp
  then have len: "length (fo_sent oc) = n" by simp
  have opened: "opened = map (\<lambda>i. ff_open (libs i) (int n) la') [0..<n]"
    by (rule ff_receiver_main_opened [OF assms(2,3) ints(2) assms(10)])
  have heard: "hears (opened ! j) (fst (fo_sent oc ! i)) \<longleftrightarrow> opened ! j \<noteq> None \<and> port + 2 * i = 8888 + 2 * n"
    if "i < n" "j < n" for i j
  proof -
    have "fst (fo_sent oc ! i) = map fst (fo_sent oc) ! i" using that len by simp
    then have "ao_url (fst (fo_sent oc ! i)) = rtp_url ra (int (port + 2 * i))"
      unfolding sent using that by (simp add: open_output_def mult.commute)
    then have url: "url_port (ao_url (fst (fo_sent oc ! i))) = Inr (int (port + 2 * i))"
      using url_port_rtp_url [OF assms(7), of "port + 2 * i"] that assms(5,6) by simp
    have "opened ! j = None \<or> (\<exists>v. opened ! j = Some (sdp_path la' (int n), v))"
      using that by (simp add: opened ff_open_def Let_def)
    then show ?thesis using url sdp_port_path [OF assms(6), of la'] by (auto simp: hears_def)
  qed
  then show ?thesis using len opened by auto
qed

definition demo_lib :: av_lib where
  "demo_lib = \<lparr>al_open_input = \<lambda>_ _. True, al_find_stream_info = \<lambda>_. True, al_is_video = \<lambda>_. [False, True]\<rparr>"

theorem ffmpeg_threads_heard_witness:
  "\<exists>(oc :: ff_outcome) opened (run :: ff_run). fo_status oc = EXIT_SUCCESS
    \<and> ff_receiver_main (\<lambda>_. demo_lib) (\<lambda>_. 0) [(0, Packet 1 5 40), (1, Interrupted)] (receiver_args ''out'' ''127.0.0.1'' 8888 ''127.0.0.1'' 8888 2 ''hevc'' ''no'')
      = Inr (EXIT_SUCCESS, opened, run)
    \<and> length (fo_sent oc) = 2 \<and> length opened = 2
    \<and> (\<forall>i < 2. \<forall>j < 2. hears (opened ! j) (fst (fo_sent oc ! i)) \<longleftrightarrow> opened ! j \<noteq> None \<and> 8888 + 2 * i = 8888 + 2 * (2 :: nat))
    \<and> (8888 = (8888 :: nat) \<longrightarrow> (\<forall>i < 2. \<forall>j < 2. \<not> hears (opened ! j) (fst (fo_sent oc ! i))))"
proof -
  let ?d = "empty_disk\<lparr>d_files := [''a.hevc'' \<mapsto> [1, 2, 3], ''a.mhevc'' \<mapsto> concat (map (le_bytes 8) [2, 1])]\<rparr>"
  have sizes: "get_chunk_sizes (Some (concat (map (le_bytes 8) [2, 1]))) [] = [2, 1]"
    using read_sizes_concat [of "[2, 1]" "[]" "[]"] by (simp add: get_chunk_sizes_def)
  obtain ms s where thread: "ffmpeg_thread steady_env [1, 2, 3] 40 [2, 1] = Inr ((3, ms), s)"
    using ffmpeg_thread_schedule [of "[2, 1]" "[1, 2, 3]" 40 steady_env] by auto
  obtain oc where oc: "ff_sender_main (\<lambda>_. steady_env) (\<lambda>_. 40) [0, 1]
      (sender_args ''a.hevc'' ''out'' ''127.0.0.1'' 8888 ''127.0.0.1'' (int 8888) 2 30 ''hevc'' ''no'') ?d = Inr oc" "fo_status oc = EXIT_SUCCESS"
    using ff_sender_main_chunks [of 8888 "int 8888" 30 2 "''a.hevc''" ?d "[1, 2, 3]" "concat (map (le_bytes 8) [2, 1])" "[2, 1]"
        "\<lambda>_. steady_env" "\<lambda>_. 40" "\<lambda>_. (3, ms)" "\<lambda>_. s" "[0, 1]" "''out''" "''127.0.0.1''" "''127.0.0.1''" "''hevc''" "''no''"] sizes thread
    by (auto simp: is_int_def open_in_def empty_disk_def get_chunk_filename_def)
  obtain run where run: "ff_receiver_main (\<lambda>_. demo_lib) (\<lambda>_. 0) [(0, Packet 1 5 40), (1, Interrupted)]
      (receiver_args ''out'' ''127.0.0.1'' 8888 ''127.0.0.1'' 8888 2 ''hevc'' ''no'')
      = Inr (EXIT_SUCCESS, map (\<lambda>i. ff_open demo_lib 2 ''127.0.0.1'') [0..<2], run)"
    by (simp add: ff_receiver_main_def receiver_args_def nth_numeral_Cons atoi_is_int atoi_show_nat is_int_def
        ff_thread_event_def ff_read_body_def ff_open_def demo_lib_def Let_def)
  show ?thesis
    using ffmpeg_threads_heard [OF _ _ _ _ _ _ _ oc run] oc(2) run
    by (intro exI [of _ oc] exI [of _ "map (\<lambda>i. ff_open demo_lib 2 ''127.0.0.1'') [0..<2]"] exI [of _ run]) (simp add: is_int_def)
qed

subsection \<open>Setups that fail\<close>



subsection \<open>The latency test\<close>

lemma ff_echo_loop_all: "ff_echo_loop (map Some xs @ [None]) = Some xs"
  by (induction xs) simp_all


definition latency_disk :: disk where
  "latency_disk = empty_disk\<lparr>d_files := [''a.hevc'' \<mapsto> [0, 0, 0, 38, 0, 0, 1, 2, 9], ''a.mhevc'' \<mapsto> concat (map (le_bytes 8) [4, 5])]\<rparr>"


end
