(* ===== verification/Live_Echo.thy ===== *)
theory Live_Echo
  imports Hooks
begin

section \<open>The receiving programs on live555\<close>

text \<open>
  The sinks of \<open>live555/sink.cc\<close> and \<open>live555/latsink.cc\<close>, which count frames, and the echoing program \<open>live555/latency_receiver.cc\<close>: its
  sink hands each frame it gets to a framed source that sends it back. Sink and source run
  on one event loop; they pass the frame through globals guarded by a mutex that the sink
  unlocks and the source locks. The events of the loop (a frame came in, the sending chain
  asks the source for data) come in any order.
\<close>

subsection \<open>live555/sink.cc\<close>

record sink_state =
  sk_frames :: nat
  sk_bytes :: nat
  sk_monitors :: nat                     \<comment> \<open>monitoring threads started\<close>
  sk_printed :: "(nat \<times> nat) option"     \<comment> \<open>bytes and frames printed before \<open>exit\<close>\<close>

definition sink_init :: sink_state where
  "sink_init = \<lparr>sk_frames = 0, sk_bytes = 0, sk_monitors = 0, sk_printed = None\<rparr>"

definition sink_afterGettingFrame :: "nat \<Rightarrow> sink_state \<Rightarrow> sink_state" where
  "sink_afterGettingFrame frameSize s =
     (let s = (if sk_frames s = 0 then s\<lparr>sk_monitors := sk_monitors s + 1\<rparr> else s);
          s = s\<lparr>sk_frames := sk_frames s + 1\<rparr> in
      if sk_frames s = 601 then s\<lparr>sk_printed := Some (sk_bytes s, sk_frames s)\<rparr> else s)"

text \<open>The frames of one run: none is handled once the program has ended.\<close>

primrec sink_run :: "nat list \<Rightarrow> sink_state \<Rightarrow> sink_state" where
  "sink_run [] s = s"
| "sink_run (n # ns) s = (if sk_printed s = None then sink_run ns (sink_afterGettingFrame n s) else s)"

lemma sink_run_counts:
  assumes "sk_frames s < 601" and "sk_printed s = None" and "sk_bytes s = 0"
  shows "sk_frames (sink_run ns s) = min (sk_frames s + length ns) 601
    \<and> sk_printed (sink_run ns s) = (if sk_frames s + length ns < 601 then None else Some (0, 601))"
  using assms
proof (induction ns arbitrary: s)
  case (Cons n ns)
  let ?s = "sink_afterGettingFrame n s"
  have s: "sk_frames ?s = sk_frames s + 1" "sk_bytes ?s = 0" "sk_printed ?s = (if sk_frames s + 1 = 601 then Some (0, 601) else None)"
    using Cons.prems by (auto simp: sink_afterGettingFrame_def Let_def)
  show ?case
  proof (cases "sk_frames s + 1 = 601")
    case True
    have "sink_run ns ?s = ?s" using s(3) True by (cases ns) simp_all
    then show ?thesis using Cons.prems(2) s True by simp
  next
    case False
    then show ?thesis using Cons.IH [of ?s] Cons.prems s by simp
  qed
qed simp

subsection \<open>live555/latency_receiver.cc\<close>

record echo_source =
  es_frames :: nat
  es_bytes :: nat
  es_nal :: "u8 list"          \<comment> \<open>\<open>nal_ptr\<close> and \<open>nal_size\<close>\<close>
  es_locked :: bool            \<comment> \<open>\<open>lat_mtx\<close>\<close>
  es_awaiting :: bool          \<comment> \<open>\<open>isCurrentlyAwaitingData()\<close>\<close>
  es_delivered :: "(u8 list \<times> nat) list"   \<comment> \<open>frames handed on, with \<open>fNumTruncatedBytes\<close>\<close>
  es_exit :: bool

text \<open>\<open>receiver\<close> locks the mutex before the event loop starts.\<close>

definition echo_source_init :: echo_source where
  "echo_source_init = \<lparr>es_frames = 0, es_bytes = 0, es_nal = [], es_locked = True, es_awaiting = False,
     es_delivered = [], es_exit = False\<rparr>"

definition echo_deliverFrame :: "nat \<Rightarrow> echo_source \<Rightarrow> echo_source" where
  "echo_deliverFrame fMaxSize s =
     (if \<not> es_awaiting s then s
      else if es_locked s then s
      else let s = s\<lparr>es_locked := True\<rparr>;
               newFrameSize = length (es_nal s);
               s = s\<lparr>es_bytes := es_bytes s + newFrameSize\<rparr>;
               (fFrameSize, fNumTruncatedBytes) =
                 (if fMaxSize < newFrameSize then (fMaxSize, newFrameSize - fMaxSize) else (newFrameSize, 0)) in
           s\<lparr>es_delivered := es_delivered s @ [(take fFrameSize (es_nal s), fNumTruncatedBytes)], es_awaiting := False\<rparr>)"

text \<open>\<open>getNextFrame\<close> of the library marks the source as awaiting and calls this.\<close>

definition echo_doGetNextFrame :: "nat \<Rightarrow> echo_source \<Rightarrow> echo_source" where
  "echo_doGetNextFrame fMaxSize s = echo_deliverFrame fMaxSize (s\<lparr>es_awaiting := True\<rparr>)"

definition echo_afterGettingFrame :: "nat \<Rightarrow> u8 list \<Rightarrow> echo_source \<Rightarrow> echo_source res" where
  "echo_afterGettingFrame fMaxSize frame s =
     (let s = s\<lparr>es_nal := frame\<rparr> in
      if \<not> es_locked s then Inl Not_Locked
      else let s = echo_deliverFrame fMaxSize (s\<lparr>es_locked := False\<rparr>);
               s = s\<lparr>es_frames := es_frames s + 1\<rparr> in
           Inr (if es_frames s = 602 then s\<lparr>es_exit := True\<rparr> else s))"

datatype echo_input = Frame "u8 list" | Request

definition echo_event :: "nat \<Rightarrow> echo_input \<Rightarrow> echo_source \<Rightarrow> echo_source res" where
  "echo_event fMaxSize e s =
     (if es_exit s then Inr s
      else case e of Frame x \<Rightarrow> echo_afterGettingFrame fMaxSize x s | Request \<Rightarrow> Inr (echo_doGetNextFrame fMaxSize s))"

subsection \<open>What is echoed\<close>

definition frames_in :: "echo_input list \<Rightarrow> u8 list list" where
  "frames_in es = concat (map (\<lambda>e. case e of Frame x \<Rightarrow> [x] | Request \<Rightarrow> []) es)"

definition requests_in :: "echo_input list \<Rightarrow> nat" where
  "requests_in es = length (filter (\<lambda>e. e = Request) es)"

text \<open>A frame cut to the size of the buffer, with what was cut.\<close>

definition cut :: "nat \<Rightarrow> u8 list \<Rightarrow> u8 list \<times> nat" where
  "cut m x = (take m x, length x - m)"

text \<open>
  The state after the events \<open>es\<close>: as many frames delivered as there were frames and requests for them; the mutex is
  free exactly while a frame waits for its request.
\<close>

definition echo_source_inv :: "nat \<Rightarrow> echo_input list \<Rightarrow> echo_source \<Rightarrow> bool" where
  "echo_source_inv m es s \<longleftrightarrow>
     (let xs = frames_in es; f = length xs; r = requests_in es in
      es_delivered s = map (cut m) (take (min f r) xs) \<and> es_frames s = f \<and> \<not> es_exit s
      \<and> es_bytes s = length (concat (take (min f r) xs))
      \<and> (es_locked s \<longleftrightarrow> f \<le> r) \<and> (es_awaiting s \<longleftrightarrow> f < r) \<and> (r < f \<longrightarrow> es_nal s = last xs) \<and> f \<le> r + 1 \<and> r \<le> f + 1)"

lemma frames_in_snoc [simp]:
  "frames_in (es @ [Frame x]) = frames_in es @ [x]" "frames_in (es @ [Request]) = frames_in es"
  "requests_in (es @ [Frame x]) = requests_in es" "requests_in (es @ [Request]) = requests_in es + 1"
  by (simp_all add: frames_in_def requests_in_def)

lemma echo_source_step:
  assumes inv: "echo_source_inv m es s" and "length (frames_in (es @ [e])) < 602"
    and "length (frames_in (es @ [e])) \<le> requests_in (es @ [e]) + 1" "requests_in (es @ [e]) \<le> length (frames_in (es @ [e])) + 1"
  shows "\<exists>s'. echo_event m e s = Inr s' \<and> echo_source_inv m (es @ [e]) s'"
proof (cases e)
  case (Frame x)
  then have "es_locked s" using inv assms(3) by (simp add: echo_source_inv_def Let_def)
  then show ?thesis
    using inv assms by (cases "length (frames_in es) < requests_in es")
      (auto simp: Frame echo_event_def echo_afterGettingFrame_def echo_deliverFrame_def echo_source_inv_def Let_def cut_def)
next
  case Request
  then have r: "requests_in es \<le> length (frames_in es)" using assms(4) by simp
  show ?thesis
  proof (cases "requests_in es = length (frames_in es)")
    case True
    then show ?thesis
      using inv by (simp add: Request echo_event_def echo_doGetNextFrame_def echo_deliverFrame_def echo_source_inv_def Let_def)
  next
    case False
    then have f: "length (frames_in es) = Suc (requests_in es)" using r inv by (simp add: echo_source_inv_def Let_def)
    then obtain xs x where x: "frames_in es = xs @ [x]" "length xs = requests_in es"
      by (metis append_butlast_last_id length_butlast diff_Suc_1 list.size(3) nat.distinct(1))
    then show ?thesis
      using inv f by (simp add: Request echo_event_def echo_doGetNextFrame_def echo_deliverFrame_def echo_source_inv_def Let_def cut_def)
  qed
qed

text \<open>Every request is answered before the next, and every frame asked for before the one after it comes.\<close>

definition in_step :: "echo_input list \<Rightarrow> bool" where
  "in_step es \<longleftrightarrow> (\<forall>k \<le> length es. length (frames_in (take k es)) \<le> requests_in (take k es) + 1
     \<and> requests_in (take k es) \<le> length (frames_in (take k es)) + 1)"

lemma in_step_snoc: "in_step (es @ [e]) \<Longrightarrow> in_step es"
  unfolding in_step_def by (metis le_Suc_eq length_append_singleton take_butlast butlast_snoc less_Suc_eq_le take_append append_Nil2 diff_is_0_eq take_0)

lemma frames_in_mono: "length (frames_in es) \<le> length (frames_in (es @ fs))"
  by (simp add: frames_in_def)

lemma live_echo_run:
  assumes "in_step es" and "length (frames_in es) < 602"
  shows "\<exists>s. run_hook (echo_event m) es echo_source_init = Inr s \<and> echo_source_inv m es s"
  using assms
proof (induction es rule: rev_induct)
  case Nil
  then show ?case by (simp add: echo_source_inv_def echo_source_init_def frames_in_def requests_in_def)
next
  case (snoc e es)
  obtain s where s: "run_hook (echo_event m) es echo_source_init = Inr s" "echo_source_inv m es s"
    using snoc.IH in_step_snoc [OF snoc.prems(1)] snoc.prems(2) frames_in_mono [of es "[e]"] by auto
  have "length (frames_in (es @ [e])) \<le> requests_in (es @ [e]) + 1" "requests_in (es @ [e]) \<le> length (frames_in (es @ [e])) + 1"
    using snoc.prems(1) unfolding in_step_def by (metis order_refl take_all)+
  then show ?case
    using s echo_source_step [OF s(2) snoc.prems(2)] by (auto simp: run_hook_append)
qed

subsection \<open>Properties\<close>

text \<open>
  C28: the live555 echo. As long as the sending chain asks for data once per frame, before or after the frame
  comes, nothing is lost: in any such order of events, up to the frame that ends the program, the
  source hands on each frame it was asked for once, in order, cut to the size of the buffer, and
  counts its bytes. But a frame that comes while the last one has not been asked for
  unlocks a mutex that is not held.
\<close>

theorem live_echo_returns_frames:
  assumes "in_step es" and "length (frames_in es) < 602"
  shows "\<exists>s. run_hook (echo_event m) es echo_source_init = Inr s
    \<and> es_delivered s = map (cut m) (take (requests_in es) (frames_in es))
    \<and> es_bytes s = length (concat (take (requests_in es) (frames_in es)))
    \<and> es_frames s = length (frames_in es) \<and> \<not> es_exit s
    \<and> (requests_in es < length (frames_in es) \<longrightarrow> (\<forall>x. run_hook (echo_event m) (es @ [Frame x]) echo_source_init = Inl Not_Locked))"
proof -
  obtain s where s: "run_hook (echo_event m) es echo_source_init = Inr s" "echo_source_inv m es s"
    using live_echo_run [OF assms] by blast
  have "take (min (length xs) r) xs = take r xs" for xs :: "u8 list list" and r
    by (simp add: min_def)
  then show ?thesis
    using s by (intro exI [of _ s])
      (auto simp: echo_source_inv_def Let_def run_hook_append echo_event_def echo_afterGettingFrame_def)
qed

theorem live_echo_returns_frames_witness:
  "\<exists>s. run_hook (echo_event 2) [Request, Frame [1, 2, 3], Frame [4]] echo_source_init = Inr s
    \<and> es_delivered s = map (cut 2) (take (requests_in [Request, Frame [1, 2, 3], Frame [4]]) (frames_in [Request, Frame [1, 2, 3], Frame [4]]))
    \<and> es_bytes s = length (concat (take (requests_in [Request, Frame [1, 2, 3], Frame [4]]) (frames_in [Request, Frame [1, 2, 3], Frame [4]])))
    \<and> es_frames s = length (frames_in [Request, Frame [1, 2, 3], Frame [4]]) \<and> \<not> es_exit s
    \<and> (requests_in [Request, Frame [1, 2, 3], Frame [4]] < length (frames_in [Request, Frame [1, 2, 3], Frame [4]])
         \<longrightarrow> (\<forall>x. run_hook (echo_event 2) ([Request, Frame [1, 2, 3], Frame [4]] @ [Frame x]) echo_source_init = Inl Not_Locked))"
  by (rule live_echo_returns_frames) (auto simp: in_step_def le_Suc_eq frames_in_def requests_in_def)

end
