(* ===== verification/Live_Programs.thy ===== *)
theory Live_Programs
  imports Live_Source Live_Echo Throughput
begin

section \<open>The live555 programs as a whole\<close>

text \<open>
  The programs in \<open>live555/\<close> from their command lines. The objects of the library are reduced to what the sources say of
  them: a group socket is the address and the port it was made from, and the event loop asks the source
  for frames until the program ends. That \<open>live555/receiver.cc\<close> assigns to a variable \<open>result_filename\<close>
  it does not declare, and \<open>live555/latency_sender.cc\<close> mentions such a variable \<open>addr\<close>, is passed over.
\<close>

record groupsock =
  gs_addr :: string
  gs_port :: u16

definition groupsock_of :: "string \<Rightarrow> int \<Rightarrow> groupsock" where
  "groupsock_of address port = \<lparr>gs_addr = address, gs_port = word_of_int port\<rparr>"

subsection \<open>live555/sender.cc\<close>

text \<open>The requests of the event loop, up to the one that ends the program; \<open>None\<close> after \<open>fuel\<close> of them.\<close>

fun live_loop :: "nat \<Rightarrow> (live_source \<Rightarrow> (delivery \<times> live_source) res) \<Rightarrow> live_source \<Rightarrow> ((nat \<times> u64) \<times> live_source) option res" where
  "live_loop 0 f s = Inr None"
| "live_loop (Suc fuel) f s = rbind (f s) (\<lambda>(r, s).
     case r of Finished bytes diff \<Rightarrow> Inr (Some ((bytes, diff), s)) | _ \<Rightarrow> live_loop fuel f s)"

record live_outcome =
  lo_status :: int
  lo_disk :: disk
  lo_sent :: "(groupsock \<times> world) option"

text \<open>
  \<open>base\<close> is the address of the input in memory, \<open>epoch\<close> how long ago the clock started. The input is mapped at the first request;
  a null pointer is read there.
\<close>

definition live_sender_main ::
  "env \<Rightarrow> nat \<Rightarrow> (int \<Rightarrow> u64) \<Rightarrow> u32 \<Rightarrow> nat \<Rightarrow> nat \<Rightarrow> string list \<Rightarrow> disk \<Rightarrow> live_outcome option res" where
  "live_sender_main env base period_of fMaxSize epoch fuel argv d =
     (let failure = Inr (Some \<lparr>lo_status = EXIT_FAILURE, lo_disk = d, lo_sent = None\<rparr>) in
      if length argv \<noteq> 11 then failure
      else rbind (atoi (argv ! 4)) (\<lambda>_. rbind (atoi (argv ! 6)) (\<lambda>remote_port.
        rbind (atoi (argv ! 7)) (\<lambda>_. rbind (atoi (argv ! 8)) (\<lambda>fps.
        if get_vvc_state (argv ! 9) \<or> get_srtp_state (argv ! 10) then failure
        else let (mem, len) = get_mem (argv ! 1) 0 d; group = groupsock_of (argv ! 5) remote_port in
          if mem = Null then Inl Bad_Pointer
          else rbind (live_loop fuel (doGetNextFrame env base (reachable mem) (period_of fps) fMaxSize True) (live_init epoch)) (\<lambda>r.
            Inr (map_option (\<lambda>((bytes, diff), s). \<lparr>lo_status = EXIT_SUCCESS,
              lo_disk = write_send_results_to_file (argv ! 2) bytes diff d, lo_sent = Some (group, lv_world s)\<rparr>) r)))))))"

subsection \<open>live555/receiver.cc\<close>

text \<open>
  What happens in the receiver: a frame arrives, or two seconds of the monitoring thread are over. The monitor is started by the first
  frame, and \<open>prev_frames\<close> is an \<open>unsigned\<close>.
\<close>

datatype sink_input = Arrived nat | Two_Seconds

record live_sink =
  ls_sink :: sink_state
  ls_prev_frames :: u32
  ls_exit :: "(int \<times> nat \<times> nat) option"     \<comment> \<open>status, bytes and frames printed\<close>

definition sink_event :: "sink_input \<Rightarrow> live_sink \<Rightarrow> live_sink" where
  "sink_event e s =
     (if ls_exit s \<noteq> None then s
      else case e of
          Arrived frameSize \<Rightarrow>
            let k = sink_afterGettingFrame frameSize (ls_sink s) in
            s\<lparr>ls_sink := k, ls_exit := map_option (\<lambda>(bytes, frames). (EXIT_SUCCESS, bytes, frames)) (sk_printed k)\<rparr>
        | Two_Seconds \<Rightarrow>
            if sk_monitors (ls_sink s) = 0 then s
            else if unat (ls_prev_frames s) = sk_frames (ls_sink s)
            then s\<lparr>ls_exit := Some (EXIT_FAILURE, sk_bytes (ls_sink s), sk_frames (ls_sink s))\<rparr>
            else s\<lparr>ls_prev_frames := word_of_nat (sk_frames (ls_sink s))\<rparr>)"

definition live_sink_init :: live_sink where
  "live_sink_init = \<lparr>ls_sink = sink_init, ls_prev_frames = - 1, ls_exit = None\<rparr>"

text \<open>The socket the program listens on, if its arguments are accepted, and how it ends, if it does.\<close>

definition live_receiver_main :: "sink_input list \<Rightarrow> string list \<Rightarrow> (groupsock option \<times> (int \<times> nat \<times> nat) option) res" where
  "live_receiver_main events argv =
     (if length argv \<noteq> 9 then Inr (None, Some (EXIT_FAILURE, 0, 0))
      else rbind (atoi (argv ! 3)) (\<lambda>local_port. rbind (atoi (argv ! 5)) (\<lambda>_. rbind (atoi (argv ! 6)) (\<lambda>_.
        if get_vvc_state (argv ! 7) \<or> get_srtp_state (argv ! 8) then Inr (None, Some (EXIT_FAILURE, 0, 0))
        else Inr (Some (groupsock_of (argv ! 2) local_port), ls_exit (fold sink_event events live_sink_init))))))"

subsection \<open>live555/latency_sender.cc and live555/latency_receiver.cc\<close>

text \<open>The sockets a program sends on and receives on; \<open>None\<close> on a wrong number of arguments.\<close>

record live_setup =
  lu_send :: groupsock
  lu_recv :: groupsock

definition live_latency_sender_setup :: "string list \<Rightarrow> live_setup option res" where
  "live_latency_sender_setup argv =
     (if length argv \<noteq> 9 then Inr None
      else rbind (atoi (argv ! 3)) (\<lambda>local_port. rbind (atoi (argv ! 5)) (\<lambda>remote_port.
        Inr (Some \<lparr>lu_send = groupsock_of (argv ! 4) remote_port, lu_recv = groupsock_of (argv ! 2) local_port\<rparr>))))"

definition live_latency_receiver_setup :: "string list \<Rightarrow> live_setup option res" where
  "live_latency_receiver_setup argv =
     (if length argv \<noteq> 7 then Inr None
      else rbind (atoi (argv ! 2)) (\<lambda>local_port. rbind (atoi (argv ! 4)) (\<lambda>remote_port.
        Inr (Some \<lparr>lu_send = groupsock_of (argv ! 3) remote_port, lu_recv = groupsock_of (argv ! 1) local_port\<rparr>))))"

subsection \<open>Running\<close>

lemma live_loop_calls:
  assumes "calls (Suc n) f s = Inr (replicate n Handed_Over @ [Finished b ms], s')" and "n < fuel"
  shows "live_loop fuel f s = Inr (Some ((b, ms), s'))"
  using assms
proof (induction n arbitrary: s fuel)
  case 0
  then obtain fuel' where fuel: "fuel = Suc fuel'" using gr0_implies_Suc by blast
  show ?case using 0(1) by (cases "f s") (auto simp: fuel)
next
  case (Suc n)
  obtain fuel' where fuel: "fuel = Suc fuel'" "n < fuel'" using Suc.prems(2) less_imp_Suc_add by (cases fuel) auto
  obtain s1 where s1: "f s = Inr (Handed_Over, s1)" "calls (Suc n) f s1 = Inr (replicate n Handed_Over @ [Finished b ms], s')"
    using Suc.prems(1) by (auto simp: rbind_eq_Inr simp del: calls.simps simp add: calls.simps(2) [of "Suc n"])
  show ?case using Suc.IH [OF s1(2) fuel(2)] s1(1) by (simp add: fuel(1))
qed

definition arrivals :: "sink_input list \<Rightarrow> nat list" where
  "arrivals es = concat (map (\<lambda>e. case e of Arrived n \<Rightarrow> [n] | Two_Seconds \<Rightarrow> []) es)"

lemma arrivals_simps [simp]:
  "arrivals [] = []" "arrivals (Arrived n # es) = n # arrivals es" "arrivals (Two_Seconds # es) = arrivals es"
  by (simp_all add: arrivals_def)

text \<open>A frame comes in every two seconds; the first argument is whether one has come in the current two.\<close>

fun lively :: "bool \<Rightarrow> sink_input list \<Rightarrow> bool" where
  "lively came [] = True"
| "lively came (Arrived n # es) = lively True es"
| "lively came (Two_Seconds # es) = (came \<and> lively False es)"

definition sink_inv :: "bool \<Rightarrow> live_sink \<Rightarrow> bool" where
  "sink_inv came s \<longleftrightarrow>
     (let k = ls_sink s; prev = ls_prev_frames s in
      ls_exit s = None \<and> sk_printed k = None \<and> sk_bytes k = 0 \<and> sk_frames k < 601
      \<and> (sk_monitors k = 0 \<longleftrightarrow> sk_frames k = 0) \<and> (prev = - 1 \<or> unat prev \<le> sk_frames k)
      \<and> (came \<and> 0 < sk_frames k \<longrightarrow> unat prev \<noteq> sk_frames k))"

lemma unat_max_u32: "unat (- 1 :: u32) = 4294967295"
  by (simp add: unsigned_minus_1_eq_mask mask_eq_exp_minus_1)

lemma sink_exited: "ls_exit s \<noteq> None \<Longrightarrow> fold sink_event es s = s"
  by (induction es) (simp_all add: sink_event_def)

lemma sink_arrived:
  assumes "sink_inv came s"
  shows "if sk_frames (ls_sink s) + 1 = 601 then ls_exit (sink_event (Arrived n) s) = Some (EXIT_SUCCESS, 0, 601)
    else sink_inv True (sink_event (Arrived n) s) \<and> sk_frames (ls_sink (sink_event (Arrived n) s)) = sk_frames (ls_sink s) + 1"
  using assms
  by (auto simp: sink_inv_def sink_event_def sink_afterGettingFrame_def Let_def unat_max_u32)

lemma sink_two_seconds:
  assumes "sink_inv True s"
  shows "sink_inv False (sink_event Two_Seconds s) \<and> sk_frames (ls_sink (sink_event Two_Seconds s)) = sk_frames (ls_sink s)"
  using assms
  by (auto simp: sink_inv_def sink_event_def Let_def unsigned_of_nat take_bit_nat_eq_self)

lemma live_sink_run:
  assumes "sink_inv came s" and "lively came es"
  shows "if sk_frames (ls_sink s) + length (arrivals es) < 601
    then \<exists>came'. sink_inv came' (fold sink_event es s) \<and> sk_frames (ls_sink (fold sink_event es s)) = sk_frames (ls_sink s) + length (arrivals es)
    else ls_exit (fold sink_event es s) = Some (EXIT_SUCCESS, 0, 601)"
  using assms
proof (induction es arbitrary: came s)
  case Nil
  then show ?case by (auto simp: sink_inv_def Let_def)
next
  case (Cons e es)
  show ?case
  proof (cases e)
    case (Arrived n)
    let ?s = "sink_event (Arrived n) s"
    show ?thesis
    proof (cases "sk_frames (ls_sink s) + 1 = 601")
      case True
      then have "ls_exit ?s = Some (EXIT_SUCCESS, 0, 601)" using sink_arrived [OF Cons.prems(1), of n] by simp
      then show ?thesis using True by (simp add: Arrived sink_exited)
    next
      case False
      then have "sink_inv True ?s" "sk_frames (ls_sink ?s) = sk_frames (ls_sink s) + 1"
        using sink_arrived [OF Cons.prems(1), of n] by simp_all
      then show ?thesis using Cons.IH [of True ?s] Cons.prems(2) by (auto simp: Arrived split: if_splits)
    qed
  next
    case Two_Seconds
    then have "sink_inv True s" "lively False es" using Cons.prems by auto
    then show ?thesis using Cons.IH [of False "sink_event Two_Seconds s"] sink_two_seconds by (auto simp: Two_Seconds split: if_splits)
  qed
qed

text \<open>The end of a run: four seconds without a frame.\<close>

lemma live_sink_end:
  assumes "lively True es" and "arrivals es \<noteq> []"
  shows "ls_exit (fold sink_event (es @ [Two_Seconds, Two_Seconds]) live_sink_init)
    = Some (if length (arrivals es) < 601 then (EXIT_FAILURE, 0, length (arrivals es)) else (EXIT_SUCCESS, 0, 601))"
proof -
  have "sink_inv True live_sink_init" by (simp add: sink_inv_def live_sink_init_def sink_init_def)
  note run = live_sink_run [OF this assms(1)]
  let ?s = "fold sink_event es live_sink_init"
  show ?thesis
  proof (cases "length (arrivals es) < 601")
    case False
    then have "ls_exit ?s = Some (EXIT_SUCCESS, 0, 601)" using run by (simp add: live_sink_init_def sink_init_def)
    then show ?thesis using False by (simp add: sink_event_def)
  next
    case True
    then obtain came where "sink_inv came ?s" "sk_frames (ls_sink ?s) = length (arrivals es)"
      using run by (auto simp: live_sink_init_def sink_init_def)
    then show ?thesis
      using True assms(2) by (auto simp: sink_inv_def sink_event_def Let_def unsigned_of_nat take_bit_nat_eq_self)
  qed
qed

subsection \<open>Properties\<close>

text \<open>
  C34: the live555 throughput test, program against program, over a lossless network. Take an Annex B file and start both programs with the
  receiver's address and port, and a format and SRTP argument they accept. The sender ends with success and has handed over every NAL unit
  once, in order, cut to the size the library has room for, and its result line has the bytes of the whole NAL units. It sends
  to the socket the receiver listens on. The receiver, to which a frame comes at least every two seconds, ends with success
  at the 601st frame; a file of fewer NAL units makes it end with a failure status once the frames stop. It
  has counted all frames until then, and prints zero bytes. With VVC or SRTP both programs fail before they open anything.
\<close>

theorem live555_throughput_test:
  assumes args: "is_int lp" "is_int p" "is_int rate" "is_int rp" "n < 2 ^ 31" "n' < 2 ^ 31"
    and input: "open_in input d = Some (annexb ps)" "ps \<noteq> []" "whole_lines result d"
    and nals: "\<forall>x \<in> set ps. nal_ok (snd x) \<and> length (snd x) < 2 ^ 32"
    and sched: "big_nals (map snd ps) * unat (period_of rate) < 2 ^ 64" "big_nals (map snd ps) < 2 ^ 64 - 1" "length ps < fuel"
    and arrive: "lively True es" "arrivals es = map (\<lambda>x. length (take (unat fMaxSize) (snd x))) ps"
  shows "if get_vvc_state format \<or> get_srtp_state srtp
    then live_sender_main env base period_of fMaxSize epoch fuel (sender_args input result la lp ra p n rate format srtp) d
        = Inr (Some \<lparr>lo_status = EXIT_FAILURE, lo_disk = d, lo_sent = None\<rparr>)
      \<and> live_receiver_main (es @ [Two_Seconds, Two_Seconds]) (receiver_args result' ra p ra' rp n' format srtp) = Inr (None, Some (EXIT_FAILURE, 0, 0))
    else \<exists>d' socket w (ms :: u64).
      live_sender_main env base period_of fMaxSize epoch fuel (sender_args input result la lp ra p n rate format srtp) d
        = Inr (Some \<lparr>lo_status = EXIT_SUCCESS, lo_disk = d', lo_sent = Some (socket, w)\<rparr>)
      \<and> pushed w = map (take (unat fMaxSize)) (map snd ps)
      \<and> (let b = length (concat (map snd ps)) in
          result_nums result d' = result_nums result d @ [[b, b div 1000, b div 1000000, unat ms, unat ms div 1000]])
      \<and> live_receiver_main (es @ [Two_Seconds, Two_Seconds]) (receiver_args result' ra p ra' rp n' format srtp)
        = Inr (Some socket, Some (if length ps < 601 then (EXIT_FAILURE, 0, length ps) else (EXIT_SUCCESS, 0, 601)))"
proof -
  note args = nth_numeral_Cons atoi_is_int [OF args(1)] atoi_is_int [OF args(2)] atoi_is_int [OF args(3)] atoi_is_int [OF args(4)]
    atoi_show_nat [OF args(5)] atoi_show_nat [OF args(6)]
  obtain m len where m: "get_mem input 0 d = (m, len)" "m \<noteq> Null" "reachable m = annexb ps"
    using get_mem_readable [OF input(1)] by metis
  obtain s ms where s: "calls (Suc (length ps)) (doGetNextFrame env base (annexb ps) (period_of rate) fMaxSize True) (live_init epoch)
      = Inr (replicate (length ps) Handed_Over @ [Finished (length (concat (map snd ps))) ms], s)"
    "pushed (lv_world s) = map (take (unat fMaxSize)) (map snd ps)"
    using live_source_run [OF nals sched(1,2)] by blast
  have sink: "ls_exit (fold sink_event (es @ [Two_Seconds, Two_Seconds]) live_sink_init)
      = Some (if length ps < 601 then (EXIT_FAILURE, 0, length ps) else (EXIT_SUCCESS, 0, 601))"
    using live_sink_end [OF arrive(1)] arrive(2) input(2) by simp
  show ?thesis
  proof (cases "get_vvc_state format \<or> get_srtp_state srtp")
    case True
    then show ?thesis
      by (auto simp: live_sender_main_def live_receiver_main_def sender_args_def receiver_args_def args Let_def)
  next
    case False
    let ?d = "write_send_results_to_file result (length (concat (map snd ps))) ms d"
    have "live_sender_main env base period_of fMaxSize epoch fuel (sender_args input result la lp ra p n rate format srtp) d
        = Inr (Some \<lparr>lo_status = EXIT_SUCCESS, lo_disk = ?d, lo_sent = Some (groupsock_of ra p, lv_world s)\<rparr>)"
      using False m live_loop_calls [OF s(1) sched(3)] by (simp add: live_sender_main_def sender_args_def args Let_def)
    moreover have "live_receiver_main (es @ [Two_Seconds, Two_Seconds]) (receiver_args result' ra p ra' rp n' format srtp)
        = Inr (Some (groupsock_of ra p), ls_exit (fold sink_event (es @ [Two_Seconds, Two_Seconds]) live_sink_init))"
      using False by (simp add: live_receiver_main_def receiver_args_def args)
    ultimately show ?thesis
      unfolding if_not_P [OF False] using s(2) sink write_send_line(2) [OF input(3), of "length (concat (map snd ps))" ms]
      by (intro exI [of _ ?d] exI [of _ "groupsock_of ra p"] exI [of _ "lv_world s"] exI [of _ ms]) (simp add: Let_def)
  qed
qed

theorem live555_throughput_test_witness:
  "if get_vvc_state ''hevc'' \<or> get_srtp_state ''no''
    then live_sender_main steady_env 3 (\<lambda>_. 33333) 4 0 9 (sender_args ''a'' ''out'' ''::1'' 9000 ''::1'' 9002 1 30 ''hevc'' ''no'')
        (empty_disk\<lparr>d_files := [''a'' \<mapsto> annexb demo_nals]\<rparr>)
        = Inr (Some \<lparr>lo_status = EXIT_FAILURE, lo_disk = empty_disk\<lparr>d_files := [''a'' \<mapsto> annexb demo_nals]\<rparr>, lo_sent = None\<rparr>)
      \<and> live_receiver_main (map (\<lambda>x. Arrived (length (take (unat (4 :: u32)) (snd x)))) demo_nals @ [Two_Seconds, Two_Seconds])
          (receiver_args ''in'' ''::1'' 9002 ''::1'' 9000 1 ''hevc'' ''no'') = Inr (None, Some (EXIT_FAILURE, 0, 0))
    else \<exists>d' socket w (ms :: u64).
      live_sender_main steady_env 3 (\<lambda>_. 33333) 4 0 9 (sender_args ''a'' ''out'' ''::1'' 9000 ''::1'' 9002 1 30 ''hevc'' ''no'')
        (empty_disk\<lparr>d_files := [''a'' \<mapsto> annexb demo_nals]\<rparr>)
        = Inr (Some \<lparr>lo_status = EXIT_SUCCESS, lo_disk = d', lo_sent = Some (socket, w)\<rparr>)
      \<and> pushed w = map (take (unat (4 :: u32))) (map snd demo_nals)
      \<and> (let b = length (concat (map snd demo_nals)) in
          result_nums ''out'' d' = result_nums ''out'' (empty_disk\<lparr>d_files := [''a'' \<mapsto> annexb demo_nals]\<rparr>)
            @ [[b, b div 1000, b div 1000000, unat ms, unat ms div 1000]])
      \<and> live_receiver_main (map (\<lambda>x. Arrived (length (take (unat (4 :: u32)) (snd x)))) demo_nals @ [Two_Seconds, Two_Seconds])
          (receiver_args ''in'' ''::1'' 9002 ''::1'' 9000 1 ''hevc'' ''no'')
        = Inr (Some socket, Some (if length demo_nals < 601 then (EXIT_FAILURE, 0, length demo_nals) else (EXIT_SUCCESS, 0, 601)))"
  by (rule live555_throughput_test)
    (auto simp: demo_nals_def nal_ok_def is_code_def less_Suc_eq big_nals_def is_int_def open_in_def empty_disk_def whole_lines_def)

end
