(* ===== verification/Udperf.thy ===== *)
theory Udperf
  imports Complex_Main Prelude
begin

section \<open>The raw UDP benchmark: udperf.cc\<close>

text \<open>
  The server counts the packets of a round until it has \<open>MAX_PKTS\<close> of them or two seconds pass without one, and
  sends the count to the client, which computes its figures from it. Sockets are inputs: what
  \<open>select\<close> finds waiting is a window, a list of the sizes of the datagrams read before the
  socket is empty again; an empty window is a timeout. The \<open>float\<close> figures are exact here.
\<close>

definition MAX_PKTS :: nat where "MAX_PKTS = 350000"
definition MAX_ROUNDS :: nat where "MAX_ROUNDS = 10"

subsection \<open>The server\<close>

text \<open>\<open>while (recv(...) > 0) ++npkts\<close>: a datagram read as no bytes ends the loop without being counted.\<close>

fun recv_burst :: "nat \<Rightarrow> nat list \<Rightarrow> nat \<Rightarrow> nat \<times> nat list" where
  "recv_burst packet_size [] npkts = (npkts, [])"
| "recv_burst packet_size (d # ds) npkts =
     (if 0 < min d packet_size then recv_burst packet_size ds (npkts + 1) else (npkts, ds))"

text \<open>One round: the count and what is left of the windows; \<open>None\<close> if it still waits.\<close>

fun server_round :: "nat \<Rightarrow> nat list list \<Rightarrow> nat list \<Rightarrow> nat \<Rightarrow> (nat \<times> nat list \<times> nat list list) option" where
  "server_round packet_size windows waiting npkts =
     (if npkts = MAX_PKTS then Some (npkts, waiting, windows)
      else case windows of
          [] \<Rightarrow> None
        | window # windows \<Rightarrow>
            if waiting @ window = [] then Some (npkts, [], windows)
            else case recv_burst packet_size (waiting @ window) npkts of
                (npkts, waiting) \<Rightarrow> server_round packet_size windows waiting npkts)"

declare server_round.simps [simp del]

text \<open>The counts sent in the rounds of a run.\<close>

fun server_rounds :: "nat \<Rightarrow> nat \<Rightarrow> nat list list \<Rightarrow> nat list \<Rightarrow> nat list option" where
  "server_rounds packet_size 0 windows waiting = Some []"
| "server_rounds packet_size (Suc i) windows waiting =
     (case server_round packet_size windows waiting 0 of
        None \<Rightarrow> None
      | Some (npkts, waiting, windows) \<Rightarrow> map_option (\<lambda>counts. npkts # counts) (server_rounds packet_size i windows waiting))"

definition server :: "nat \<Rightarrow> nat list list \<Rightarrow> nat list option" where
  "server packet_size windows = server_rounds packet_size MAX_ROUNDS windows []"

subsection \<open>The client\<close>

text \<open>\<open>bytes = MAX_PKTS * packet_size\<close> on \<open>int\<close>; \<open>None\<close> when it overflows, which is undefined.\<close>

definition client_bytes :: "int \<Rightarrow> int option" where
  "client_bytes packet_size =
     (let bytes = int MAX_PKTS * packet_size in if - (2 ^ 31) \<le> bytes \<and> bytes < 2 ^ 31 then Some bytes else None)"

definition diff_ms :: "int \<times> int \<Rightarrow> int \<times> int \<Rightarrow> rat" where
  "diff_ms s e = of_int ((fst e - fst s) * 1000000000 + snd e - snd s) / 1000 / 1000"

text \<open>
  The four figures of a round: gigabits and megabits per second, megabytes, percentage. A run time below a
  millisecond is 0 as an \<open>int\<close> and makes the rates infinite, here \<open>None\<close>.
\<close>

definition rate :: "rat \<Rightarrow> int \<Rightarrow> rat option" where
  "rate bits runtime = (if runtime = 0 then None else Some (bits / of_int runtime * 1000))"

definition client_round :: "int \<Rightarrow> int \<times> int \<Rightarrow> int \<times> int \<Rightarrow> int \<Rightarrow> (rat option \<times> rat option \<times> int \<times> rat) option" where
  "client_round packet_size start end pkts =
     (let runtime = floor (diff_ms start end) in
      map_option (\<lambda>bytes. (rate (of_int bytes * 8 / 1000 / 1000 / 1000) runtime, rate (of_int bytes * 8 / 1000 / 1000) runtime,
        bytes div 1000 div 1000, of_int pkts / of_nat MAX_PKTS * 100)) (client_bytes packet_size))"

subsection \<open>Counting\<close>

lemma recv_burst_all:
  "\<forall>d \<in> set ds. 0 < d \<Longrightarrow> 0 < packet_size \<Longrightarrow> recv_burst packet_size ds npkts = (npkts + length ds, [])"
  by (induction ds arbitrary: npkts) auto

lemma server_round_done [simp]: "server_round packet_size windows waiting MAX_PKTS = Some (MAX_PKTS, waiting, windows)"
  by (subst server_round.simps) simp

lemma server_round_timeout:
  "npkts \<noteq> MAX_PKTS \<Longrightarrow> server_round packet_size ([] # windows) [] npkts = Some (npkts, [], windows)"
  by (subst server_round.simps) simp

lemma server_round_step:
  "npkts \<noteq> MAX_PKTS \<Longrightarrow> window \<noteq> [] \<Longrightarrow> \<forall>d \<in> set window. 0 < d \<Longrightarrow> 0 < packet_size \<Longrightarrow>
    server_round packet_size (window # windows) [] npkts = server_round packet_size windows [] (npkts + length window)"
  by (subst server_round.simps) (simp add: recv_burst_all)

text \<open>A round that gets at most the expected number of packets counts all of them, and leaves the silence after it or not.\<close>

lemma server_round_counts:
  assumes "\<forall>w \<in> set ws. w \<noteq> [] \<and> (\<forall>d \<in> set w. 0 < d)" and "0 < packet_size"
    and "npkts + length (concat ws) \<le> MAX_PKTS"
  shows "server_round packet_size (ws @ [] # rest) [] npkts
    = Some (npkts + length (concat ws), [], if npkts + length (concat ws) = MAX_PKTS then [] # rest else rest)"
  using assms
proof (induction ws arbitrary: npkts)
  case Nil
  then show ?case using server_round_timeout [of npkts] by (cases "npkts = MAX_PKTS") simp_all
next
  case (Cons w ws)
  then have "0 < length w" by simp
  then have "npkts \<noteq> MAX_PKTS" using Cons.prems(3) by auto
  then show ?case
    using Cons.IH [of "npkts + length w"] Cons.prems by (simp add: server_round_step add.assoc)
qed

subsection \<open>Properties\<close>

text \<open>
  A round of udperf. The client sends 350000 packets of 1 to 6135 bytes; whatever part of them reaches the server, in
  bursts less than two seconds apart and then silence, the server reports exactly their number, and the
  client computes its figures without overflow: the megabytes it sent, and the percentage that arrived, which is between 0 and
  100. With packets of 6136 bytes or more the byte count does not fit an \<open>int\<close>.
\<close>

theorem udperf_round:
  assumes "\<forall>w \<in> set ws. w \<noteq> [] \<and> (\<forall>d \<in> set w. d = packet_size)" and "length (concat ws) \<le> 350000" and "0 < packet_size"
  shows "(\<exists>rest'. server_round packet_size (ws @ [] # rest) [] 0 = Some (length (concat ws), [], rest') \<and> rest' \<in> {rest, [] # rest})
    \<and> (case client_round (int packet_size) start end (int (length (concat ws))) of
         Some (gbps, mbps, mb, percent) \<Rightarrow>
           packet_size \<le> 6135 \<and> mb = int (350000 * packet_size div 1000000) \<and> 0 \<le> percent \<and> percent \<le> 100
           \<and> percent * 3500 = of_nat (length (concat ws)) \<and> map_option (\<lambda>g. g * 1000) gbps = mbps
       | None \<Rightarrow> 6136 \<le> packet_size)"
proof -
  have pos: "\<forall>w \<in> set ws. w \<noteq> [] \<and> (\<forall>d \<in> set w. 0 < d)" using assms(1,3) by metis
  have round: "server_round packet_size (ws @ [] # rest) [] 0 = Some (length (concat ws), [],
      if length (concat ws) = MAX_PKTS then [] # rest else rest)"
    using server_round_counts [OF pos assms(3), of 0 rest] assms(2) by (simp add: MAX_PKTS_def)
  have bytes: "client_bytes (int packet_size) = (if packet_size \<le> 6135 then Some (350000 * int packet_size) else None)"
    by (simp add: client_bytes_def MAX_PKTS_def)
  have mb: "350000 * int packet_size div 1000 div 1000 = int (350000 * packet_size div 1000000)"
    by (simp add: zdiv_int div_mult2_eq' flip: zdiv_zmult2_eq)
  have pc: "0 \<le> (of_nat n :: rat) / 350000 * 100" "(of_nat n :: rat) / 350000 * 100 \<le> 100 \<longleftrightarrow> n \<le> 350000"
    "(of_nat n :: rat) / 350000 * 100 * 3500 = of_nat n" for n
    by (simp_all add: divide_le_eq)
  show ?thesis
    using round assms(2) mb pc [of "length (concat ws)"]
    by (simp add: client_round_def bytes MAX_PKTS_def rate_def Let_def)
qed

theorem udperf_round_witness:
  "(\<exists>rest'. server_round 1400 ([[1400, 1400], [1400]] @ [] # []) [] 0 = Some (length (concat [[1400, 1400], [1400 :: nat]]), [], rest')
      \<and> rest' \<in> {[], [] # []})
    \<and> (case client_round (int 1400) (5, 0) (7, 500) (int (length (concat [[1400, 1400], [1400 :: nat]]))) of
         Some (gbps, mbps, mb, percent) \<Rightarrow>
           1400 \<le> (6135 :: nat) \<and> mb = int (350000 * 1400 div 1000000) \<and> 0 \<le> percent \<and> percent \<le> 100
           \<and> percent * 3500 = of_nat (length (concat [[1400, 1400], [1400 :: nat]])) \<and> map_option (\<lambda>g. g * 1000) gbps = mbps
       | None \<Rightarrow> 6136 \<le> (1400 :: nat))"
  by (rule udperf_round) simp_all

end
