(* ===== verification/Udperf_Programs.thy ===== *)
theory Udperf_Programs
  imports Udperf Decimal
begin

section \<open>The two versions of the UDP benchmark as programs\<close>

text \<open>
  \<open>udperf.cc\<close> from its command line: the options, the addresses of the sockets, and then the rounds of
  \<open>Udperf\<close>; and \<open>udperf.c\<close>, an older version with a fixed port and packet size. Of the C library, \<open>getopt\<close> and
  \<open>inet_pton\<close> are modelled as they are documented. What arrives on a socket and the clock are inputs.
\<close>

subsection \<open>getopt\<close>

text \<open>
  The option string as a function: whether a letter is an option, and whether that takes an argument. The
  second argument is what is left of the word being read. The result are the options in order with their
  arguments, and whether the end came without an unknown option or a missing argument. Words that are not
  options are passed over, and \<open>--\<close> ends the options.
\<close>

fun getopt :: "(char \<Rightarrow> bool option) \<Rightarrow> string \<Rightarrow> string list \<Rightarrow> (char \<times> string) list \<times> bool" where
  "getopt opts [] [] = ([], True)"
| "getopt opts [] (w # ws) =
     (if w = ''--'' then ([], True)
      else if length w < 2 \<or> hd w \<noteq> CHR ''-'' then getopt opts [] ws
      else getopt opts (tl w) ws)"
| "getopt opts (c # cs) ws =
     (case opts c of
        None \<Rightarrow> ([], False)
      | Some False \<Rightarrow> apfst ((#) (c, [])) (getopt opts cs ws)
      | Some True \<Rightarrow>
          if cs \<noteq> [] then apfst ((#) (c, cs)) (getopt opts [] ws)
          else case ws of [] \<Rightarrow> ([], False) | a # ws \<Rightarrow> apfst ((#) (c, a)) (getopt opts [] ws))"

subsection \<open>inet_pton\<close>

text \<open>The words between the dots.\<close>

fun split_dots :: "string \<Rightarrow> string list" where
  "split_dots [] = [[]]"
| "split_dots (c # cs) =
     (if c = CHR ''.'' then [] # split_dots cs
      else case split_dots cs of w # ws \<Rightarrow> (c # w) # ws | [] \<Rightarrow> [[c]])"

text \<open>A decimal number below 256 without leading zeros.\<close>

definition octet :: "string \<Rightarrow> bool" where
  "octet w \<longleftrightarrow> read_digits 0 w < 256 \<and> show_nat (read_digits 0 w) = w"

definition inet_pton :: "string \<Rightarrow> u8 list option" where
  "inet_pton s =
     (let ws = split_dots s in
      if length ws = 4 \<and> list_all octet ws then Some (map (\<lambda>w. word_of_nat (read_digits 0 w)) ws) else None)"

text \<open>\<open>sockaddr_in\<close>, with the port as a number.\<close>

record sockaddr =
  sin_port :: u16
  sin_addr :: "u8 list"

definition INADDR_ANY :: "u8 list" where
  "INADDR_ANY = [0, 0, 0, 0]"

subsection \<open>udperf.cc\<close>

record server_run =
  sr_udp :: sockaddr          \<comment> \<open>where the sockets are bound\<close>
  sr_tcp :: sockaddr
  sr_counts :: "nat list"     \<comment> \<open>what it sent to the client\<close>

type_synonym figures = "rat option \<times> rat option \<times> int \<times> rat"

record client_run =
  cr_udp :: sockaddr          \<comment> \<open>where the packets are sent\<close>
  cr_tcp :: sockaddr          \<comment> \<open>what it connects to\<close>
  cr_figures :: "figures list"
  cr_average :: "rat option"

text \<open>The inner \<open>None\<close> while the server waits for packets. An array of packet size 0 or less is undefined.\<close>

definition server_program :: "string \<Rightarrow> u16 \<Rightarrow> int \<Rightarrow> nat list list \<Rightarrow> (int \<times> server_run option) option res" where
  "server_program address port packet_size windows =
     (case if address = ''0.0.0.0'' then Some INADDR_ANY else inet_pton address of
        None \<Rightarrow> Inr (Some (EXIT_FAILURE, None))
      | Some a \<Rightarrow>
          if packet_size \<le> 0 then Inl Bad_Length
          else Inr (map_option (\<lambda>counts. (EXIT_SUCCESS, Some \<lparr>sr_udp = \<lparr>sin_port = port, sin_addr = a\<rparr>,
              sr_tcp = \<lparr>sin_port = port + 1, sin_addr = a\<rparr>, sr_counts = counts\<rparr>)) (server (nat packet_size) windows)))"

text \<open>\<open>total += ...\<close>; an infinite summand stays.\<close>

definition add_rate :: "rat option \<Rightarrow> rat option \<Rightarrow> rat option" where
  "add_rate t r = (case (t, r) of (Some x, Some y) \<Rightarrow> Some (x + y) | _ \<Rightarrow> None)"

text \<open>Round \<open>i\<close> takes from \<open>fst (clock i)\<close> to \<open>snd (clock i)\<close>, and the server answers \<open>reply i\<close>.\<close>

definition client_program ::
  "string \<Rightarrow> u16 \<Rightarrow> int \<Rightarrow> (nat \<Rightarrow> (int \<times> int) \<times> (int \<times> int)) \<Rightarrow> (nat \<Rightarrow> int) \<Rightarrow> (int \<times> client_run option) res" where
  "client_program address port packet_size clock reply =
     (if packet_size \<le> 0 then Inl Bad_Length
      else case inet_pton address of
          None \<Rightarrow> Inr (EXIT_FAILURE, None)
        | Some a \<Rightarrow>
            rbind (run_all (\<lambda>i. of_option Int_Overflow (client_round packet_size (fst (clock i)) (snd (clock i)) (reply i)))
              [0..<MAX_ROUNDS]) (\<lambda>rounds.
            Inr (EXIT_SUCCESS, Some \<lparr>cr_udp = \<lparr>sin_port = port, sin_addr = a\<rparr>, cr_tcp = \<lparr>sin_port = port + 1, sin_addr = a\<rparr>,
              cr_figures = rounds,
              cr_average = map_option (\<lambda>t. t / of_nat MAX_ROUNDS) (foldl add_rate (Some 0) (map fst rounds))\<rparr>)))"

record udp_args =
  ua_address :: string
  ua_port :: u16
  ua_run_client :: bool
  ua_run_server :: bool
  ua_packet_size :: int

definition udp_options :: "char \<Rightarrow> bool option" where
  "udp_options c = (if c \<in> {CHR ''c'', CHR ''s'', CHR ''p'', CHR ''i''} then Some True else None)"

fun set_options :: "(char \<times> string) list \<Rightarrow> udp_args \<Rightarrow> udp_args res" where
  "set_options [] a = Inr a"
| "set_options ((c, optarg) # os) a =
     (if c = CHR ''c'' then set_options os (a\<lparr>ua_address := optarg, ua_run_client := True\<rparr>)
      else if c = CHR ''s'' then set_options os (a\<lparr>ua_address := optarg, ua_run_server := True\<rparr>)
      else if c = CHR ''p'' then rbind (atoi optarg) (\<lambda>i. set_options os (a\<lparr>ua_port := word_of_int i\<rparr>))
      else rbind (atoi optarg) (\<lambda>i. set_options os (a\<lparr>ua_packet_size := i\<rparr>)))"

type_synonym udp_outcome = "int \<times> server_run option \<times> client_run option"

definition udp_main ::
  "nat list list \<Rightarrow> (nat \<Rightarrow> (int \<times> int) \<times> (int \<times> int)) \<Rightarrow> (nat \<Rightarrow> int) \<Rightarrow> string list \<Rightarrow> udp_outcome option res" where
  "udp_main windows clock reply argv =
     (let (os, ok) = getopt udp_options [] (tl argv) in
      rbind (set_options os \<lparr>ua_address = '''', ua_port = 0, ua_run_client = False, ua_run_server = False, ua_packet_size = 0\<rparr>)
      (\<lambda>a. if \<not> ok then Inr (Some (EXIT_FAILURE, None, None))
        else rbind (if ua_run_server a then server_program (ua_address a) (ua_port a) (ua_packet_size a) windows
                    else Inr (Some (EXIT_FAILURE, None))) (\<lambda>r.
          case r of None \<Rightarrow> Inr None
          | Some (rvalue, s) \<Rightarrow>
              if ua_run_client a then
                if ua_address a = '''' then Inr (Some (EXIT_FAILURE, s, None))
                else rbind (client_program (ua_address a) (ua_port a) (ua_packet_size a) clock reply) (\<lambda>(rvalue, c).
                  Inr (Some (rvalue, s, c)))
              else if \<not> ua_run_server a then Inr (Some (EXIT_FAILURE, s, None))
              else Inr (Some (rvalue, s, None)))))"

subsection \<open>udperf.c\<close>

definition PORT :: u16 where "PORT = 8888"
definition PKT_LEN :: nat where "PKT_LEN = 1458"

fun c_recv_burst :: "nat list \<Rightarrow> nat \<Rightarrow> nat \<times> nat list" where
  "c_recv_burst [] npkts = (npkts, [])"
| "c_recv_burst (d # ds) npkts = (if 0 < min d PKT_LEN then c_recv_burst ds (npkts + 1) else (npkts, ds))"

fun c_server_round :: "nat list list \<Rightarrow> nat list \<Rightarrow> nat \<Rightarrow> (nat \<times> nat list \<times> nat list list) option" where
  "c_server_round windows waiting npkts =
     (if npkts = MAX_PKTS then Some (npkts, waiting, windows)
      else case windows of
          [] \<Rightarrow> None
        | window # windows \<Rightarrow>
            if waiting @ window = [] then Some (npkts, [], windows)
            else case c_recv_burst (waiting @ window) npkts of (npkts, waiting) \<Rightarrow> c_server_round windows waiting npkts)"

declare c_server_round.simps [simp del]

fun c_server_rounds :: "nat \<Rightarrow> nat list list \<Rightarrow> nat list \<Rightarrow> nat list option" where
  "c_server_rounds 0 windows waiting = Some []"
| "c_server_rounds (Suc i) windows waiting =
     (case c_server_round windows waiting 0 of
        None \<Rightarrow> None
      | Some (npkts, waiting, windows) \<Rightarrow> map_option (\<lambda>counts. npkts # counts) (c_server_rounds i windows waiting))"

definition c_server :: "nat list list \<Rightarrow> (int \<times> server_run option) option" where
  "c_server windows = map_option (\<lambda>counts. (0, Some \<lparr>sr_udp = \<lparr>sin_port = PORT, sin_addr = INADDR_ANY\<rparr>,
     sr_tcp = \<lparr>sin_port = PORT + 1, sin_addr = INADDR_ANY\<rparr>, sr_counts = counts\<rparr>)) (c_server_rounds MAX_ROUNDS windows [])"

text \<open>The figures of a round; \<open>MAX_PKTS * PKT_LEN\<close> is a constant that fits an \<open>int\<close>.\<close>

definition c_client_round :: "int \<times> int \<Rightarrow> int \<times> int \<Rightarrow> int \<Rightarrow> figures" where
  "c_client_round start end pkts =
     (let runtime = floor (diff_ms start end); bytes = int MAX_PKTS * int PKT_LEN in
      (rate (of_int bytes * 8 / 1000 / 1000 / 1000) runtime, rate (of_int bytes * 8 / 1000 / 1000) runtime,
       bytes div 1000 div 1000, of_int pkts / of_nat MAX_PKTS * 100))"

text \<open>What \<open>inet_pton\<close> returns is not looked at: an address that it does not accept stays 0.0.0.0.\<close>

definition c_client :: "string option \<Rightarrow> (nat \<Rightarrow> (int \<times> int) \<times> (int \<times> int)) \<Rightarrow> (nat \<Rightarrow> int) \<Rightarrow> int \<times> client_run option" where
  "c_client server_addr clock reply =
     (case server_addr of
        None \<Rightarrow> (- 1, None)
      | Some address \<Rightarrow>
          let a = (case inet_pton address of None \<Rightarrow> [0, 0, 0, 0] | Some a \<Rightarrow> a);
              rounds = map (\<lambda>i. c_client_round (fst (clock i)) (snd (clock i)) (reply i)) [0..<MAX_ROUNDS] in
          (0, Some \<lparr>cr_udp = \<lparr>sin_port = PORT, sin_addr = a\<rparr>, cr_tcp = \<lparr>sin_port = PORT + 1, sin_addr = a\<rparr>, cr_figures = rounds,
             cr_average = map_option (\<lambda>t. t / of_nat MAX_ROUNDS) (foldl add_rate (Some 0) (map fst rounds))\<rparr>))"

definition c_options :: "char \<Rightarrow> bool option" where
  "c_options c = (if c = CHR ''s'' then Some False else if c = CHR ''a'' then Some True else None)"

text \<open>\<open>cvalue\<close> and \<open>srv\<close> after the options.\<close>

fun c_set_options :: "(char \<times> string) list \<Rightarrow> string option \<times> bool \<Rightarrow> string option \<times> bool" where
  "c_set_options [] a = a"
| "c_set_options ((c, optarg) # os) (cvalue, srv) =
     (if c = CHR ''a'' then c_set_options os (Some optarg, srv) else c_set_options os (cvalue, True))"

definition c_main ::
  "nat list list \<Rightarrow> (nat \<Rightarrow> (int \<times> int) \<times> (int \<times> int)) \<Rightarrow> (nat \<Rightarrow> int) \<Rightarrow> string list \<Rightarrow> udp_outcome option" where
  "c_main windows clock reply argv =
     (let (os, ok) = getopt c_options [] (tl argv); (cvalue, srv) = c_set_options os (None, False) in
      if \<not> ok then Some (- 1, None, None)
      else if srv then map_option (\<lambda>(rvalue, s). (rvalue, s, None)) (c_server windows)
      else case c_client cvalue clock reply of (rvalue, c) \<Rightarrow> Some (rvalue, None, c))"

subsection \<open>The two versions\<close>

lemma getopt_letters: "\<forall>e \<in> set (fst (getopt opts cs ws)). opts (fst e) \<noteq> None"
  by (induction opts cs ws rule: getopt.induct) (simp_all add: ex_bool_eq split: option.splits bool.splits list.splits)

lemma c_set_options_srv: "\<forall>e \<in> set os. c_options (fst e) \<noteq> None \<Longrightarrow>
    snd (c_set_options os (cvalue, srv)) \<longleftrightarrow> srv \<or> CHR ''s'' \<in> fst ` set os"
  by (induction os "(cvalue, srv)" arbitrary: cvalue srv rule: c_set_options.induct) (auto simp: c_options_def split: if_splits)

lemma c_set_options_cvalue: "CHR ''s'' \<notin> fst ` set os \<Longrightarrow> \<forall>e \<in> set os. c_options (fst e) \<noteq> None \<Longrightarrow>
    fst (c_set_options os (cvalue, srv)) = (if os = [] then cvalue else Some (snd (last os)))"
  by (induction os "(cvalue, srv)" arbitrary: cvalue srv rule: c_set_options.induct) (auto simp: c_options_def split: if_splits)

lemma c_recv_burst_same: "c_recv_burst ds npkts = recv_burst PKT_LEN ds npkts"
  by (induction ds arbitrary: npkts) simp_all

lemma c_server_round_same: "c_server_round windows waiting npkts = server_round PKT_LEN windows waiting npkts"
proof (induction windows arbitrary: waiting npkts)
  case Nil
  show ?case by (subst c_server_round.simps, subst server_round.simps) simp
next
  case (Cons window windows)
  show ?case
    by (subst c_server_round.simps, subst server_round.simps) (simp add: c_recv_burst_same Cons split: prod.splits)
qed

lemma c_server_rounds_same: "c_server_rounds i windows waiting = server_rounds PKT_LEN i windows waiting"
  by (induction i windows waiting rule: c_server_rounds.induct) (simp_all add: c_server_round_same split: option.splits)

text \<open>\<open>udperf.cc\<close> on its own command line.\<close>

definition udp_line :: "string \<Rightarrow> string \<Rightarrow> string \<Rightarrow> nat \<Rightarrow> nat \<Rightarrow> string list" where
  "udp_line prog end address port packet_size = [prog, end, address, ''-p'', show_nat port, ''-i'', show_nat packet_size]"

lemma show_nat_not_empty [simp]: "show_nat n \<noteq> ''''"
  using show_nat_digits by blast

lemma udp_main_server:
  assumes "port < 2 ^ 31" "len < 2 ^ 31"
  shows "udp_main windows clock reply (udp_line prog ''-s'' address port len)
    = rbind (server_program address (word_of_nat port) (int len) windows)
        (\<lambda>r. Inr (map_option (\<lambda>(rvalue, s). (rvalue, s, None)) r))"
  using assms
  by (auto simp: udp_main_def udp_line_def udp_options_def atoi_show_nat rbind_def split: sum.splits option.splits)

lemma udp_main_client:
  assumes "port < 2 ^ 31" "len < 2 ^ 31" "address \<noteq> ''''"
  shows "udp_main windows clock reply (udp_line prog ''-c'' address port len)
    = rbind (client_program address (word_of_nat port) (int len) clock reply) (\<lambda>(rvalue, c). Inr (Some (rvalue, None, c)))"
  using assms
  by (auto simp: udp_main_def udp_line_def udp_options_def atoi_show_nat rbind_def split: sum.splits option.splits)

lemma inet_pton_any: "inet_pton ''0.0.0.0'' = Some INADDR_ANY"
proof -
  have "show_nat 0 = ''0''" by (subst show_nat.simps) (simp add: digit_def char_of_def bit_0)
  moreover have "read_digits 0 ''0'' = 0" by (simp add: is_digit_def digit_value_def)
  ultimately show ?thesis by (simp add: inet_pton_def octet_def INADDR_ANY_def numeral_eq_Suc)
qed

lemma inet_pton_empty: "inet_pton '''' = None"
  by (simp add: inet_pton_def)

text \<open>The rounds of the client, when the number of bytes fits.\<close>

definition round_figures :: "int \<Rightarrow> (nat \<Rightarrow> (int \<times> int) \<times> (int \<times> int)) \<Rightarrow> (nat \<Rightarrow> int) \<Rightarrow> nat \<Rightarrow> figures" where
  "round_figures packet_size clock reply i =
     (let runtime = floor (diff_ms (fst (clock i)) (snd (clock i))); bytes = int MAX_PKTS * packet_size in
      (rate (of_int bytes * 8 / 1000 / 1000 / 1000) runtime, rate (of_int bytes * 8 / 1000 / 1000) runtime,
       bytes div 1000 div 1000, of_int (reply i) / of_nat MAX_PKTS * 100))"

lemma client_round_figures:
  "of_option Int_Overflow (client_round p (fst (clock i)) (snd (clock i)) (reply i))
    = (if p \<le> 6135 \<and> - 6136 < p then Inr (round_figures p clock reply i) else Inl Int_Overflow)"
  by (auto simp: client_round_def client_bytes_def round_figures_def Let_def MAX_PKTS_def)

lemma client_program_runs:
  assumes "inet_pton address = Some a" "0 < p"
  shows "client_program address port p clock reply =
    (if p \<le> 6135 then
       let rounds = map (round_figures p clock reply) [0..<MAX_ROUNDS] in
       Inr (EXIT_SUCCESS, Some \<lparr>cr_udp = \<lparr>sin_port = port, sin_addr = a\<rparr>, cr_tcp = \<lparr>sin_port = port + 1, sin_addr = a\<rparr>,
         cr_figures = rounds, cr_average = map_option (\<lambda>t. t / of_nat MAX_ROUNDS) (foldl add_rate (Some 0) (map fst rounds))\<rparr>)
     else Inl Int_Overflow)"
proof (cases "p \<le> 6135")
  case True
  then have "run_all (\<lambda>i. of_option Int_Overflow (client_round p (fst (clock i)) (snd (clock i)) (reply i))) [0..<MAX_ROUNDS]
      = Inr (map (round_figures p clock reply) [0..<MAX_ROUNDS])"
    using assms(2) by (intro run_all_Inr) (simp add: client_round_figures)
  then show ?thesis using True assms by (simp add: client_program_def Let_def)
next
  case False
  moreover have "[0..<MAX_ROUNDS] = 0 # [1..<MAX_ROUNDS]" by (simp add: MAX_ROUNDS_def upt_conv_Cons)
  ultimately show ?thesis using assms by (simp add: client_program_def client_round_figures)
qed

text \<open>
  C23: the older program. Whatever its command line, \<open>udperf.c\<close> does what \<open>udperf.cc\<close> does with port 8888 and packets of 1458 bytes: with
  the option \<open>-s\<close> it serves on all addresses, and otherwise it is a client of the last address that was given;
  except that an address that is none stands for 0.0.0.0, where \<open>udperf.cc\<close> ends with a failure status. Without
  an option, or after one it does not know, it ends with status -1.
\<close>

theorem udperf_c_equivalent:
  "Inr (c_main windows clock reply argv) =
     (case getopt c_options [] (tl argv) of (os, ok) \<Rightarrow>
        if ok \<and> CHR ''s'' \<in> fst ` set os then udp_main windows clock reply (udp_line prog ''-s'' ''0.0.0.0'' 8888 1458)
        else if ok \<and> os \<noteq> [] then
          udp_main windows clock reply
            (udp_line prog ''-c'' (if inet_pton (snd (last os)) = None then ''0.0.0.0'' else snd (last os)) 8888 1458)
        else Inr (Some (- 1, None, None)))"
proof -
  obtain os ok where os: "getopt c_options [] (tl argv) = (os, ok)" by fastforce
  have letters: "\<forall>e \<in> set os. c_options (fst e) \<noteq> None" using getopt_letters [of c_options "[]" "tl argv"] os by simp
  obtain cvalue srv where c: "c_set_options os (None, False) = (cvalue, srv)" by fastforce
  have srv: "srv \<longleftrightarrow> CHR ''s'' \<in> fst ` set os" using c_set_options_srv [OF letters, of None False] c by simp
  have cvalue: "\<not> srv \<Longrightarrow> cvalue = (if os = [] then None else Some (snd (last os)))"
    using c_set_options_cvalue [OF _ letters, of None False] c srv by simp
  have server: "udp_main windows clock reply (udp_line prog ''-s'' ''0.0.0.0'' 8888 1458)
      = Inr (map_option (\<lambda>(rvalue, s). (rvalue, s, None)) (c_server windows))"
    by (simp add: udp_main_server server_program_def c_server_def c_server_rounds_same server_def PKT_LEN_def PORT_def
        EXIT_SUCCESS_def map_option.compositionality o_def)
  have client: "udp_main windows clock reply (udp_line prog ''-c'' (if inet_pton x = None then ''0.0.0.0'' else x) 8888 1458)
      = (case c_client (Some x) clock reply of (rvalue, c) \<Rightarrow> Inr (Some (rvalue, None, c)))" for x
  proof -
    let ?x = "if inet_pton x = None then ''0.0.0.0'' else x"
    have a: "inet_pton ?x = Some (case inet_pton x of None \<Rightarrow> [0, 0, 0, 0] | Some a \<Rightarrow> a)"
      using inet_pton_any by (auto simp: INADDR_ANY_def)
    have "?x \<noteq> ''''" using inet_pton_empty by auto
    moreover have "round_figures 1458 clock reply = (\<lambda>i. c_client_round (fst (clock i)) (snd (clock i)) (reply i))"
      by (simp add: round_figures_def c_client_round_def PKT_LEN_def fun_eq_iff)
    ultimately show ?thesis
      using a by (simp add: udp_main_client client_program_runs c_client_def EXIT_SUCCESS_def PORT_def Let_def)
  qed
  show ?thesis
    using os c srv cvalue server client [of "snd (last os)"]
    by (auto simp: c_main_def c_client_def split: prod.splits)
qed

subsection \<open>Server and client together\<close>

text \<open>What the server finds waiting in a round: the bursts, and then a timeout if packets are missing.\<close>

definition round_windows :: "nat list list \<Rightarrow> nat list list" where
  "round_windows ws = ws @ (if length (concat ws) = MAX_PKTS then [] else [[]])"

lemma server_round_windows:
  assumes "\<forall>w \<in> set ws. w \<noteq> [] \<and> (\<forall>d \<in> set w. 0 < d)" and "0 < packet_size" and "length (concat ws) \<le> MAX_PKTS"
  shows "server_round packet_size (round_windows ws @ rest) [] 0 = Some (length (concat ws), [], rest)"
proof (cases "length (concat ws) = MAX_PKTS")
  case False
  then show ?thesis using server_round_counts [OF assms(1,2), of 0 rest] assms(3) by (simp add: round_windows_def)
next
  case True
  have "server_round packet_size (ws @ rest) [] npkts = Some (npkts + length (concat ws), [], rest)"
    if "npkts + length (concat ws) = MAX_PKTS" for npkts
    using assms(1) that
  proof (induction ws arbitrary: npkts)
    case (Cons w ws)
    then have "0 < length w" by simp
    then have "npkts \<noteq> MAX_PKTS" using Cons.prems(2) by auto
    then show ?case using Cons.IH [of "npkts + length w"] Cons.prems assms(2) by (simp add: server_round_step add.assoc)
  qed simp
  from this [of 0] show ?thesis using True by (simp add: round_windows_def)
qed

lemma server_rounds_windows:
  assumes "\<forall>ws \<in> set wss. length (concat ws) \<le> MAX_PKTS \<and> (\<forall>w \<in> set ws. w \<noteq> [] \<and> (\<forall>d \<in> set w. 0 < d))" and "0 < packet_size"
  shows "server_rounds packet_size (length wss) (concat (map round_windows wss)) [] = Some (map (length \<circ> concat) wss)"
  using assms(1)
proof (induction wss)
  case (Cons ws wss)
  then show ?case using server_round_windows [of ws packet_size "concat (map round_windows wss)"] assms(2) by simp
qed simp

text \<open>
  C39: the UDP benchmark, program against program. Start a server and a client with the same address, port and packet size. The client sends
  its packets to the socket the server is bound to, and connects to the one it listens on, also at port 65535. Whatever part of the 350000
  packets of each round arrives, in bursts less than two seconds apart, the server counts exactly these; and the client, which is told the
  counts, reports for each round the megabytes it sent and the percentage that arrived, between 0 and 100. That
  holds for packets of at most 6135 bytes; for larger ones the number of bytes overflows an \<open>int\<close>. The average
  that is printed as goodput does not depend on what arrived.
\<close>

theorem udperf_programs:
  assumes "inet_pton address \<noteq> None" and "port < 65536" and "0 < len" "len < 2 ^ 31" and "length wss = 10"
    and "\<forall>ws \<in> set wss. length (concat ws) \<le> 350000 \<and> (\<forall>w \<in> set ws. w \<noteq> [] \<and> (\<forall>d \<in> set w. d = len))"
    and windows: "windows = concat (map round_windows wss)" and reply: "reply = (\<lambda>i. int (length (concat (wss ! i))))"
  shows "\<exists>s. udp_main windows clock reply (udp_line prog ''-s'' address port len) = Inr (Some (EXIT_SUCCESS, Some s, None))
    \<and> sr_counts s = map (length \<circ> concat) wss
    \<and> (if 6135 < len then udp_main windows clock reply (udp_line prog ''-c'' address port len) = Inl Int_Overflow
       else \<exists>c. udp_main windows clock reply (udp_line prog ''-c'' address port len) = Inr (Some (EXIT_SUCCESS, None, Some c))
         \<and> cr_udp c = sr_udp s \<and> cr_tcp c = sr_tcp s \<and> length (cr_figures c) = 10
         \<and> (\<forall>i < 10. case cr_figures c ! i of (gbps, mbps, mb, percent) \<Rightarrow>
              mb = int (350000 * len div 1000000) \<and> percent * 3500 = of_nat (sr_counts s ! i) \<and> 0 \<le> percent \<and> percent \<le> 100)
         \<and> (\<exists>c'. udp_main windows clock (\<lambda>_. 0) (udp_line prog ''-c'' address port len) = Inr (Some (EXIT_SUCCESS, None, Some c'))
              \<and> cr_average c' = cr_average c))"
proof -
  obtain a where a: "inet_pton address = Some a" using assms(1) by blast
  have any: "(if address = ''0.0.0.0'' then Some INADDR_ANY else inet_pton address) = Some a" using a inet_pton_any by auto
  have port: "port < 2 ^ 31" using assms(2) by simp
  have "address \<noteq> ''''" using a inet_pton_empty by auto
  note client = udp_main_client [OF port assms(4) this] and server = udp_main_server [OF port assms(4)]
  have pos: "\<forall>ws \<in> set wss. \<forall>w \<in> set ws. \<forall>d \<in> set w. 0 < d" using assms(3,6) by metis
  have counts: "server len windows = Some (map (length \<circ> concat) wss)"
    using server_rounds_windows [of wss len] pos assms(3,5,6) by (simp add: server_def windows MAX_ROUNDS_def MAX_PKTS_def)
  have averages: "fst \<circ> round_figures (int len) clock (\<lambda>_. 0) = fst \<circ> round_figures (int len) clock reply"
    by (simp add: round_figures_def Let_def fun_eq_iff)
  have figures: "case round_figures (int len) clock reply i of (gbps, mbps, mb, percent) \<Rightarrow>
      mb = int (350000 * len div 1000000) \<and> percent * 3500 = of_nat (length (concat (wss ! i))) \<and> 0 \<le> percent \<and> percent \<le> 100"
    if "i < 10" for i
  proof -
    have "length (concat (wss ! i)) \<le> 350000" using assms(5,6) that nth_mem [of i wss] by metis
    then show ?thesis by (simp add: round_figures_def MAX_PKTS_def reply Let_def zdiv_int divide_le_eq)
  qed
  show ?thesis
    using any counts a averages figures assms(3,5)
    by (auto simp: server client server_program_def client_program_runs Let_def MAX_ROUNDS_def simp del: upt_rec_numeral)
qed

theorem udperf_programs_witness:
  "\<exists>s. udp_main (concat (map round_windows (replicate 10 [[1400, 1400], [1400]]))) (\<lambda>i. ((int i, 0), (int i + 1, 500)))
      (\<lambda>i. int (length (concat (replicate 10 [[1400, 1400], [1400 :: nat]] ! i)))) (udp_line ''udperf'' ''-s'' ''0.0.0.0'' 65535 1400)
      = Inr (Some (EXIT_SUCCESS, Some s, None))
    \<and> sr_counts s = map (length \<circ> concat) (replicate 10 [[1400, 1400], [1400 :: nat]])
    \<and> (if 6135 < (1400 :: nat) then udp_main (concat (map round_windows (replicate 10 [[1400, 1400], [1400]]))) (\<lambda>i. ((int i, 0), (int i + 1, 500)))
        (\<lambda>i. int (length (concat (replicate 10 [[1400, 1400], [1400 :: nat]] ! i)))) (udp_line ''udperf'' ''-c'' ''0.0.0.0'' 65535 1400)
        = Inl Int_Overflow
       else \<exists>c. udp_main (concat (map round_windows (replicate 10 [[1400, 1400], [1400]]))) (\<lambda>i. ((int i, 0), (int i + 1, 500)))
          (\<lambda>i. int (length (concat (replicate 10 [[1400, 1400], [1400 :: nat]] ! i)))) (udp_line ''udperf'' ''-c'' ''0.0.0.0'' 65535 1400)
          = Inr (Some (EXIT_SUCCESS, None, Some c))
         \<and> cr_udp c = sr_udp s \<and> cr_tcp c = sr_tcp s \<and> length (cr_figures c) = 10
         \<and> (\<forall>i < 10. case cr_figures c ! i of (gbps, mbps, mb, percent) \<Rightarrow>
              mb = int (350000 * 1400 div 1000000) \<and> percent * 3500 = of_nat (sr_counts s ! i) \<and> 0 \<le> percent \<and> percent \<le> 100)
         \<and> (\<exists>c'. udp_main (concat (map round_windows (replicate 10 [[1400, 1400], [1400]]))) (\<lambda>i. ((int i, 0), (int i + 1, 500)))
              (\<lambda>_. 0) (udp_line ''udperf'' ''-c'' ''0.0.0.0'' 65535 1400) = Inr (Some (EXIT_SUCCESS, None, Some c'))
              \<and> cr_average c' = cr_average c))"
  by (rule udperf_programs) (auto simp: inet_pton_any)

end
