(* ===== verification/Live_Objects.thy ===== *)
theory Live_Objects
  imports Live_Programs Framed_Source Udperf_Programs
begin

section \<open>The live555 objects\<close>

text \<open>
  What the classes in \<open>live555/\<close> and \<open>util/live555_util.cc\<close> do beside delivering frames: constructors and destructors with the static members
  of a class, the event triggers they ask the scheduler for, the buffers of the sinks, and how a sink asks for the next frame.
  The scheduler and its state are parameters.
\<close>

subsection \<open>The sources\<close>

record 'w scheduler =
  sch_createEventTrigger :: "'w \<Rightarrow> nat \<times> 'w"
  sch_deleteEventTrigger :: "nat \<Rightarrow> 'w \<Rightarrow> 'w"

text \<open>The static members of a class of sources, and the static \<open>period\<close> of its file.\<close>

record source_class =
  sc_eventTriggerId :: nat
  sc_referenceCount :: u32
  sc_period :: u64

definition source_class_init :: source_class where
  "source_class_init = \<lparr>sc_eventTriggerId = 0, sc_referenceCount = 0, sc_period = 0\<rparr>"

text \<open>
  The constructors. That of \<open>live555/source.cc\<close> computes the period from \<open>fps\<close> in \<open>float\<close>, that of \<open>latency_sender.cc\<close> from 30, and that of
  \<open>latency_receiver.cc\<close> from \<open>fps\<close> in unsigned integers.
\<close>

definition register_source :: "'w scheduler \<Rightarrow> u64 \<Rightarrow> source_class \<times> 'w \<Rightarrow> source_class \<times> 'w" where
  "register_source sch period = (\<lambda>(c, w).
     let c = c\<lparr>sc_period := period\<rparr> in
     if sc_eventTriggerId c = 0
     then let (i, w) = sch_createEventTrigger sch w in (c\<lparr>sc_eventTriggerId := i\<rparr>, w)
     else (c, w))"

definition file_source_new :: "'w scheduler \<Rightarrow> (int \<Rightarrow> u64) \<Rightarrow> int \<Rightarrow> source_class \<times> 'w \<Rightarrow> source_class \<times> 'w" where
  "file_source_new sch period_of fps = register_source sch (period_of fps)"

text \<open>\<open>(1000 / (float)30) * 1000\<close> as an integer.\<close>

definition lat_period :: u64 where
  "lat_period = 33333"

definition latency_source_new :: "'w scheduler \<Rightarrow> source_class \<times> 'w \<Rightarrow> source_class \<times> 'w" where
  "latency_source_new sch = register_source sch lat_period"

definition echo_source_new :: "'w scheduler \<Rightarrow> u32 \<Rightarrow> source_class \<times> 'w \<Rightarrow> (source_class \<times> 'w) res" where
  "echo_source_new sch fps s =
     (if fps = 0 then Inl Div_By_Zero else Inr (register_source sch (ucast ((1000 div fps) * 1000)) s))"

text \<open>The destructor, the same in the three files.\<close>

definition source_delete :: "'w scheduler \<Rightarrow> source_class \<times> 'w \<Rightarrow> source_class \<times> 'w" where
  "source_delete sch = (\<lambda>(c, w).
     let c = c\<lparr>sc_referenceCount := sc_referenceCount c - 1\<rparr> in
     if sc_referenceCount c = 0
     then (c\<lparr>sc_eventTriggerId := 0\<rparr>, sch_deleteEventTrigger sch (sc_eventTriggerId c) w)
     else (c, w))"

datatype lifetime = New u64 | Delete

definition live_and_die :: "'w scheduler \<Rightarrow> lifetime \<Rightarrow> source_class \<times> 'w \<Rightarrow> source_class \<times> 'w" where
  "live_and_die sch e = (case e of New period \<Rightarrow> register_source sch period | Delete \<Rightarrow> source_delete sch)"

definition deletions :: "lifetime list \<Rightarrow> nat" where
  "deletions es = length (filter (\<lambda>e. e = Delete) es)"

text \<open>
  No constructor counts its instance: the counter starts at zero and only falls. Whatever is created and deleted, up to \<open>2^32 - 1\<close> deletions, there is one
  trigger, that of the first instance, and it is never deleted, not even with the last instance.
\<close>

lemma event_trigger_kept:
  assumes created: "sch_createEventTrigger sch w = (i, w')" "i \<noteq> 0" and few: "deletions es < 2 ^ 32"
  shows "\<exists>c. fold (live_and_die sch) (New period # es) (source_class_init, w) = (c, w')
    \<and> sc_eventTriggerId c = i \<and> sc_referenceCount c = - word_of_nat (deletions es)"
  using few
proof (induction es rule: rev_induct)
  case Nil
  show ?case using created by (simp add: live_and_die_def register_source_def source_class_init_def deletions_def Let_def)
next
  case (snoc e es)
  then obtain c where c: "fold (live_and_die sch) (New period # es) (source_class_init, w) = (c, w')"
    "sc_eventTriggerId c = i" "sc_referenceCount c = - word_of_nat (deletions es)"
    by (force simp: deletions_def split: if_splits)
  have last: "fold (live_and_die sch) (New period # (es @ [e])) (source_class_init, w) = live_and_die sch e (c, w')"
    using c(1) by (simp del: fold_simps add: fold_append flip: append_Cons)
  show ?case
  proof (cases e)
    case (New p)
    have "live_and_die sch e (c, w') = (c\<lparr>sc_period := p\<rparr>, w')"
      using c(2) created(2) by (simp add: New live_and_die_def register_source_def Let_def)
    then show ?thesis using c(2,3) unfolding last by (simp add: New deletions_def)
  next
    case Delete
    have d: "deletions (es @ [e]) = deletions es + 1" by (simp add: deletions_def Delete)
    have "unat (word_of_nat (deletions es + 1) :: u32) = deletions es + 1"
      using snoc.prems d by (simp add: unsigned_of_nat take_bit_nat_eq_self del: of_nat_add of_nat_Suc)
    then have "(word_of_nat (deletions es + 1) :: u32) \<noteq> 0" by (metis add_eq_0_iff_both_eq_0 one_neq_zero unat_0)
    then have "- word_of_nat (deletions es + 1) \<noteq> (0 :: u32)" by (metis neg_equal_0_iff_equal)
    moreover have down: "sc_referenceCount c - 1 = - word_of_nat (deletions es + 1)" using c(3) by simp
    ultimately have "sc_referenceCount c - 1 \<noteq> 0" by metis
    then have "live_and_die sch e (c, w') = (c\<lparr>sc_referenceCount := sc_referenceCount c - 1\<rparr>, w')"
      by (simp add: Delete live_and_die_def source_delete_def Let_def)
    then show ?thesis using c(2) unfolding last d down by simp
  qed
qed

subsection \<open>The sinks\<close>

text \<open>
  Whether the sink has a source, the size of its buffer if it is allocated, and how many frames it has asked for. \<open>buffer_size\<close> is 1600000 in \<open>sink.cc\<close>
  and 40000000 in the latency programs.
\<close>

record media_sink =
  mk_fSource :: bool
  mk_fReceiveBuffer :: "nat option"
  mk_requests :: nat

definition media_sink_new :: "nat \<Rightarrow> media_sink" where
  "media_sink_new buffer_size = \<lparr>mk_fSource = False, mk_fReceiveBuffer = Some buffer_size, mk_requests = 0\<rparr>"

definition continuePlaying :: "media_sink \<Rightarrow> bool \<times> media_sink" where
  "continuePlaying k = (if \<not> mk_fSource k then (False, k) else (True, k\<lparr>mk_requests := mk_requests k + 1\<rparr>))"

text \<open>\<open>uninit\<close>, with \<open>stopPlaying\<close> of the library as a parameter. The destructor frees nothing.\<close>

definition media_sink_uninit :: "(media_sink \<Rightarrow> media_sink) \<Rightarrow> media_sink \<Rightarrow> media_sink res" where
  "media_sink_uninit stopPlaying k =
     (let k = stopPlaying k in
      if mk_fReceiveBuffer k = None then Inl Bad_Pointer else Inr (k\<lparr>mk_fReceiveBuffer := None\<rparr>))"

text \<open>The static \<open>afterGettingFrame\<close> of \<open>sink.cc\<close>: the frame is counted, and unless that ended the program, the next one asked for.\<close>

definition sink_frame :: "nat \<Rightarrow> sink_state \<times> media_sink \<Rightarrow> sink_state \<times> media_sink" where
  "sink_frame frameSize = (\<lambda>(s, k).
     let s = sink_afterGettingFrame frameSize s in
     (s, if sk_printed s = None then snd (continuePlaying k) else k))"

text \<open>A sink that has been given a source has always asked for one frame more than it has got, up to the last one.\<close>

lemma one_request_ahead:
  assumes "length ns < 601"
  shows "fold sink_frame ns (sink_init, snd (continuePlaying ((media_sink_new buffer_size)\<lparr>mk_fSource := True\<rparr>)))
    = (sink_run ns sink_init, \<lparr>mk_fSource = True, mk_fReceiveBuffer = Some buffer_size, mk_requests = length ns + 1\<rparr>)
    \<and> sk_frames (sink_run ns sink_init) = length ns \<and> sk_printed (sink_run ns sink_init) = None"
  using assms
proof (induction ns rule: rev_induct)
  case Nil
  show ?case by (simp add: continuePlaying_def media_sink_new_def sink_init_def)
next
  case (snoc n ns)
  have run: "sink_run (ns @ [n]) s = (if sk_printed (sink_run ns s) = None then sink_afterGettingFrame n (sink_run ns s) else sink_run ns s)" for s
    by (induction ns arbitrary: s) (auto simp del: not_None_eq)
  have "sk_printed (sink_run (ns @ [n]) sink_init) = None" "sk_frames (sink_run (ns @ [n]) sink_init) = length (ns @ [n])"
    using sink_run_counts [of sink_init "ns @ [n]"] snoc.prems by (simp_all add: sink_init_def)
  then show ?case
    using snoc run [of sink_init] by (simp add: sink_frame_def continuePlaying_def Let_def)
qed

subsection \<open>util/live555_util.cc\<close>

text \<open>\<open>doGetNextFrame\<close> of \<open>FramedSourceCustom\<close>; nothing happens unless somebody waits for data.\<close>

definition framed_doGetNextFrame :: "u8 list \<Rightarrow> nat \<Rightarrow> bool \<Rightarrow> framed \<Rightarrow> (framed_outcome option \<times> framed) res" where
  "framed_doGetNextFrame mem fMaxSize awaiting s =
     (if awaiting then rbind (sendFrame mem fMaxSize s) (\<lambda>(out, s). Inr (Some out, s)) else Inr (None, s))"

text \<open>
  \<open>createConnection\<close>: the group socket has the address of the session, any port, and sends to the given address and port. \<open>inet_pton\<close> leaves
  its result alone on an invalid address: \<open>stack\<close> is what was there.
\<close>

record connection =
  cn_rtpPort :: u16
  cn_group :: "u8 list"
  cn_source_filter :: "u8 list"
  cn_destination :: "u8 list \<times> u16 \<times> nat"

definition createConnection :: "u8 list \<times> u8 list \<Rightarrow> string \<Rightarrow> string \<Rightarrow> u16 \<Rightarrow> connection" where
  "createConnection stack sess_addr ip_addr portNum =
     (let addr = case_option (fst stack) id (inet_pton ip_addr); sess = case_option (snd stack) id (inet_pton sess_addr) in
      \<lparr>cn_rtpPort = 0, cn_group = sess, cn_source_filter = addr, cn_destination = (addr, portNum, 255)\<rparr>)"

lemma createConnection_valid:
  assumes "inet_pton ip_addr = Some a" and "inet_pton sess_addr = Some g"
  shows "createConnection stack sess_addr ip_addr portNum
    = \<lparr>cn_rtpPort = 0, cn_group = g, cn_source_filter = a, cn_destination = (a, portNum, 255)\<rparr>"
  using assms by (simp add: createConnection_def)

end
