(* ===== verification/Live_Latency_Test.thy ===== *)
theory Live_Latency_Test
  imports Live_Objects Latency_Programs
begin

section \<open>The live555 latency test\<close>

text \<open>
  Both programs of the live555 latency test, \<open>live555/latency_sender.cc\<close> and \<open>live555/latency_receiver.cc\<close>, from their command lines.
  Each is an event loop with a source and a sink, and a monitoring thread that ends the program when no frame comes. The events are
  inputs of the model, in the order in which the loop handles them; after the program has ended nothing happens any more.
\<close>

subsection \<open>live555/latency_sender.cc\<close>

text \<open>
  The sending chain asks the source for data, a frame comes back, time passes, or five seconds of the monitoring
  thread are over.
\<close>

datatype lat_input = Asks | Comes "u8 list" | Waits nat | Five_Seconds

record lat_program =
  lp_source :: lat_source
  lp_monitored :: bool
  lp_prev_frames :: u32
  lp_exit :: "int option"

definition lat_program_init :: lat_program where
  "lat_program_init = \<lparr>lp_source = lat_init, lp_monitored = False, lp_prev_frames = - 1, lp_exit = None\<rparr>"

fun exit_status :: "lat_outcome \<Rightarrow> int option" where
  "exit_status Exit_Failure = Some EXIT_FAILURE"
| "exit_status Exit_Success = Some EXIT_SUCCESS"
| "exit_status _ = None"

definition passes :: "nat \<Rightarrow> lat_source \<Rightarrow> lat_source" where
  "passes t s = s\<lparr>la_world := (la_world s)\<lparr>w_now := w_now (la_world s) + t\<rparr>\<rparr>"

text \<open>The input is mapped at the first request.\<close>

definition lat_event ::
  "env \<Rightarrow> nat \<Rightarrow> memory \<Rightarrow> u64 \<Rightarrow> u32 \<Rightarrow> lat_input \<Rightarrow> lat_program \<Rightarrow> lat_program res" where
  "lat_event env base mem period fMaxSize e p =
     (if lp_exit p \<noteq> None then Inr p
      else case e of
          Asks \<Rightarrow>
            if mem = Null then Inl Bad_Pointer
            else rbind (lat_doGetNextFrame env base (reachable mem) period fMaxSize True (lp_source p)) (\<lambda>(out, s).
              Inr (p\<lparr>lp_source := s, lp_exit := exit_status out\<rparr>))
        | Comes x \<Rightarrow> rbind (lat_afterGettingFrame x (length x) (lp_source p)) (\<lambda>(out, s).
              Inr (p\<lparr>lp_source := s, lp_monitored := True, lp_exit := exit_status out\<rparr>))
        | Waits t \<Rightarrow> Inr (p\<lparr>lp_source := passes t (lp_source p)\<rparr>)
        | Five_Seconds \<Rightarrow>
            Inr (if \<not> lp_monitored p then p
                 else if unat (lp_prev_frames p) = la_frames (lp_source p) then p\<lparr>lp_exit := Some EXIT_FAILURE\<rparr>
                 else p\<lparr>lp_prev_frames := word_of_nat (la_frames (lp_source p))\<rparr>))"

text \<open>The exit status with the sockets and the final state; the inner \<open>None\<close> while the program runs.\<close>

definition live_latency_sender_main ::
  "env \<Rightarrow> nat \<Rightarrow> u32 \<Rightarrow> lat_input list \<Rightarrow> string list \<Rightarrow> disk \<Rightarrow> (int \<times> (live_setup \<times> lat_program) option) option res" where
  "live_latency_sender_main env base fMaxSize events argv d =
     rbind (live_latency_sender_setup argv) (\<lambda>r.
     case r of
       None \<Rightarrow> Inr (Some (EXIT_FAILURE, None))
     | Some socks \<Rightarrow> let (mem, len) = get_mem (argv ! 1) 0 d in
         rbind (run_hook (lat_event env base mem lat_period fMaxSize) events lat_program_init) (\<lambda>p.
         Inr (map_option (\<lambda>status. (status, Some (socks, p))) (lp_exit p))))"

subsection \<open>live555/latency_receiver.cc\<close>

record echo_program =
  ep_source :: echo_source
  ep_prev_frames :: u32
  ep_exit :: "int option"

definition echo_program_init :: echo_program where
  "echo_program_init = \<lparr>ep_source = echo_source_init, ep_prev_frames = - 1, ep_exit = None\<rparr>"

text \<open>An event of the loop, or \<open>None\<close> when two seconds of the monitoring thread are over, which the first frame starts.\<close>

definition echo_program_event :: "nat \<Rightarrow> echo_input option \<Rightarrow> echo_program \<Rightarrow> echo_program res" where
  "echo_program_event fMaxSize e p =
     (if ep_exit p \<noteq> None then Inr p
      else case e of
          Some e \<Rightarrow> rbind (echo_event fMaxSize e (ep_source p)) (\<lambda>s.
            Inr (p\<lparr>ep_source := s, ep_exit := (if es_exit s then Some EXIT_SUCCESS else None)\<rparr>))
        | None \<Rightarrow>
            Inr (if es_frames (ep_source p) = 0 then p
                 else if unat (ep_prev_frames p) = es_frames (ep_source p) then p\<lparr>ep_exit := Some EXIT_FAILURE\<rparr>
                 else p\<lparr>ep_prev_frames := word_of_nat (es_frames (ep_source p))\<rparr>))"

definition live_latency_receiver_main ::
  "nat \<Rightarrow> echo_input option list \<Rightarrow> string list \<Rightarrow> (int \<times> (live_setup \<times> echo_program) option) option res" where
  "live_latency_receiver_main fMaxSize events argv =
     rbind (live_latency_receiver_setup argv) (\<lambda>r.
     case r of
       None \<Rightarrow> Inr (Some (EXIT_FAILURE, None))
     | Some socks \<Rightarrow>
         rbind (run_hook (echo_program_event fMaxSize) events echo_program_init) (\<lambda>p.
         Inr (map_option (\<lambda>status. (status, Some (socks, p))) (ep_exit p))))"

subsection \<open>One frame there and back\<close>

text \<open>
  After the NAL units \<open>done\<close> have been sent and come back, with the latencies and types \<open>ms\<close>: the cursor stands behind them, no frame is
  under way, and the counters are those of \<open>ms\<close>.
\<close>

definition lat_after :: "u8 list list \<Rightarrow> (nat \<times> u8) list \<Rightarrow> nat \<Rightarrow> lat_source \<Rightarrow> bool" where
  "lat_after done ms pos s \<longleftrightarrow>
     nc_open (la_cursor s) \<and> nc_start (la_cursor s) = pos \<and> la_timestamps s = Map.empty
     \<and> pushed (la_world s) = done \<and> length ms = length done \<and> la_frames s = length ms
     \<and> (la_nintras s, la_intra_total s) = total_of 19 ms \<and> (la_ninters s, la_inter_total s) = total_of 1 ms
     \<and> la_frame_total s = la_intra_total s + la_inter_total s"

lemma lat_sends:
  assumes after: "lat_after done ms (length pre) s"
    and data: "data = pre @ annexb ((long, nal) # ps)" and nal: "nal_ok nal" and ps: "\<forall>x \<in> set ps. nal_ok (snd x)"
    and small: "length nal \<le> unat fMaxSize"
  shows "\<exists>s' t. lat_doGetNextFrame env base data period fMaxSize True s = Inr (Sent, s')
    \<and> nc_open (la_cursor s') \<and> nc_start (la_cursor s') = length (pre @ start_code long @ nal)
    \<and> la_timestamps s' = [length nal \<mapsto> (t, length nal)]
    \<and> pushed (la_world s') = done @ [nal] \<and> w_now (la_world s') = t + e_cost env (length done)
    \<and> la_frames s' = la_frames s \<and> la_nintras s' = la_nintras s \<and> la_intra_total s' = la_intra_total s
    \<and> la_ninters s' = la_ninters s \<and> la_inter_total s' = la_inter_total s \<and> la_frame_total s' = la_frame_total s"
proof -
  let ?s = "if \<not> la_initialized s then s\<lparr>la_initialized := True\<rparr> else s"
  let ?w = "pace env period (la_current s) (la_world s)"
  have pos: "length nal \<noteq> 0" using nal by (simp add: nal_ok_def)
  have n: "unat (word_of_nat (length nal) :: u32) = length nal"
    using small unat_u32_less [of fMaxSize] by (simp add: unsigned_of_nat take_bit_nat_eq_self)
  have not: "\<not> fMaxSize < word_of_nat (length nal)" using small by (simp add: word_less_nat_alt n)
  obtain c where c: "latency_find_next_nal base data (la_cursor s) = Inr (Some (length nal, length pre + length (start_code long)), c)"
    "nc_open c" "nc_start c = length (pre @ start_code long @ nal)"
    using ff_avc.next_nal_step [OF nal ps, of "la_cursor s" pre base 4 long] after
    by (auto simp: data latency_find_next_nal_def lat_after_def)
  have cut: "take (length nal) (drop (length pre + length (start_code long)) data) = nal" by (simp add: data)
  have len: "length (w_log (la_world s)) = length done" using after length_pushed [of "la_world s"] by (simp add: lat_after_def)
  have "length pre + length (start_code long) + length nal \<le> length data" by (simp add: data)
  from push_frame_ok [OF this, of env ?w length 0]
  obtain ok w' where w': "push_frame env data (length pre + length (start_code long)) (length nal) ?w = Inr (ok, w')"
    "pushed w' = done @ [nal]" "w_now w' = w_now ?w + e_cost env (length done)"
    unfolding cut pace_log len using after by (auto simp: lat_after_def)
  define s' where "s' = ?s\<lparr>la_cursor := c, la_current := (if 1500 < length nal then la_current s + 1 else la_current s),
    la_timestamps := [length nal \<mapsto> (w_now ?w, length nal)], la_world := w'\<rparr>"
  have "lat_doGetNextFrame env base data period fMaxSize True s = Inr (Sent, s')"
    using after c(1) w'(1) not n pos
    by (simp add: lat_doGetNextFrame_def lat_deliverFrame_def Let_def s'_def lat_after_def)
  then show ?thesis
    using c(2,3) w'(2,3) by (intro exI [of _ s'] exI [of _ "w_now ?w"]) (simp add: s'_def)
qed

lemma lat_returns:
  assumes ts: "la_timestamps s = [length nal \<mapsto> (t, length nal)]" and nal: "nal \<noteq> []"
    and c: "(la_nintras s, la_intra_total s) = total_of 19 ms" "(la_ninters s, la_inter_total s) = total_of 1 ms"
      "la_frame_total s = la_intra_total s + la_inter_total s" "la_frames s = length ms"
    and m: "m = ((w_now (la_world s) - t) div 1000, nalu_type (hd nal))"
  shows "\<exists>s'. lat_afterGettingFrame nal (length nal) s = Inr (if length ms + 1 = 601 then Exit_Success else Received, s')
    \<and> la_cursor s' = la_cursor s \<and> la_world s' = la_world s \<and> la_timestamps s' = Map.empty \<and> la_frames s' = length (ms @ [m])
    \<and> (la_nintras s', la_intra_total s') = total_of 19 (ms @ [m]) \<and> (la_ninters s', la_inter_total s') = total_of 1 (ms @ [m])
    \<and> la_frame_total s' = la_intra_total s' + la_inter_total s'"
proof -
  have b: "rd8 nal 0 = Inr (hd nal)" using nal by (simp add: rd8_def hd_conv_nth)
  have "total_of 19 ms = (la_nintras s, la_intra_total s)" "total_of 1 ms = (la_ninters s, la_inter_total s)" using c by simp_all
  then show ?thesis
    using ts c(3,4) unfolding m lat_afterGettingFrame_def Let_def total_of_simps
    by (simp add: b nalu_type_def fun_upd_idem_iff)
qed

text \<open>A request, \<open>t\<close> microseconds, and the frame is back; the monitor may look in between two rounds.\<close>

definition there_and_back :: "nat \<times> bool \<Rightarrow> u8 list \<Rightarrow> lat_input list" where
  "there_and_back = (\<lambda>(t, tick) x. [Asks, Waits t, Comes x] @ (if tick then [Five_Seconds] else []))"

definition latency_of :: "env \<Rightarrow> nat \<Rightarrow> nat \<Rightarrow> u8 list \<Rightarrow> nat \<times> u8" where
  "latency_of env k t x = ((e_cost env k + t) div 1000, nalu_type (hd x))"

text \<open>The monitor has not seen the present number of frames, unless it has looked since the last one.\<close>

definition lat_program_inv :: "u8 list list \<Rightarrow> (nat \<times> u8) list \<Rightarrow> nat \<Rightarrow> lat_program \<Rightarrow> bool" where
  "lat_program_inv done ms pos p \<longleftrightarrow>
     lat_after done ms pos (lp_source p) \<and> lp_exit p = None \<and> length done < 601 \<and> (lp_monitored p \<longleftrightarrow> done \<noteq> [])
     \<and> (lp_prev_frames p = - 1 \<or> unat (lp_prev_frames p) \<le> length done)"

lemma lat_round:
  assumes inv: "lat_program_inv done ms (length pre) p"
    and data: "reachable mem = pre @ annexb ((long, nal) # ps)" and mem: "mem \<noteq> Null" and nal: "nal_ok nal" and ps: "\<forall>x \<in> set ps. nal_ok (snd x)"
    and small: "length nal \<le> unat fMaxSize"
  shows "\<exists>p'. run_hook (lat_event env base mem period fMaxSize) (there_and_back (t, tick) nal) p = Inr p'
    \<and> lat_after (done @ [nal]) (ms @ [latency_of env (length done) t nal]) (length (pre @ start_code long @ nal)) (lp_source p')
    \<and> (if length done + 1 = 601 then lp_exit p' = Some EXIT_SUCCESS
       else lat_program_inv (done @ [nal]) (ms @ [latency_of env (length done) t nal]) (length (pre @ start_code long @ nal)) p')"
proof -
  have after: "lat_after done ms (length pre) (lp_source p)" and run: "lp_exit p = None" and few: "length done < 601"
    and prev: "lp_prev_frames p = - 1 \<or> unat (lp_prev_frames p) \<le> length done"
    using inv by (simp_all add: lat_program_inv_def)
  obtain s1 t1 where s1: "lat_doGetNextFrame env base (reachable mem) period fMaxSize True (lp_source p) = Inr (Sent, s1)"
    "nc_open (la_cursor s1)" "nc_start (la_cursor s1) = length (pre @ start_code long @ nal)"
    "la_timestamps s1 = [length nal \<mapsto> (t1, length nal)]" "pushed (la_world s1) = done @ [nal]"
    "w_now (la_world s1) = t1 + e_cost env (length done)"
    and same: "la_frames s1 = la_frames (lp_source p)" "la_nintras s1 = la_nintras (lp_source p)"
    "la_intra_total s1 = la_intra_total (lp_source p)" "la_ninters s1 = la_ninters (lp_source p)"
    "la_inter_total s1 = la_inter_total (lp_source p)" "la_frame_total s1 = la_frame_total (lp_source p)"
    using lat_sends [OF after data nal ps small] by blast
  let ?s = "passes t s1" and ?m = "latency_of env (length done) t nal"
  have "?m = ((w_now (la_world ?s) - t1) div 1000, nalu_type (hd nal))" by (simp add: latency_of_def passes_def s1(6))
  moreover have "la_timestamps ?s = [length nal \<mapsto> (t1, length nal)]" "nal \<noteq> []"
    using s1(4) nal by (simp_all add: passes_def nal_ok_def)
  moreover have "(la_nintras ?s, la_intra_total ?s) = total_of 19 ms" "(la_ninters ?s, la_inter_total ?s) = total_of 1 ms"
    "la_frame_total ?s = la_intra_total ?s + la_inter_total ?s" "la_frames ?s = length ms"
    using after by (simp_all add: passes_def same lat_after_def)
  ultimately obtain s2 where s2: "lat_afterGettingFrame nal (length nal) ?s
      = Inr (if length ms + 1 = 601 then Exit_Success else Received, s2)"
    "la_cursor s2 = la_cursor ?s" "la_world s2 = la_world ?s" "la_timestamps s2 = Map.empty" "la_frames s2 = length (ms @ [?m])"
    "(la_nintras s2, la_intra_total s2) = total_of 19 (ms @ [?m])" "(la_ninters s2, la_inter_total s2) = total_of 1 (ms @ [?m])"
    "la_frame_total s2 = la_intra_total s2 + la_inter_total s2"
    using lat_returns [of ?s nal t1 ms ?m] by blast
  have len: "length ms = length done" using after by (simp add: lat_after_def)
  have after2: "lat_after (done @ [nal]) (ms @ [?m]) (length (pre @ start_code long @ nal)) s2"
    using s2(2-8) s1(2,3,5) len by (simp add: lat_after_def passes_def pushed_def)
  let ?p = "p\<lparr>lp_source := s2, lp_monitored := True, lp_exit := (if length done + 1 = 601 then Some EXIT_SUCCESS else None)\<rparr>"
  have three: "run_hook (lat_event env base mem period fMaxSize) [Asks, Waits t, Comes nal] p = Inr ?p"
    using run mem s1(1) s2(1) len by (cases p) (simp add: lat_event_def)
  have whole: "run_hook (lat_event env base mem period fMaxSize) (there_and_back (t, tick) nal) p
      = run_hook (lat_event env base mem period fMaxSize) (if tick then [Five_Seconds] else []) ?p"
    unfolding there_and_back_def prod.case run_hook_append three by simp
  have frames: "la_frames s2 = length done + 1" using s2(5) len by simp
  show ?thesis
  proof (cases "length done + 1 = 601")
    case True
    then show ?thesis using after2 unfolding whole by (cases tick) (simp_all add: lat_event_def)
  next
    case False
    let ?q = "?p\<lparr>lp_prev_frames := word_of_nat (length done + 1)\<rparr>"
    have "unat (lp_prev_frames p) \<noteq> length done + 1" using prev few by (auto simp: unat_max_u32)
    then have looked: "lat_event env base mem period fMaxSize Five_Seconds ?p = Inr ?q"
      using False frames by (simp add: lat_event_def)
    have "unat (word_of_nat (length done + 1) :: u32) = length done + 1"
      using few by (simp add: unsigned_of_nat take_bit_nat_eq_self del: of_nat_add of_nat_Suc)
    then have "lat_program_inv (done @ [nal]) (ms @ [?m]) (length (pre @ start_code long @ nal)) (if tick then ?q else ?p)"
      using after2 False few prev by (auto simp: lat_program_inv_def)
    moreover have "run_hook (lat_event env base mem period fMaxSize) (there_and_back (t, tick) nal) p = Inr (if tick then ?q else ?p)"
      unfolding whole by (cases tick) (simp_all only: if_True if_False run_hook.simps looked rbind_Inr)
    ultimately show ?thesis using False after2 by (intro exI [of _ "if tick then ?q else ?p"]) simp
  qed
qed

subsection \<open>All rounds\<close>

definition measured :: "env \<Rightarrow> nat \<Rightarrow> (nat \<times> bool) list \<Rightarrow> u8 list list \<Rightarrow> (nat \<times> u8) list" where
  "measured env k ws xs = map2 (\<lambda>(k, t, _) x. latency_of env k t x) (enumerate k ws) xs"

lemma measured_simps [simp]:
  "measured env k [] xs = []"
  "measured env k ((t, tick) # ws) (x # xs) = latency_of env k t x # measured env (Suc k) ws xs"
  by (simp_all add: measured_def)

lemma lat_rounds:
  assumes "lat_program_inv done ms (length pre) p" and "reachable mem = pre @ annexb ps" and "mem \<noteq> Null"
    and "\<forall>x \<in> set ps. nal_ok (snd x) \<and> length (snd x) \<le> unat fMaxSize"
    and "length ws \<le> length ps" and "length done + length ws \<le> 601"
  shows "\<exists>p' pos. run_hook (lat_event env base mem period fMaxSize) (concat (map2 there_and_back ws (map snd ps))) p = Inr p'
    \<and> lat_after (done @ take (length ws) (map snd ps)) (ms @ measured env (length done) ws (map snd ps)) pos (lp_source p')
    \<and> pos = length pre + length (annexb (take (length ws) ps))
    \<and> (if length done + length ws = 601 then lp_exit p' = Some EXIT_SUCCESS
       else lat_program_inv (done @ take (length ws) (map snd ps)) (ms @ measured env (length done) ws (map snd ps)) pos p')"
  using assms
proof (induction ws arbitrary: "done" ms pre p ps)
  case Nil
  then show ?case by (auto simp: lat_program_inv_def)
next
  case (Cons w ws)
  obtain t tick where w: "w = (t, tick)" by fastforce
  obtain x ps' where ps: "ps = x # ps'" using Cons.prems(5) by (cases ps) auto
  obtain long nal where x: "x = (long, nal)" by fastforce
  let ?pre = "pre @ start_code long @ nal" and ?done = "done @ [nal]" and ?ms = "ms @ [latency_of env (length done) t nal]"
  have data: "reachable mem = pre @ annexb ((long, nal) # ps')" using Cons.prems(2) by (simp add: ps x)
  have data': "reachable mem = ?pre @ annexb ps'" using data by simp
  have nal: "nal_ok nal" "\<forall>x \<in> set ps'. nal_ok (snd x)" "length nal \<le> unat fMaxSize" using Cons.prems(4) by (simp_all add: ps x)
  obtain p1 where p1: "run_hook (lat_event env base mem period fMaxSize) (there_and_back (t, tick) nal) p = Inr p1"
    "lat_after ?done ?ms (length ?pre) (lp_source p1)"
    "if length done + 1 = 601 then lp_exit p1 = Some EXIT_SUCCESS else lat_program_inv ?done ?ms (length ?pre) p1"
    using lat_round [OF Cons.prems(1) data Cons.prems(3) nal, of env base period t tick] by blast
  show ?case
  proof (cases "length done + 1 = 601")
    case True
    then have "ws = []" using Cons.prems(6) by simp
    then show ?thesis using True p1 by (simp add: w ps x)
  next
    case False
    have small: "\<forall>x \<in> set ps'. nal_ok (snd x) \<and> length (snd x) \<le> unat fMaxSize" using Cons.prems(4) by (simp add: ps)
    have inv1: "lat_program_inv ?done ?ms (length ?pre) p1" using p1(3) False by simp
    obtain p' pos where "run_hook (lat_event env base mem period fMaxSize) (concat (map2 there_and_back ws (map snd ps'))) p1 = Inr p'"
      "lat_after (?done @ take (length ws) (map snd ps')) (?ms @ measured env (length ?done) ws (map snd ps')) pos (lp_source p')"
      "pos = length ?pre + length (annexb (take (length ws) ps'))"
      "if length ?done + length ws = 601 then lp_exit p' = Some EXIT_SUCCESS
       else lat_program_inv (?done @ take (length ws) (map snd ps')) (?ms @ measured env (length ?done) ws (map snd ps')) pos p'"
      using Cons.IH [OF inv1 data' Cons.prems(3) small] Cons.prems(5,6) by (auto simp: ps)
    then show ?thesis
      using p1(1) by (intro exI [of _ p'] exI [of _ pos]) (simp add: w ps x run_hook_append split: if_split_asm)
  qed
qed

text \<open>A file that is used up: nothing is handed over, and after two looks of the monitor the program ends.\<close>

lemma lat_runs_dry:
  assumes inv: "lat_program_inv done ms (length (reachable mem)) p" and "done \<noteq> []" and "mem \<noteq> Null"
  shows "\<exists>p'. run_hook (lat_event env base mem period fMaxSize) [Asks, Five_Seconds, Five_Seconds] p = Inr p'
    \<and> lat_after done ms (length (reachable mem)) (lp_source p') \<and> lp_exit p' = Some EXIT_FAILURE"
proof -
  let ?s = "if \<not> la_initialized (lp_source p) then (lp_source p)\<lparr>la_initialized := True\<rparr> else lp_source p"
  have after: "lat_after done ms (length (reachable mem)) (lp_source p)" and few: "length done < 601"
    using inv by (simp_all add: lat_program_inv_def)
  obtain c where c: "latency_find_next_nal base (reachable mem) (la_cursor (lp_source p)) = Inr (None, c)" "nc_open c"
    "nc_start c = length (reachable mem)"
    using after by (cases "la_cursor (lp_source p)")
      (simp add: latency_find_next_nal_def next_nal_def Let_def skip_zeros.simps lat_after_def)
  then have "lat_doGetNextFrame env base (reachable mem) period fMaxSize True (lp_source p) = Inr (Idle, ?s\<lparr>la_cursor := c\<rparr>)"
    by (simp add: lat_doGetNextFrame_def lat_deliverFrame_def Let_def)
  moreover have same: "lat_after done ms (length (reachable mem)) (?s\<lparr>la_cursor := c\<rparr>)" using after c by (simp add: lat_after_def)
  moreover have "la_frames (?s\<lparr>la_cursor := c\<rparr>) = length done" using same by (simp add: lat_after_def)
  moreover have "unat (word_of_nat (length done) :: u32) = length done"
    using few by (simp add: unsigned_of_nat take_bit_nat_eq_self)
  moreover have "lp_exit p = None" "lp_monitored p" using inv assms(2) by (simp_all add: lat_program_inv_def)
  ultimately show ?thesis
    using assms(3) by (cases "unat (lp_prev_frames p) = length done") (simp_all add: lat_event_def)
qed

lemma lat_start:
  assumes "\<forall>x \<in> set ps. nal_ok (snd x)"
  shows "lat_doGetNextFrame env base (annexb ps) period fMaxSize True lat_init
    = lat_doGetNextFrame env base (annexb ps) period fMaxSize True
        (lat_init\<lparr>la_cursor := \<lparr>nc_open = True, nc_len = 0, nc_start = 0, nc_end = 0\<rparr>\<rparr>)"
proof -
  have "latency_find_next_nal base (annexb ps) nal_cursor_init
      = latency_find_next_nal base (annexb ps) \<lparr>nc_open = True, nc_len = 0, nc_start = 0, nc_end = 0\<rparr>"
    using ff_avc.finder_first [OF assms, of base]
    by (simp add: latency_find_next_nal_def next_nal_def nal_cursor_init_def Let_def)
  then show ?thesis by (simp add: lat_doGetNextFrame_def lat_deliverFrame_def lat_init_def)
qed

lemma first_request:
  assumes "\<forall>x \<in> set ps. nal_ok (snd x)" and "reachable mem = annexb ps"
  shows "lat_event env base mem period fMaxSize Asks lat_program_init = lat_event env base mem period fMaxSize Asks
    (lat_program_init\<lparr>lp_source := lat_init\<lparr>la_cursor := \<lparr>nc_open = True, nc_len = 0, nc_start = 0, nc_end = 0\<rparr>\<rparr>\<rparr>)"
  using lat_start [OF assms(1)] assms(2) by (simp add: lat_event_def lat_program_init_def rbind_def split: sum.splits prod.splits)

lemma opened_inv:
  "lat_program_inv [] [] 0 (lat_program_init\<lparr>lp_source := lat_init\<lparr>la_cursor := \<lparr>nc_open = True, nc_len = 0, nc_start = 0, nc_end = 0\<rparr>\<rparr>\<rparr>)"
  by (simp add: lat_program_inv_def lat_after_def lat_program_init_def lat_init_def world_init_def pushed_def total_of_simps)

text \<open>The whole run: all rounds, one more request, and the monitor twice.\<close>

lemma lat_program_run:
  assumes ps: "\<forall>x \<in> set ps. nal_ok (snd x) \<and> length (snd x) \<le> unat fMaxSize" "ps \<noteq> []"
    and mem: "reachable mem = annexb ps" "mem \<noteq> Null" and n: "length ws = min 601 (length ps)"
  shows "\<exists>p pos. run_hook (lat_event env base mem period fMaxSize)
      (concat (map2 there_and_back ws (map snd ps)) @ [Asks, Five_Seconds, Five_Seconds]) lat_program_init = Inr p
    \<and> lat_after (take 601 (map snd ps)) (measured env 0 ws (map snd ps)) pos (lp_source p)
    \<and> lp_exit p = Some (if length ps < 601 then EXIT_FAILURE else EXIT_SUCCESS)"
proof -
  let ?f = "lat_event env base mem period fMaxSize" and ?es = "concat (map2 there_and_back ws (map snd ps))"
  let ?p0 = "lat_program_init\<lparr>lp_source := lat_init\<lparr>la_cursor := \<lparr>nc_open = True, nc_len = 0, nc_start = 0, nc_end = 0\<rparr>\<rparr>\<rparr>"
  obtain w ws' x ps' where wx: "ws = w # ws'" "ps = x # ps'" using ps(2) n by (cases ws; cases ps) auto
  then obtain es' where es': "?es = Asks # es'" by (cases w) (simp add: there_and_back_def)
  have ok: "\<forall>x \<in> set ps. nal_ok (snd x)" using ps(1) by blast
  have start: "run_hook ?f ?es lat_program_init = run_hook ?f ?es ?p0"
    unfolding es' run_hook.simps first_request [OF ok mem(1)] ..
  have inv: "lat_program_inv [] [] (length ([] :: u8 list)) ?p0" using opened_inv by simp
  have data: "reachable mem = [] @ annexb ps" using mem(1) by simp
  have take_n: "take (length ws) (map snd ps) = take 601 (map snd ps)" "take (length ws) ps = take 601 ps"
    using n by (simp_all add: min_def)
  obtain p1 pos where p1: "run_hook ?f ?es ?p0 = Inr p1"
    "lat_after (take 601 (map snd ps)) (measured env 0 ws (map snd ps)) pos (lp_source p1)" "pos = length (annexb (take 601 ps))"
    "if length ws = 601 then lp_exit p1 = Some EXIT_SUCCESS
     else lat_program_inv (take 601 (map snd ps)) (measured env 0 ws (map snd ps)) pos p1"
    using lat_rounds [OF inv data mem(2) ps(1), of ws env base period] n
    unfolding take_n append_Nil list.size(3) add_0 by auto
  show ?thesis
  proof (cases "length ps < 601")
    case False
    then have "lp_exit p1 = Some EXIT_SUCCESS" using p1(4) n by simp
    then have "run_hook ?f [Asks, Five_Seconds, Five_Seconds] p1 = Inr p1" by (simp add: lat_event_def)
    then show ?thesis
      using p1(1,2) False \<open>lp_exit p1 = Some EXIT_SUCCESS\<close> unfolding run_hook_append start
      by (intro exI [of _ p1] exI [of _ pos]) (simp del: run_hook.simps)
  next
    case True
    then have "take 601 ps = ps" "length ws \<noteq> 601" using n by simp_all
    then have "lat_program_inv (take 601 (map snd ps)) (measured env 0 ws (map snd ps)) (length (reachable mem)) p1"
      using p1(3,4) mem(1) by simp
    moreover have "take 601 (map snd ps) \<noteq> []" using ps(2) by simp
    ultimately obtain p' where "run_hook ?f [Asks, Five_Seconds, Five_Seconds] p1 = Inr p'"
      "lat_after (take 601 (map snd ps)) (measured env 0 ws (map snd ps)) (length (reachable mem)) (lp_source p')" "lp_exit p' = Some EXIT_FAILURE"
      using lat_runs_dry [OF _ _ mem(2), where env = env and base = base and period = period and fMaxSize = fMaxSize] by blast
    then show ?thesis
      using p1(1) True unfolding run_hook_append start
      by (intro exI [of _ p'] exI [of _ "length (reachable mem)"]) (simp del: run_hook.simps)
  qed
qed

subsection \<open>The echo\<close>

lemma echo_program_runs:
  assumes "in_step es" and "length (frames_in es) < 602"
  shows "\<exists>s. run_hook (echo_program_event m) (map Some es) echo_program_init = Inr (echo_program_init\<lparr>ep_source := s\<rparr>)
    \<and> echo_source_inv m es s"
  using assms
proof (induction es rule: rev_induct)
  case Nil
  then show ?case using live_echo_run [of "[]" m] by (auto simp: echo_program_init_def)
next
  case (snoc e es)
  have few: "length (frames_in es) < 602" using snoc.prems(2) frames_in_mono [of es "[e]"] by simp
  obtain s where s: "run_hook (echo_program_event m) (map Some es) echo_program_init = Inr (echo_program_init\<lparr>ep_source := s\<rparr>)"
    "echo_source_inv m es s"
    using snoc.IH [OF in_step_snoc [OF snoc.prems(1)] few] by blast
  have "length (frames_in (es @ [e])) \<le> requests_in (es @ [e]) + 1" "requests_in (es @ [e]) \<le> length (frames_in (es @ [e])) + 1"
    using snoc.prems(1) unfolding in_step_def by (metis order_refl take_all)+
  then obtain s' where s': "echo_event m e s = Inr s'" "echo_source_inv m (es @ [e]) s'"
    using echo_source_step [OF s(2) snoc.prems(2)] by blast
  then have "\<not> es_exit s'" by (simp add: echo_source_inv_def Let_def)
  then have "echo_program_event m (Some e) (echo_program_init\<lparr>ep_source := s\<rparr>) = Inr (echo_program_init\<lparr>ep_source := s'\<rparr>)"
    using s'(1) by (simp add: echo_program_event_def echo_program_init_def)
  then show ?case using s(1) s'(2) by (intro exI [of _ s']) (simp add: run_hook_append)
qed

text \<open>The monitor ends the program at its second look after the last frame: the 602nd frame never comes.\<close>

lemma echo_program_ends:
  assumes "in_step es" and "length (frames_in es) < 602" and "frames_in es \<noteq> []" and "length (frames_in es) \<le> requests_in es"
  shows "\<exists>p. run_hook (echo_program_event m) (map Some es @ [None, None]) echo_program_init = Inr p
    \<and> ep_exit p = Some EXIT_FAILURE \<and> es_delivered (ep_source p) = map (cut m) (frames_in es)
    \<and> es_frames (ep_source p) = length (frames_in es) \<and> es_bytes (ep_source p) = length (concat (frames_in es))"
proof -
  obtain s where s: "run_hook (echo_program_event m) (map Some es) echo_program_init = Inr (echo_program_init\<lparr>ep_source := s\<rparr>)"
    "echo_source_inv m es s"
    using echo_program_runs [OF assms(1,2)] by blast
  have v: "es_delivered s = map (cut m) (frames_in es)" "es_frames s = length (frames_in es)" "es_bytes s = length (concat (frames_in es))"
    using s(2) assms(4) by (simp_all add: echo_source_inv_def Let_def)
  have "unat (word_of_nat (es_frames s) :: u32) = es_frames s" "unat (- 1 :: u32) \<noteq> es_frames s"
    using assms(2) v(2) by (simp_all add: unsigned_of_nat take_bit_nat_eq_self unat_max_u32)
  then have "run_hook (echo_program_event m) [None, None] (echo_program_init\<lparr>ep_source := s\<rparr>)
      = Inr (echo_program_init\<lparr>ep_source := s, ep_prev_frames := word_of_nat (es_frames s), ep_exit := Some EXIT_FAILURE\<rparr>)"
    using v(2) assms(3) by (simp add: echo_program_event_def echo_program_init_def)
  then show ?thesis
    using v unfolding run_hook_append s(1) rbind_Inr by (intro exI) (auto simp del: run_hook.simps)
qed

subsection \<open>Properties\<close>


definition two_nals :: "(bool \<times> u8 list) list" where
  "two_nals = [(False, [0x26, 9]), (True, [2, 1, 7])]"

definition two_events :: "echo_input list" where
  "two_events = [Request, Frame [0x26, 9], Frame [2, 1, 7], Request]"


end
