(* ===== verification/V3C_Latency_Test.thy ===== *)
theory V3C_Latency_Test
  imports Latency_Tests Latency_Programs
begin

section \<open>The V-PCC latency test\<close>

text \<open>
  Both programs of the V-PCC latency test, \<open>uvgrtp/vpcc_latency_sender.cc\<close> and \<open>uvgrtp/vpcc_latency_receiver.cc\<close>, together:
  first their threads and hooks, then the programs on a file and their command lines.
\<close>

text \<open>The sending threads, the echoing hooks and the measuring hooks on the same NAL units.\<close>

lemma vpcc_test_run:
  assumes units: "\<forall>t. streamed t \<longrightarrow> (\<forall>i \<in> set (concat (map ui_nal_infos (units t))). nal_in cbuf i)
      \<and> length (concat (map ui_nal_infos (units t))) * unat period < 2 ^ 64 \<and> length (concat (map ui_nal_infos (units t))) < 2 ^ 64"
    and xs: "xs = (\<lambda>t. if streamed t then stream_nals cbuf (units t) else [])"
    and es: "\<forall>t. on_stream t es = map Some (xs t)"
    and bs: "\<forall>t. on_stream t (map (\<lambda>(t, _, f). (t, f)) bs) = map Some (xs t)"
    and n: "n = length (filter (frame_nal V3C_AD) (xs V3C_AD))"
    and enough: "n \<le> length (filter (frame_nal V3C_OVD) (xs V3C_OVD))"
      "n * 4 \<le> length (filter (frame_nal V3C_GVD) (xs V3C_GVD)) + 3" "n * 4 \<le> length (filter (frame_nal V3C_AVD) (xs V3C_AVD)) + 3"
  shows "\<exists>s r log. (\<forall>t. streamed t \<longrightarrow> vpcc_latency_sender_func (env t) cbuf t period (units t) = Inr (True, s t)
        \<and> pushed (vl_world (s t)) = xs t \<and> vl_send_times (s t) = push_times t (vl_world (s t)))
    \<and> run_hook vpcc_echo_hook es vpcc_echo_init = Inr r \<and> (\<forall>t. on_stream t (ve_pushed r) = xs t)
    \<and> run_hook measuring_hooks bs recv_init = Inr log
    \<and> vpcc_latency_result (vpcc_logs s) log = Inr (if filter (misclassified V3C_AD) (xs V3C_AD) = []
        then (n, \<Sum>i \<leftarrow> [0..<n]. frame_latency (vpcc_logs s) log i) else (0, 0))
    \<and> (frame_loss (vpcc_logs s) log \<longleftrightarrow> filter (misclassified V3C_AD) (xs V3C_AD) \<noteq> [])"
proof -
  have "\<forall>t. \<exists>s. streamed t \<longrightarrow> vpcc_latency_sender_func (env t) cbuf t period (units t) = Inr (True, s)
      \<and> pushed (vl_world s) = xs t \<and> vl_send_times s = push_times t (vl_world s) \<and> length (vl_send_times s) = length (filter (frame_nal t) (xs t))"
    using send_times_count units unfolding xs by fastforce
  then obtain s where s: "\<forall>t. streamed t \<longrightarrow> vpcc_latency_sender_func (env t) cbuf t period (units t) = Inr (True, s t)
      \<and> pushed (vl_world (s t)) = xs t \<and> vl_send_times (s t) = push_times t (vl_world (s t)) \<and> length (vl_send_times (s t)) = length (filter (frame_nal t) (xs t))"
    by metis
  have only: "\<forall>t. \<not> streamed t \<longrightarrow> xs t = []" unfolding xs by simp
  have "x \<noteq> []" if "x \<in> set (xs t)" for t x
  proof -
    have "streamed t" "x \<in> set (stream_nals cbuf (units t))" using that by (simp_all add: xs split: if_splits)
    then show ?thesis using stream_nals_nonempty units by blast
  qed
  then have nonempty: "\<forall>t. \<forall>x \<in> set (xs t). x \<noteq> []" by blast
  obtain r log where rl: "run_hook vpcc_echo_hook es vpcc_echo_init = Inr r" "\<forall>t. on_stream t (ve_pushed r) = xs t"
    "run_hook measuring_hooks bs recv_init = Inr log"
    "\<forall>t. streamed t \<longrightarrow> length (stream_recv t log) = length (filter (logged t) (xs t))"
    using echo_and_measure [OF nonempty only es bs] by blast
  have sent: "\<forall>t. streamed t \<longrightarrow> length (vl_send_times (s t)) = length (filter (frame_nal t) (xs t))" using s by blast
  note len = vpcc_logs_lengths [OF sent rl(4)]
  have "vpcc_latency_result (vpcc_logs s) log = Inr (if length (filter (misclassified V3C_AD) (xs V3C_AD)) = 0
    then (length (ad_send (vpcc_logs s)), \<Sum>i \<leftarrow> [0..<length (ad_send (vpcc_logs s))]. frame_latency (vpcc_logs s) log i) else (0, 0))"
    using enough n by (intro vpcc_result) (simp_all add: len)
  moreover have "frame_loss (vpcc_logs s) log \<longleftrightarrow> filter (misclassified V3C_AD) (xs V3C_AD) \<noteq> []"
    by (simp add: frame_loss_def len)
  ultimately show ?thesis
    using s rl(1-3) by (intro exI [of _ s] exI [of _ r] exI [of _ log]) (simp add: len(1) n)
qed

text \<open>
  The V-PCC latency test over a lossless network. The four sending threads push
  every NAL unit of their stream; the echoing program pushes each back on the stream it came on, in order, whatever the
  interleaving of the streams; and if the video streams carry enough frames for those of the atlas stream, the test
  reports the number of atlas frames and the sum of their latencies, every access to the lists of times in range;
  except that one atlas NAL unit of type 32 to 34 makes it report a frame loss (zeros) that did not happen.
\<close>

theorem vpcc_latency_test:
  assumes units: "\<forall>t. streamed t \<longrightarrow> (\<forall>i \<in> set (concat (map ui_nal_infos (units t))). nal_in cbuf i)
      \<and> length (concat (map ui_nal_infos (units t))) * unat period < 2 ^ 64 \<and> length (concat (map ui_nal_infos (units t))) < 2 ^ 64"
    and xs: "xs = (\<lambda>t. if streamed t then stream_nals cbuf (units t) else [])"
    and es: "\<forall>t. on_stream t es = map Some (xs t)"
    and bs: "\<forall>t. on_stream t (map (\<lambda>(t, _, f). (t, f)) bs) = map Some (xs t)"
    and n: "n = length (filter (frame_nal V3C_AD) (xs V3C_AD))"
    and enough: "n \<le> length (filter (frame_nal V3C_OVD) (xs V3C_OVD))"
      "n * 4 \<le> length (filter (frame_nal V3C_GVD) (xs V3C_GVD)) + 3" "n * 4 \<le> length (filter (frame_nal V3C_AVD) (xs V3C_AVD)) + 3"
  shows "\<exists>s r log. (\<forall>t. streamed t \<longrightarrow> vpcc_latency_sender_func (env t) cbuf t period (units t) = Inr (True, s t)
        \<and> pushed (vl_world (s t)) = xs t)
    \<and> run_hook vpcc_echo_hook es vpcc_echo_init = Inr r \<and> (\<forall>t. on_stream t (ve_pushed r) = xs t)
    \<and> run_hook measuring_hooks bs recv_init = Inr log
    \<and> vpcc_latency_result (vpcc_logs s) log = Inr (if filter (misclassified V3C_AD) (xs V3C_AD) = []
        then (n, \<Sum>i \<leftarrow> [0..<n]. frame_latency (vpcc_logs s) log i) else (0, 0))"
  using vpcc_test_run [OF assms] by blast

definition demo_streams :: "V3C_UNIT_TYPE \<Rightarrow> u8 list list" where
  "demo_streams t = (if streamed t then [[2], [0x48, 1]] else [])"

definition demo_es :: "(V3C_UNIT_TYPE \<times> u8 list option) list" where
  "demo_es = [(V3C_AD, Some [2]), (V3C_OVD, Some [2]), (V3C_GVD, Some [2]), (V3C_AVD, Some [2]),
     (V3C_AVD, Some [0x48, 1]), (V3C_AD, Some [0x48, 1]), (V3C_OVD, Some [0x48, 1]), (V3C_GVD, Some [0x48, 1])]"

definition demo_nals :: "v3c_unit_info list" where
  "demo_nals = [(new_unit empty_header)\<lparr>ui_nal_infos := [\<lparr>nal_location = 0, nal_size = 1, nal_buf = 0\<rparr>,
     \<lparr>nal_location = 1, nal_size = 2, nal_buf = 0\<rparr>]\<rparr>]"

theorem vpcc_latency_test_witness:
  "\<exists>s r log. (\<forall>t. streamed t \<longrightarrow> vpcc_latency_sender_func demo_env [2, 0x48, 1] t 40 demo_nals = Inr (True, s t)
        \<and> pushed (vl_world (s t)) = demo_streams t)
    \<and> run_hook vpcc_echo_hook demo_es vpcc_echo_init = Inr r \<and> (\<forall>t. on_stream t (ve_pushed r) = demo_streams t)
    \<and> run_hook measuring_hooks (map (\<lambda>(t, f). (t, 900, f)) demo_es) recv_init = Inr log
    \<and> vpcc_latency_result (vpcc_logs s) log = Inr (if filter (misclassified V3C_AD) (demo_streams V3C_AD) = []
        then (1, \<Sum>i \<leftarrow> [0..<1]. frame_latency (vpcc_logs s) log i) else (0, 0))"
proof (rule vpcc_latency_test)
  show "demo_streams = (\<lambda>t. if streamed t then stream_nals [2, 0x48, 1] demo_nals else [])"
    by (simp add: demo_streams_def fun_eq_iff stream_nals_def demo_nals_def nal_bytes_def new_unit_def)
  show "\<forall>t. on_stream t demo_es = map Some (demo_streams t)"
    by (auto simp: demo_es_def demo_streams_def streamed_def)
  show "\<forall>t. on_stream t (map (\<lambda>(t, _, f). (t, f)) (map (\<lambda>(t, f). (t, 900, f)) demo_es)) = map Some (demo_streams t)"
    by (auto simp: demo_es_def demo_streams_def streamed_def)
qed (simp_all add: demo_streams_def streamed_def frame_nal_def param_set_def nalu_type_def demo_nals_def new_unit_def nal_in_def
    word_le_nat_alt)

subsection \<open>Program against program\<close>

text \<open>The send lists of the four streams, from what was pushed on each.\<close>

definition sent_log :: "world list \<Rightarrow> send_log" where
  "sent_log ws = \<lparr>ad_send = push_times V3C_AD (ws ! 0), ovd_send = push_times V3C_OVD (ws ! 1),
     gvd_send = push_times V3C_GVD (ws ! 2), avd_send = push_times V3C_AVD (ws ! 3)\<rparr>"

lemma vpcc_echo_program:
  assumes "is_int p" "is_int q" and busy: "[] \<notin> set busy" "\<forall>t. on_stream t (concat busy) = map Some (xs t)"
    and only: "\<forall>t. \<not> streamed t \<longrightarrow> xs t = []"
  shows "\<exists>r. vpcc_latency_receiver_main (busy @ [[]]) (echo_args la q ra p format srtp)
      = Inr (Some (EXIT_SUCCESS, Some (vpcc_stream_list (vpcc_setup {} (get_srtp_state srtp) (word_of_int q) (word_of_int p) True), r)))
    \<and> (\<forall>t. on_stream t (ve_pushed r) = xs t)"
proof -
  have ok: "streamed t \<and> f \<noteq> None" if "(t, f) \<in> set (concat busy)" for t f
  proof -
    have "f \<in> set (on_stream t (concat busy))" using that by (force simp: on_stream_def)
    then have "f \<in> Some ` set (xs t)" using busy(2) by simp
    then show ?thesis using only by fastforce
  qed
  have "\<forall>es \<in> set busy. es \<noteq> [] \<and> (\<forall>(t, f) \<in> set es. streamed t \<and> f \<noteq> None)"
    using busy(1) ok by fastforce
  moreover have "vpcc_echo_inv vpcc_echo_init" "ve_frame_received vpcc_echo_init"
    by (simp_all add: vpcc_echo_inv_def vpcc_echo_init_def)
  ultimately obtain r where r: "vpcc_echo_loop (busy @ [[]]) vpcc_echo_init = Inr (Some r)"
    "ve_pushed r = ve_pushed vpcc_echo_init @ map (\<lambda>(t, f). (t, the f)) (concat busy)"
    using vpcc_echo_loop_busy by blast
  have "on_stream t (ve_pushed r) = xs t" for t
    using r(2) busy(2) by (simp add: vpcc_echo_init_def on_stream_map comp_def)
  then show ?thesis
    using assms(1,2) r(1)
    by (intro exI [of _ r]) (simp add: vpcc_latency_receiver_main_def echo_args_def Let_def nth_numeral_Cons atoi_is_int)
qed

lemma vpcc_pairs:
  assumes "k < 4"
  shows "reaches (vpcc_stream_list (vpcc_setup {} srtp p q False) ! k) (vpcc_stream_list (vpcc_setup {} srtp q p True) ! k)
    \<and> reaches (vpcc_stream_list (vpcc_setup {} srtp q p True) ! k) (vpcc_stream_list (vpcc_setup {} srtp p q False) ! k)"
proof -
  have k: "k < length vpcc_types" using assms by (simp add: vpcc_types_def)
  show ?thesis using v3c_paired [OF stream_of_nth [OF k] stream_of_nth [OF k]] by simp
qed

lemma vpcc_measuring_program:
  assumes input: "open_in input d = Some file" "sample_file w b us file" "nals_nonempty us" and args: "is_int p" "is_int q"
    and sched: "\<forall>t. streamed t \<longrightarrow> length (nals_of t us) * unat (fl_period fl fps) < 2 ^ 64 \<and> length (nals_of t us) < 2 ^ 64"
    and xs: "xs = (\<lambda>t. if streamed t then nals_of t us else [])"
    and busy: "[] \<notin> set busy" "\<forall>t. on_stream t (concat busy) = map Some (xs t)"
    and came: "\<forall>t. on_stream t (map (\<lambda>(t, _, f). (t, f)) came_back) = map Some (xs t)"
    and n: "n = length (filter (frame_nal V3C_AD) (xs V3C_AD))"
    and enough: "n \<le> length (filter (frame_nal V3C_OVD) (xs V3C_OVD))"
      "n * 4 \<le> length (filter (frame_nal V3C_GVD) (xs V3C_GVD)) + 3" "n * 4 \<le> length (filter (frame_nal V3C_AVD) (xs V3C_AVD)) + 3"
  shows "\<exists>oc log. vpcc_latency_sender_main fl envs came_back (latency_args input la p ra q fps format srtp) d = Inr oc
    \<and> oc_status oc = EXIT_SUCCESS \<and> map (\<lambda>sw. pushed (snd sw)) (oc_sent oc) = map xs vpcc_types
    \<and> map fst (oc_sent oc) = vpcc_stream_list (vpcc_setup {} (get_srtp_state srtp) (word_of_int p) (word_of_int q) False)
    \<and> run_hook measuring_hooks came_back recv_init = Inr log
    \<and> oc_disk oc = (if filter (misclassified V3C_AD) (xs V3C_AD) = []
        then write_latency_results_to_file (fl_show fl) ''latency_results'' n
          (fl_frame_time fl (\<Sum>i \<leftarrow> [0..<n]. frame_latency (sent_log (map snd (oc_sent oc))) log i) n) (fl_zero fl) (fl_zero fl) d
        else write_latency_results_to_file (fl_show fl) ''latency_results'' 0 (fl_zero fl) (fl_zero fl) (fl_zero fl) d)"
proof -
  obtain m where m: "mmap_v3c_file file (length file) empty_map = Inr (True, m)"
    "\<And>t. map (nal_bytes file) (unit_nals t m) = nals_of t us" "\<And>t. \<forall>i \<in> set (unit_nals t m). nal_in file i"
    using parsed_sample_file [OF input(2,3)] by blast
  have nals: "stream_nals file (units_of t m) = nals_of t us" for t using m(2) by (simp add: stream_nals_def unit_nals_def)
  have len: "length (unit_nals t m) = length (nals_of t us)" for t using arg_cong [OF m(2) [of t], of length] by simp
  let ?period = "fl_period fl fps"
  have units: "\<forall>t. streamed t \<longrightarrow> (\<forall>i \<in> set (concat (map ui_nal_infos (units_of t m))). nal_in file i)
      \<and> length (concat (map ui_nal_infos (units_of t m))) * unat ?period < 2 ^ 64 \<and> length (concat (map ui_nal_infos (units_of t m))) < 2 ^ 64"
    using m(3) sched len unfolding unit_nals_def by simp
  have xs': "xs = (\<lambda>t. if streamed t then stream_nals file (units_of t m) else [])" unfolding nals by (rule xs)
  obtain s log where s: "\<And>t. streamed t \<Longrightarrow> vpcc_latency_sender_func (envs t) file t ?period (units_of t m) = Inr (True, s t)
      \<and> pushed (vl_world (s t)) = xs t \<and> vl_send_times (s t) = push_times t (vl_world (s t))"
    and log: "run_hook measuring_hooks came_back recv_init = Inr log"
    and result: "vpcc_latency_result (vpcc_logs s) log = Inr (if filter (misclassified V3C_AD) (xs V3C_AD) = []
        then (n, \<Sum>i \<leftarrow> [0..<n]. frame_latency (vpcc_logs s) log i) else (0, 0))"
    and loss: "frame_loss (vpcc_logs s) log \<longleftrightarrow> filter (misclassified V3C_AD) (xs V3C_AD) \<noteq> []"
    using vpcc_test_run [OF units xs' busy(2) came n enough, of envs] by blast
  have streamed: "streamed t" if "t \<in> set vpcc_types" for t using that by (auto simp: vpcc_types_def streamed_def)
  have run: "run_all (\<lambda>t. vpcc_latency_sender_func (envs t) file t ?period (units_of t m)) vpcc_types = Inr (map (\<lambda>t. (True, s t)) vpcc_types)"
    using s streamed by (intro run_all_Inr) blast
  let ?ms = "vpcc_stream_list (vpcc_setup {} (get_srtp_state srtp) (word_of_int p) (word_of_int q) False)"
  let ?ws = "map (\<lambda>t. vl_world (s t)) vpcc_types"
  let ?disk = "if filter (misclassified V3C_AD) (xs V3C_AD) = []
    then write_latency_results_to_file (fl_show fl) ''latency_results'' n
      (fl_frame_time fl (\<Sum>i \<leftarrow> [0..<n]. frame_latency (vpcc_logs s) log i) n) (fl_zero fl) (fl_zero fl) d
    else write_latency_results_to_file (fl_show fl) ''latency_results'' 0 (fl_zero fl) (fl_zero fl) (fl_zero fl) d"
  let ?oc = "\<lparr>oc_status = EXIT_SUCCESS, oc_disk = ?disk, oc_sent = zip ?ms ?ws\<rparr>"
  have logs: "vpcc_logs (\<lambda>t. snd (map (\<lambda>t. (True, s t)) vpcc_types
      ! (if t = V3C_AD then 0 else if t = V3C_OVD then 1 else if t = V3C_GVD then 2 else 3))) = vpcc_logs s"
    by (simp add: vpcc_logs_def vpcc_types_def nth_numeral_Cons)
  have "file \<noteq> []" using input(2) by (auto simp: sample_file_def)
  then have mem: "get_mem input 0 d = (Mapped file, length file)"
    using input(1) by (auto simp: get_mem_def open_in_def split: if_splits)
  have sender: "vpcc_latency_sender_main fl envs came_back (latency_args input la p ra q fps format srtp) d = Inr ?oc"
    by (simp add: vpcc_latency_sender_main_def latency_args_def Let_def nth_numeral_Cons atoi_is_int args mem m(1) run log logs
        result loss comp_def)
  have n4: "length ?ms = length ?ws" by (simp add: vpcc_types_def)
  have sent: "map snd (oc_sent ?oc) = ?ws" "map fst (oc_sent ?oc) = ?ms" using n4 by simp_all
  have "sent_log ?ws = vpcc_logs s"
    using s by (simp add: sent_log_def vpcc_logs_def vpcc_types_def nth_numeral_Cons streamed_def)
  then have disk: "oc_disk ?oc = (if filter (misclassified V3C_AD) (xs V3C_AD) = []
        then write_latency_results_to_file (fl_show fl) ''latency_results'' n
          (fl_frame_time fl (\<Sum>i \<leftarrow> [0..<n]. frame_latency (sent_log (map snd (oc_sent ?oc))) log i) n) (fl_zero fl) (fl_zero fl) d
        else write_latency_results_to_file (fl_show fl) ''latency_results'' 0 (fl_zero fl) (fl_zero fl) (fl_zero fl) d)"
    unfolding sent by simp
  have "map pushed (map snd (oc_sent ?oc)) = map xs vpcc_types" unfolding sent using s streamed by simp
  then have pushed: "map (\<lambda>sw. pushed (snd sw)) (oc_sent ?oc) = map xs vpcc_types" by (simp add: comp_def)
  show ?thesis
    by (intro exI conjI) (rule sender, simp, rule pushed, rule sent(2), rule log, rule disk)
qed


definition test_units :: "v3c_unit list" where
  "test_units =
     [Nal_Units V3C_AD \<lparr>vuh_unit_type = 1, vuh = Ad \<lparr>ad_vuh_v3c_parameter_set_id = 3, ad_vuh_atlas_id = 5\<rparr>\<rparr> 2 [[2]],
      Nal_Units V3C_OVD \<lparr>vuh_unit_type = 2, vuh = Ovd \<lparr>ovd_vuh_v3c_parameter_set_id = 3, ovd_vuh_atlas_id = 5\<rparr>\<rparr> 4 [[0x48, 1], [2, 9]],
      Nal_Units V3C_GVD \<lparr>vuh_unit_type = 3, vuh = Gvd \<lparr>gvd_vuh_v3c_parameter_set_id = 3, gvd_vuh_atlas_id = 5,
        gvd_vuh_map_index = 9, gvd_vuh_auxiliary_video_flag = True\<rparr>\<rparr> 4 [[2]],
      Nal_Units V3C_AVD \<lparr>vuh_unit_type = 4, vuh = Avd \<lparr>avd_vuh_v3c_parameter_set_id = 3, avd_vuh_atlas_id = 5, avd_vuh_attribute_index = 0,
        avd_vuh_attribute_partition_index = 0, avd_vuh_map_index = 1, avd_vuh_auxiliary_video_flag = False\<rparr>\<rparr> 4 [[2]]]"

lemma test_nals: "nals_of t test_units = (if t = V3C_OVD then [[0x48, 1], [2, 9]] else if streamed t then [[2]] else [])"
  by (cases t) (simp_all add: nals_of_def contents_of_def test_units_def streamed_def)

lemma test_file: "sample_file 3 64 test_units (64 # sample_stream 3 test_units)"
  by (simp add: sample_file_def test_units_def read_unit_type_def header_ok_def is_atlas_def header_part_def
      v3c_header_bytes_def Let_def)

text \<open>The echoing program in two periods, and what comes back.\<close>

definition test_busy :: "(V3C_UNIT_TYPE \<times> u8 list option) list list" where
  "test_busy = [[(V3C_OVD, Some [0x48, 1]), (V3C_AD, Some [2])], [(V3C_GVD, Some [2]), (V3C_OVD, Some [2, 9]), (V3C_AVD, Some [2])]]"

definition test_back :: "(V3C_UNIT_TYPE \<times> nat \<times> u8 list option) list" where
  "test_back = [(V3C_OVD, 100, Some [0x48, 1]), (V3C_OVD, 130, Some [2, 9]), (V3C_GVD, 140, Some [2]), (V3C_AVD, 150, Some [2]),
     (V3C_AD, 190, Some [2])]"

definition test_streams :: "V3C_UNIT_TYPE \<Rightarrow> u8 list list" where
  "test_streams t = (if streamed t then nals_of t test_units else [])"

lemma test_streams_simps:
  "test_streams V3C_AD = [[2]]" "test_streams V3C_OVD = [[0x48, 1], [2, 9]]" "test_streams V3C_GVD = [[2]]" "test_streams V3C_AVD = [[2]]"
  "\<not> streamed t \<Longrightarrow> test_streams t = []"
  by (simp_all add: test_streams_def test_nals streamed_def)

lemma all_streams: "(\<forall>t. P t) \<longleftrightarrow> P V3C_AD \<and> P V3C_OVD \<and> P V3C_GVD \<and> P V3C_AVD \<and> (\<forall>t. \<not> streamed t \<longrightarrow> P t)"
  by (metis streamed_def)


end
