(* ===== verification/Spec2Isabelle.thy ===== *)
theory Spec2Isabelle
  imports V3C_Rebuild Nal_Source Live_Source Framed_Source Latency_Tests Receiver_Threads FFmpeg_Programs
    Live_Latency_Test V3C_Latency_Test
begin

text \<open>
  \<^bold>\<open>Verification of rtp-benchmarks.\<close>

  The repository measures RTP libraries (uvgRTP, live555, FFmpeg): throughput tests, in which a sender pushes
  the frames of a file on schedule and a receiver counts them, and latency tests, in which
  the other end sends each frame back. The library, the network and the encoder are not part of the
  sources. What the code asks of them is an input of the model: how long a push takes and whether it
  succeeds (\<open>env\<close> in \<open>Pacing\<close>), which frames a hook is called with and when, what an encoder
  returns. The theorems hold for all of these, with the conditions they state.

  \<^bold>\<open>Conventions\<close> (\<open>Prelude\<close>, \<open>Bytes\<close>). Machine integers whose wrap-around matters are words; offsets and sizes in memory are
  \<open>nat\<close>. An operation that can go wrong returns a \<open>fault\<close> or a value: a read outside a buffer, \<open>vector::at\<close> out of range,
  the inactive member of a union, a dangling pointer, \<open>front\<close> of an empty container, a division by zero, the
  unlocking of a free mutex. A theorem that the result is \<open>Inr\<close> excludes all of these. Times are microseconds of one clock.
  Figures the code computes in \<open>float\<close> are exact fractions or parameters (\<open>floats\<close> in \<open>Latency_Programs\<close>).

  \<^bold>\<open>V3C files\<close> (\<open>uvgrtp/v3c_util.hh\<close>, \<open>uvgrtp/v3c_util.cc\<close>).
  \<^item> \<open>V3C_Types\<close>: the structs, and the union of the unit headers with its active member.
  \<^item> \<open>V3C_Header\<close>: \<open>parse_v3c_header\<close> and the header writer inside \<open>create_v3c_unit\<close>; the headers that survive a round trip.
  \<^item> \<open>V3C_Parse\<close>, \<open>V3C_Stream\<close>: \<open>mmap_v3c_file\<close> with bounds-checked reads; what it does on any bytes, and that it parses every
    sample stream of the format (specified by a writer of its own).
  \<^item> \<open>V3C_Receive\<close>, \<open>V3C_Gop\<close>, \<open>V3C_Rebuild\<close>: \<open>init_mmap\<close>, \<open>copy_rtp_payload\<close> on a heap of buffers, \<open>is_gop_ready\<close>, \<open>get_gop_size\<close>,
    \<open>create_v3c_unit\<close>, \<open>reconstruct_v3c_gop\<close>: frames in any interleaving of the streams are rebuilt into a file that the parser reads back.

  \<^bold>\<open>Sources of NAL units\<close>.
  \<^item> \<open>Start_Code\<close>: \<open>get_next_frame_start\<close> of \<open>util/util.cc\<close> and the word-at-a-time search of \<open>live555/source.cc\<close>, against the naive search.
  \<^item> \<open>Nal_Source\<close>: \<open>find_next_nal\<close> and its cursor, on any data and on Annex B streams.
  \<^item> \<open>Framed_Source\<close>: \<open>FramedSourceCustom\<close> of \<open>util/live555_util.cc\<close>, from the queue of chunks to the pieces it sends.
  \<^item> \<open>Chunk_Files\<close>: \<open>get_chunk_sizes\<close>, \<open>get_chunk_filename\<close> and the writing side in \<open>util/test_file_creation.cc\<close>, with the encoder as a parameter.
  \<^item> \<open>Test_File_Creation\<close>: the rest of that program: its arguments, the files it opens, the settings of the encoder, and what it closes and frees.

  \<^bold>\<open>Text and files\<close>.
  \<^item> \<open>Decimal\<close>: printing and reading of numbers (\<open>atoi\<close>, \<open>printf\<close>), and the pattern with which \<open>parse.pl\<close> finds them in a line.
  \<^item> \<open>Result_Files\<close>: a disk of named files, \<open>get_mem\<close>, and the three functions of \<open>util/util.cc\<close> that append to result files.

  \<^bold>\<open>Sending\<close>.
  \<^item> \<open>Pacing\<close>: the clock, \<open>push_frame\<close>, the pacing of all senders, and the locale \<open>paced\<close>: what a loop body
    owes for the whole loop to stay in its buffer, on schedule and complete. It is interpreted for every sender.
  \<^item> \<open>Senders\<close>: the sending loops of \<open>uvgrtp/sender.cc\<close>, \<open>vpcc_sender.cc\<close>, \<open>latency_sender.cc\<close>, \<open>vpcc_latency_sender.cc\<close> and \<open>ffmpeg/sender.cc\<close>.
  \<^item> \<open>Live_Source\<close>: \<open>deliverFrame\<close> of \<open>live555/source.cc\<close>; source, sink and monitor of \<open>live555/latency_sender.cc\<close> as a
    transition system over a lossy network.
  \<^item> \<open>FFmpeg_Latency\<close>: the two threads of \<open>ffmpeg/latency_sender.cc\<close> with the containers they share.
  \<^item> \<open>Session_Setup\<close>: which streams the programs create (\<open>intialize_uvgrtp\<close>, \<open>init_v3c_streams\<close>, keys, ports, command line), and
    which of them reach each other.

  \<^bold>\<open>Receiving\<close>.
  \<^item> \<open>Hooks\<close>: running a receive hook over frames, and the locale \<open>frame_hook\<close>: an invariant and an abstract view a hook keeps up.
    It is interpreted for every hook.
  \<^item> \<open>Receivers\<close>: \<open>uvgrtp/receiver.cc\<close> and \<open>vpcc_receiver.cc\<close>: what they count, and when they stop waiting.
  \<^item> \<open>Latency\<close>: the receive hooks of the latency senders and the evaluation of the V-PCC latency test.
  \<^item> \<open>Echo\<close>, \<open>Live_Echo\<close>: the echoing programs on uvgRTP and live555, and the counting sink of \<open>live555/sink.cc\<close>.
  \<^item> \<open>FFmpeg_Receiver\<close>: \<open>ffmpeg/receiver.cc\<close>, with the globals its threads share.
  \<^item> \<open>Latency_Tests\<close> and this theory: both programs of a latency test together.
  \<^item> \<open>Udperf\<close>: the rounds of the raw UDP benchmark, server and client.

  \<^bold>\<open>Whole programs\<close>. The \<open>main\<close> functions from the command line to the exit status, the result file and what was pushed on which stream.
  \<^item> \<open>Throughput\<close>, \<open>V3C_Programs\<close>: the uvgRTP throughput programs and those for V-PCC files, from test file creation to both result lines.
  \<^item> \<open>Receiver_Threads\<close>: the setup of \<open>uvgrtp/receiver.cc\<close>, and its receive hook statement by statement: a step relation with all interleavings
    of the threads, and a function that follows a given one.
  \<^item> \<open>Latency_Programs\<close>, \<open>V3C_Latency_Test\<close>: the four uvgRTP latency programs; the tests program against program; unusable input files.
  \<^item> \<open>FFmpeg_Programs\<close>: the four FFmpeg programs, with what their setup hands to FFmpeg and the session descriptions of the repository.
  \<^item> \<open>Live_Programs\<close>, \<open>Live_Objects\<close>, \<open>Live_Latency_Test\<close>: the live555 throughput programs; constructors, destructors, event
    triggers and buffers of the live555 classes; the two latency programs, and their test program against program.
  \<^item> \<open>Udperf_Programs\<close>: \<open>udperf.cc\<close> and \<open>udperf.c\<close> with their options and addresses, and that the one is an instance of the other.

  \<^bold>\<open>Fuel and bounds\<close>. Loops over data recurse on the data or on what is left of it, with termination proofs. Loops that
  wait for the outside world recurse on the list of what they observe (polls, periods, windows, reads, events) and have the value \<open>None\<close> when it is
  used up; \<open>receiver_wait_ends\<close>, \<open>echo_receiver_ends\<close> and the properties of the whole programs say how much is enough. The flushing of the encoder takes as
  fuel how often the encoder may be asked, \<open>queue_chunks\<close> the 3000 rounds of the code, and \<open>live_loop\<close> the number of requests of the
  event loop, one more than there are NAL units. Schedules are assumed to fit 64 bits.

  \<^bold>\<open>Not modelled\<close>. What the libraries do with a frame, a socket or an option; the averages and frame periods in \<open>float\<close>, which are
  parameters; what is printed to the terminal; \<open>live555/latsource.cc\<close>, which does not compile, and \<open>live555/latsink.cc\<close>: no program is built from them;
  the Perl scripts, except how \<open>parse.pl\<close> reads numbers.
\<close>

section \<open>The latency tests as a whole\<close>

text \<open>
  The H.265 latency test over a lossless network. The sending program stays on schedule
  and pushes the file cut at its chunk sizes; the echoing program pushes back exactly these frames; and when they come back, at whatever
  times, both programs report the same numbers of intra, inter and other frames, the
  sender's total is the number of chunks, and nothing reads outside a frame.
\<close>

theorem h265_latency_test:
  assumes "chunk_sizes \<noteq> []" and "sum_list chunk_sizes \<le> length mem" and "\<forall>n \<in> set chunk_sizes. 4 < n"
    and "length chunk_sizes * unat period < 2 ^ 64" and "length chunk_sizes < 2 ^ 64" and "\<forall>k. e_push_ok env k"
    and "length moments = length chunk_sizes"
  shows "\<exists>s r h. latency_sender env mem period False [] chunk_sizes = Inr (True, s)
    \<and> pushed (lt_world s) = slices mem 0 chunk_sizes
    \<and> (\<forall>k < length (w_log (lt_world s)). k * unat period \<le> fst (w_log (lt_world s) ! k))
    \<and> run_hook (hook_receiver False) (map Some (pushed (lt_world s))) echo_init = Inr r
    \<and> map snd (er_pushed r) = pushed (lt_world s)
    \<and> run_hook (hook_sender False False) (coming_back moments (map snd (er_pushed r))) hook_init = Inr h
    \<and> hk_nintras h = er_nintras r \<and> hk_ninters h = er_ninters r \<and> hk_n_non_vcl h = er_n_non_vcl r
    \<and> hk_total_frames_received h = length chunk_sizes"
proof -
  let ?xs = "slices mem 0 chunk_sizes"
  obtain s where s: "latency_sender env mem period False [] chunk_sizes = Inr (True, s)" "pushed (lt_world s) = ?xs"
    "\<forall>k < length (w_log (lt_world s)). k * unat period \<le> fst (w_log (lt_world s) ! k)"
    using latency_chunk_run [OF assms(1,2,4-6)] by blast
  have "set (map length ?xs) = set chunk_sizes"
    using slices_lengths [of 0 chunk_sizes mem] assms(2) by simp
  then have long: "\<forall>x \<in> set ?xs. 4 < length x" using assms(3) by force
  obtain r where r: "run_hook (hook_receiver False) (map Some ?xs) echo_init = Inr r" "map snd (er_pushed r) = ?xs"
    "er_nintras r = length (filter (\<lambda>x. frame_kind False False x = Intra) ?xs)"
    "er_ninters r = length (filter (\<lambda>x. frame_kind False False x = Inter) ?xs)"
    "er_n_non_vcl r = length (filter (\<lambda>x. frame_kind False False x = Neither) ?xs)"
    using echo_counts [OF long] by blast
  have "map (\<lambda>(_, _, f). f) (coming_back moments ?xs) = map Some ?xs"
    using assms(7) by (intro coming_back_frames) simp
  from hook_sender_counts [OF this long] show ?thesis
    using s r by (auto simp del: map_map)
qed

theorem h265_latency_test_witness:
  "\<exists>s r h. latency_sender (demo_env\<lparr>e_push_ok := \<lambda>_. True\<rparr>) [0, 0, 0, 1, 2, 0, 0, 0, 1, 38, 7] 40 False [] [5, 6] = Inr (True, s)
    \<and> pushed (lt_world s) = slices [0, 0, 0, 1, 2, 0, 0, 0, 1, 38, 7] 0 [5, 6]
    \<and> (\<forall>k < length (w_log (lt_world s)). k * unat (40 :: u64) \<le> fst (w_log (lt_world s) ! k))
    \<and> run_hook (hook_receiver False) (map Some (pushed (lt_world s))) echo_init = Inr r
    \<and> map snd (er_pushed r) = pushed (lt_world s)
    \<and> run_hook (hook_sender False False) (coming_back [(900, 0), (950, 40)] (map snd (er_pushed r))) hook_init = Inr h
    \<and> hk_nintras h = er_nintras r \<and> hk_ninters h = er_ninters r \<and> hk_n_non_vcl h = er_n_non_vcl r
    \<and> hk_total_frames_received h = length [5, 6 :: nat]"
  by (rule h265_latency_test) simp_all

end
